(* ===== verification/Prelude.thy ===== *)
theory Prelude
  imports Main "HOL-Library.Sublist" "HOL-Library.Word"
begin

text \<open>
  What the components share: the exceptions of the code as one datatype, the sum type
  \<open>exn + 'a\<close> that every operation which may throw returns, and facts about byte strings.

  \<^item> A C++ \<open>std::string\<close> or \<open>boost::string_ref\<close> is a \<open>string\<close> (a list of 8-bit \<open>char\<close>s).
    A read one past the end of a \<open>std::string\<close> yields the terminating NUL, which
    \<open>peek\<close> writes out.
  \<^item> \<open>WAR_THROW_T(E, msg)\<close> is \<open>Inl E\<close>: the message is only logged. An exception raised by
    the standard library or by Boost is \<open>ExceptionLibrary\<close>. The macros \<open>WAR_CATCH_ALL_EF\<close>
    and \<open>WAR_CATCH_ERROR\<close> catch every exception.
  \<^item> \<open>WAR_ASSERT\<close> and logging have no effect in the model; the lemmas of the components
    show that the assertions which guard the path handling hold.
\<close>

section \<open>Exceptions and results\<close>

datatype exn =
    ExceptionAccessDenied
  | ExceptionBadPath
  | ExceptionNotFound
  | ExceptionAlreadyExist
  | ExceptionFailedToConnect
  | ExceptionAlreadyLoggedIn
  | ExceptionNeedPasswd
  | ExceptionBadCredentials
  | ExceptionParseError
  | ExceptionMissingInternalObject
  | ExceptionSeekBeoindEof
  | ExceptionNotImplemented
  | ExceptionIoError
  | InputTooBigException
  | NoInputException
  | ExceptionLibrary

named_theorems result_simps \<open>unfolding of the operations that may throw\<close>

definition bindE :: "exn + 'a \<Rightarrow> ('a \<Rightarrow> exn + 'b) \<Rightarrow> exn + 'b" where
  "bindE m f = (case m of Inl e \<Rightarrow> Inl e | Inr x \<Rightarrow> f x)"

lemma bindE_simps [simp]:
  "bindE (Inl e) f = Inl e"
  "bindE (Inr x) f = f x"
  by (simp_all add: bindE_def)

lemma bindE_Inr_iff: "bindE m f = Inr y \<longleftrightarrow> (\<exists>x. m = Inr x \<and> f x = Inr y)"
  by (cases m) auto

lemma bindE_Inl_iff:
  "bindE m f = Inl e \<longleftrightarrow> m = Inl e \<or> (\<exists>x. m = Inr x \<and> f x = Inl e)"
  by (cases m) auto

lemma bindE_InrE [elim!]:
  assumes "bindE m f = Inr y"
  obtains x where "m = Inr x" and "f x = Inr y"
  using assms by (auto simp: bindE_Inr_iff)

text \<open>Operations on a state that survives an exception: the state comes back beside the result.\<close>

definition bindS :: "(exn + 'a) \<times> 's \<Rightarrow> ('a \<Rightarrow> 's \<Rightarrow> (exn + 'b) \<times> 's) \<Rightarrow> (exn + 'b) \<times> 's" where
  "bindS m f = (case m of (Inl e, s) \<Rightarrow> (Inl e, s) | (Inr x, s) \<Rightarrow> f x s)"

lemma bindS_simps [simp]:
  "bindS (Inl e, s) f = (Inl e, s)"
  "bindS (Inr x, s) f = f x s"
  by (simp_all add: bindS_def)

section \<open>Byte strings\<close>

abbreviation slash :: char where "slash \<equiv> CHR ''/''"
abbreviation dot :: char where "dot \<equiv> CHR ''.''"
abbreviation backslash :: char where "backslash \<equiv> CHR 0x5C"
abbreviation comma :: char where "comma \<equiv> CHR '',''"
abbreviation space :: char where "space \<equiv> CHR '' ''"
abbreviation cr :: char where "cr \<equiv> CHR 0x0D"
abbreviation lf :: char where "lf \<equiv> CHR 0x0A"
abbreviation nul :: char where "nul \<equiv> CHR 0x00"
abbreviation crlf :: string where "crlf \<equiv> [cr, lf]"

text \<open>The character a pointer into a \<open>std::string\<close> reads: the terminating NUL at its end.\<close>

fun peek :: "string \<Rightarrow> char" where
  "peek [] = nul"
| "peek (c # cs) = c"

text \<open>\<open>std::string::find(needle) != npos\<close>.\<close>

definition contains_str :: "string \<Rightarrow> string \<Rightarrow> bool" where
  "contains_str s needle \<longleftrightarrow> sublist needle s"

text \<open>\<open>std::find_last_of(c)\<close>: the position of the last occurrence.\<close>

fun find_last_of :: "char \<Rightarrow> string \<Rightarrow> nat option" where
  "find_last_of c [] = None"
| "find_last_of c (x # xs) =
     (case find_last_of c xs of
        Some n \<Rightarrow> Some (Suc n)
      | None \<Rightarrow> if x = c then Some 0 else None)"

lemma find_last_of_None [simp]: "find_last_of c xs = None \<longleftrightarrow> c \<notin> set xs"
  by (induction xs) (auto split: option.splits)

lemma dropWhile_length_le [simp]: "length (dropWhile P xs) \<le> length xs"
  by (induction xs) auto

lemma sublist_two_Cons:
  "sublist [a, b] (x # xs) \<longleftrightarrow> (x = a \<and> (\<exists>ys. xs = b # ys)) \<or> sublist [a, b] xs"
  by (auto simp: sublist_Cons_right prefix_def)

lemma not_sublist_two_short [simp]: "\<not> sublist [a, b] []" "\<not> sublist [a, b] [x]"
  by (auto simp: sublist_two_Cons)

lemma sublist_mem: "sublist [a, b] xs \<Longrightarrow> a \<in> set xs \<and> b \<in> set xs"
  using set_mono_sublist by fastforce

lemma takeWhile_no: "c \<notin> set xs \<Longrightarrow> takeWhile (\<lambda>x. x \<noteq> c) xs = xs"
  by (induction xs) auto

lemma nth_update_apply:
  "xs[i := f (xs ! i)] ! n = (if i = n \<and> n < length xs then f (xs ! n) else xs ! n)"
  by (cases "i < length xs") (auto simp: nth_list_update list_update_beyond)

section \<open>Characters and numbers\<close>

text \<open>\<open>isalpha\<close> and \<open>toupper\<close> in the classic locale, and \<open>boost::iequals\<close>.\<close>

definition is_alpha :: "char \<Rightarrow> bool" where
  "is_alpha c \<longleftrightarrow> (65 \<le> (of_char c :: nat) \<and> (of_char c :: nat) \<le> 90)
     \<or> (97 \<le> (of_char c :: nat) \<and> (of_char c :: nat) \<le> 122)"

definition ascii_upper :: "char \<Rightarrow> char" where
  "ascii_upper c =
     (if 97 \<le> (of_char c :: nat) \<and> (of_char c :: nat) \<le> 122 then char_of ((of_char c :: nat) - 32) else c)"

definition iequals :: "string \<Rightarrow> string \<Rightarrow> bool" where
  "iequals a b \<longleftrightarrow> map ascii_upper a = map ascii_upper b"

text \<open>The digits of a number in a base up to 16, lower case, as \<open>to_string\<close> and \<open>printf\<close> write them.\<close>

definition digit_char :: "nat \<Rightarrow> char" where
  "digit_char d = (if d < 10 then char_of (48 + d) else char_of (87 + d))"

function digits_in :: "nat \<Rightarrow> nat \<Rightarrow> string" where
  "digits_in b n =
     (if n < b \<or> b < 2 then [digit_char n] else digits_in b (n div b) @ [digit_char (n mod b)])"
  by pat_completeness auto
termination
  by (relation "measure snd") (auto intro!: div_less_dividend)

declare digits_in.simps [simp del]

abbreviation dec :: "nat \<Rightarrow> string" where "dec \<equiv> digits_in 10"
abbreviation hex :: "nat \<Rightarrow> string" where "hex \<equiv> digits_in 16"

lemma digits_in_not_Nil [simp]: "digits_in b n \<noteq> []"
  by (subst digits_in.simps) simp

text \<open>Sums and differences of \<open>size_t\<close> values wrap around.\<close>

definition u64 :: "nat \<Rightarrow> nat" where
  "u64 n = n mod 2 ^ 64"

lemma u64_id [simp]: "n < 2 ^ 64 \<Longrightarrow> u64 n = n"
  by (simp add: u64_def)

definition u64_sub :: "nat \<Rightarrow> nat \<Rightarrow> nat" where
  "u64_sub a b = (if b \<le> a then a - b else a + 2 ^ 64 - b)"

lemma u64_sub_le [simp]: "b \<le> a \<Longrightarrow> u64_sub a b = a - b"
  by (simp add: u64_sub_def)

section \<open>Buffers\<close>

text \<open>Bytes put into a buffer at an offset.\<close>

definition buf_put :: "string \<Rightarrow> nat \<Rightarrow> string \<Rightarrow> string" where
  "buf_put buf pos data = take pos buf @ data @ drop (pos + length data) buf"

lemma append_prefix: "a @ b = c @ d \<Longrightarrow> length a \<le> length c \<Longrightarrow> prefix a c"
  by (rule prefix_length_prefix[of _ "c @ d"]) (metis prefixI, simp_all)

lemma length_buf_put: "pos + length d \<le> length b \<Longrightarrow> length (buf_put b pos d) = length b"
  by (simp add: buf_put_def)

lemma buf_put_take:
  "pos + length d \<le> length b \<Longrightarrow> take (pos + length d) (buf_put b pos d) = take pos b @ d"
  by (simp add: buf_put_def)

end
