(* ===== verification/Filesystem.thy ===== *)
theory Filesystem
  imports Prelude
begin

text \<open>
  The operating system's file system, as the code sees it through \<open>boost::filesystem\<close> and
  \<open>boost::interprocess\<close>. Those libraries are not part of the repository, so their operations are
  a record of functions that the model takes as an argument: \<open>'p\<close> is a physical path
  (\<open>boost::filesystem::path\<close>, up to its own equality) and \<open>'w\<close> the state of the disk.
  Operations called without an \<open>error_code\<close> may throw and return \<open>exn + 'a\<close>; those called with
  one report whether it was set.

  \<open>demo_fs\<close> is a concrete instance, used only by the witnesses: paths are lists of components
  and the disk maps a path to a directory or to the bytes of a file.
\<close>

datatype file_status = File_not_found | Regular_file | Directory_file | Other_file

record ('p, 'w) fs_ops =
  fs_path :: "string \<Rightarrow> 'p"
  fs_append :: "'p \<Rightarrow> string \<Rightarrow> 'p"
  fs_status :: "'w \<Rightarrow> 'p \<Rightarrow> exn + file_status"
  fs_remove :: "'w \<Rightarrow> 'p \<Rightarrow> 'w \<times> bool"
  fs_create_directory :: "'w \<Rightarrow> 'p \<Rightarrow> 'w \<times> bool"
  fs_rename :: "'w \<Rightarrow> 'p \<Rightarrow> 'p \<Rightarrow> 'w \<times> bool"
  fs_file_size :: "'w \<Rightarrow> 'p \<Rightarrow> nat option"
  fs_resize_file :: "'w \<Rightarrow> 'p \<Rightarrow> nat \<Rightarrow> (exn + unit) \<times> 'w"
  fs_touch :: "'w \<Rightarrow> 'p \<Rightarrow> 'w"
  fs_map_file :: "'w \<Rightarrow> 'p \<Rightarrow> bool \<Rightarrow> exn + unit"
  fs_map_region :: "'w \<Rightarrow> 'p \<Rightarrow> bool \<Rightarrow> nat \<Rightarrow> nat \<Rightarrow> exn + nat"
  fs_read_bytes :: "'w \<Rightarrow> 'p \<Rightarrow> nat \<Rightarrow> nat \<Rightarrow> string"
  fs_write_bytes :: "'w \<Rightarrow> 'p \<Rightarrow> nat \<Rightarrow> string \<Rightarrow> 'w"

text \<open>The three tests are defined by Boost through \<open>status\<close>.\<close>

definition fs_exists :: "('p, 'w) fs_ops \<Rightarrow> 'w \<Rightarrow> 'p \<Rightarrow> exn + bool" where
  "fs_exists fs w p = bindE (fs_status fs w p) (\<lambda>st. Inr (st \<noteq> File_not_found))"

definition fs_is_regular_file :: "('p, 'w) fs_ops \<Rightarrow> 'w \<Rightarrow> 'p \<Rightarrow> exn + bool" where
  "fs_is_regular_file fs w p = bindE (fs_status fs w p) (\<lambda>st. Inr (st = Regular_file))"

definition fs_is_directory :: "('p, 'w) fs_ops \<Rightarrow> 'w \<Rightarrow> 'p \<Rightarrow> exn + bool" where
  "fs_is_directory fs w p = bindE (fs_status fs w p) (\<lambda>st. Inr (st = Directory_file))"

lemmas fs_test_defs = fs_exists_def fs_is_regular_file_def fs_is_directory_def

section \<open>A concrete file system for the witnesses\<close>

datatype node = Dir | Reg string

type_synonym demo_path = "string list"
type_synonym demo_disk = "(demo_path \<times> node) list"

definition demo_status :: "demo_disk \<Rightarrow> demo_path \<Rightarrow> file_status" where
  "demo_status w p =
     (case map_of w p of None \<Rightarrow> File_not_found | Some Dir \<Rightarrow> Directory_file | Some (Reg _) \<Rightarrow> Regular_file)"

definition demo_bytes :: "demo_disk \<Rightarrow> demo_path \<Rightarrow> string" where
  "demo_bytes w p = (case map_of w p of Some (Reg b) \<Rightarrow> b | _ \<Rightarrow> [])"

definition demo_size :: "demo_disk \<Rightarrow> demo_path \<Rightarrow> nat option" where
  "demo_size w p = (case map_of w p of Some (Reg b) \<Rightarrow> Some (length b) | _ \<Rightarrow> None)"

definition demo_remove :: "demo_disk \<Rightarrow> demo_path \<Rightarrow> demo_disk \<times> bool" where
  "demo_remove w p = (filter (\<lambda>(q, _). q \<noteq> p) w, map_of w p = None)"

definition demo_create_directory :: "demo_disk \<Rightarrow> demo_path \<Rightarrow> demo_disk \<times> bool" where
  "demo_create_directory w p = (if map_of w p = None then ((p, Dir) # w, False) else (w, True))"

definition demo_rename :: "demo_disk \<Rightarrow> demo_path \<Rightarrow> demo_path \<Rightarrow> demo_disk \<times> bool" where
  "demo_rename w p q =
     (case map_of w p of
        None \<Rightarrow> (w, True)
      | Some n \<Rightarrow> ((q, n) # filter (\<lambda>(r, _). r \<noteq> p \<and> r \<noteq> q) w, False))"

definition demo_resize :: "demo_disk \<Rightarrow> demo_path \<Rightarrow> nat \<Rightarrow> (exn + unit) \<times> demo_disk" where
  "demo_resize w p n =
     (case map_of w p of
        Some (Reg b) \<Rightarrow>
          (Inr (), (p, Reg (take n (b @ replicate (n - length b) nul)))
                   # filter (\<lambda>(q, _). q \<noteq> p) w)
      | _ \<Rightarrow> (Inl ExceptionLibrary, w))"

definition demo_touch :: "demo_disk \<Rightarrow> demo_path \<Rightarrow> demo_disk" where
  "demo_touch w p = (if map_of w p = None then (p, Reg []) # w else w)"

definition demo_map_region :: "demo_disk \<Rightarrow> demo_path \<Rightarrow> bool \<Rightarrow> nat \<Rightarrow> nat \<Rightarrow> exn + nat" where
  "demo_map_region w p rw ofs len =
     (if len \<noteq> 0 then Inr len
      else if length (demo_bytes w p) \<le> ofs then Inl ExceptionLibrary
      else Inr (length (demo_bytes w p) - ofs))"

definition demo_write_bytes :: "demo_disk \<Rightarrow> demo_path \<Rightarrow> nat \<Rightarrow> string \<Rightarrow> demo_disk" where
  "demo_write_bytes w p ofs data =
     (let b = demo_bytes w p
      in (p, Reg (take ofs b @ data @ drop (ofs + length data) b)) # filter (\<lambda>(q, _). q \<noteq> p) w)"

definition demo_fs :: "(demo_path, demo_disk) fs_ops" where
  "demo_fs =
     \<lparr>fs_path = (\<lambda>s. [s]),
      fs_append = (\<lambda>p n. p @ [n]),
      fs_status = (\<lambda>w p. Inr (demo_status w p)),
      fs_remove = demo_remove,
      fs_create_directory = demo_create_directory,
      fs_rename = demo_rename,
      fs_file_size = demo_size,
      fs_resize_file = demo_resize,
      fs_touch = demo_touch,
      fs_map_file = (\<lambda>w p rw. if map_of w p = None then Inl ExceptionLibrary else Inr ()),
      fs_map_region = demo_map_region,
      fs_read_bytes = (\<lambda>w p ofs len. take len (drop ofs (demo_bytes w p))),
      fs_write_bytes = demo_write_bytes\<rparr>"

lemmas demo_defs =
  demo_fs_def demo_status_def demo_bytes_def demo_size_def demo_remove_def
  demo_create_directory_def demo_rename_def demo_resize_def demo_touch_def
  demo_map_region_def demo_write_bytes_def

end
