(* ===== verification/FileInterface.thy ===== *)
theory FileInterface
  imports Filesystem
begin

text \<open>
  The class \<open>File\<close> of \<open>include/wfde/wfde.h\<close>: its operations as a record (\<open>'f\<close> is the file object,
  \<open>'w\<close> the disk), and the contract of a file that is read to its end as the locale \<open>file_source\<close>.
  Its parameter \<open>size_ok\<close> says which chunk sizes the file can be read with.
  \<open>fo_fill\<close> stands for a caller that puts bytes at the start of the buffer returned by \<open>Write\<close>.
\<close>

datatype file_operation = READ | WRITE | WRITE_NEW | APPEND

record ('f, 'w) file_ops =
  fo_read :: "'w \<Rightarrow> nat \<Rightarrow> 'f \<Rightarrow> (exn + string) \<times> 'f"
  fo_write :: "nat \<Rightarrow> 'f \<times> 'w \<Rightarrow> (exn + nat) \<times> 'f \<times> 'w"
  fo_fill :: "string \<Rightarrow> 'f \<times> 'w \<Rightarrow> 'f \<times> 'w"
  fo_set_bytes_written :: "nat \<Rightarrow> 'f \<times> 'w \<Rightarrow> (exn + unit) \<times> 'f \<times> 'w"
  fo_seek :: "nat \<Rightarrow> 'f \<Rightarrow> (exn + unit) \<times> 'f"
  fo_get_pos :: "'f \<Rightarrow> nat"
  fo_get_size :: "'f \<Rightarrow> nat"
  fo_is_eof :: "'f \<Rightarrow> bool"
  fo_close :: "'f \<times> 'w \<Rightarrow> (exn + unit) \<times> 'f \<times> 'w"
  fo_get_operation :: "'f \<Rightarrow> file_operation"
  fo_get_segment_size :: "'f \<Rightarrow> nat"

section \<open>Reading to the end\<close>

text \<open>\<open>while (!file.IsEof()) file.Read(n)\<close>, with fuel; the result is all the bytes read.\<close>

fun drain ::
    "nat \<Rightarrow> ('w \<Rightarrow> nat \<Rightarrow> 'f \<Rightarrow> (exn + string) \<times> 'f) \<Rightarrow> ('f \<Rightarrow> bool) \<Rightarrow> 'w \<Rightarrow> nat \<Rightarrow> 'f \<Rightarrow> (exn + string) option" where
  "drain 0 read is_eof w n f = None"
| "drain (Suc fuel) read is_eof w n f =
     (if is_eof f then Some (Inr [])
      else (case read w n f of
              (Inl e, f') \<Rightarrow> Some (Inl e)
            | (Inr d, f') \<Rightarrow> map_option (\<lambda>r. bindE r (\<lambda>ds. Inr (d @ ds))) (drain fuel read is_eof w n f')))"

locale file_source =
  fixes read :: "'w \<Rightarrow> nat \<Rightarrow> 'f \<Rightarrow> (exn + string) \<times> 'f"
    and size_ok :: "'f \<Rightarrow> nat \<Rightarrow> bool"
    and is_eof :: "'f \<Rightarrow> bool"
    and ok :: "'w \<Rightarrow> 'f \<Rightarrow> bool"
    and rest :: "'w \<Rightarrow> 'f \<Rightarrow> string"
    and left :: "'f \<Rightarrow> nat"
  assumes eof_rest: "ok w f \<Longrightarrow> is_eof f \<Longrightarrow> rest w f = []"
    and read_step: "ok w f \<Longrightarrow> size_ok f n \<Longrightarrow> \<not> is_eof f \<Longrightarrow>
      \<exists>d f'. read w n f = (Inr d, f') \<and> ok w f' \<and> size_ok f' n \<and> rest w f = d @ rest w f' \<and> left f' < left f"
begin

lemma drain_rest: "ok w f \<Longrightarrow> size_ok f n \<Longrightarrow> left f < fuel \<Longrightarrow> drain fuel read is_eof w n f = Some (Inr (rest w f))"
proof (induction fuel arbitrary: f)
  case (Suc fuel)
  show ?case
  proof (cases "is_eof f")
    case True
    then show ?thesis using eof_rest[OF Suc.prems(1)] by simp
  next
    case False
    from read_step[OF Suc.prems(1,2) False] obtain d f' where
      "read w n f = (Inr d, f')" "ok w f'" "size_ok f' n" "rest w f = d @ rest w f'" "left f' < left f" by blast
    with Suc False show ?thesis by simp
  qed
qed simp

end

section \<open>Receiving into a file\<close>

text \<open>
  How a file is filled from a connection: before each chunk a buffer of the default size is
  asked for; at the end of the data, \<open>SetBytesWritten(0)\<close> and \<open>Close\<close>
  (\<open>WfdeFtpSession::ReceiveFile\<close>, when nothing fails).
\<close>

fun receive_chunks :: "('f, 'w) file_ops \<Rightarrow> string list \<Rightarrow> 'f \<times> 'w \<Rightarrow> (exn + unit) \<times> 'f \<times> 'w" where
  "receive_chunks ops [] fw =
     bindS (fo_write ops 0 fw) (\<lambda>len fw.
       bindS (fo_set_bytes_written ops 0 fw) (\<lambda>_ fw. fo_close ops fw))"
| "receive_chunks ops (d # ds) fw =
     bindS (fo_write ops 0 fw) (\<lambda>len fw.
       bindS (fo_set_bytes_written ops (length d) (fo_fill ops d fw)) (\<lambda>_ fw.
         receive_chunks ops ds fw))"

end
