(* ===== verification/WfdeFile.thy ===== *)
theory WfdeFile
  imports FileInterface
begin

text \<open>
  Memory-mapped files: \<open>src/wfde/WfdeFile.{h,cpp}\<close>. The mapped memory is the file itself, so a buffer is the range
  of the file it shows: reading yields bytes of the disk, and what a caller puts into a write
  buffer is written to the disk. Positions and sizes are natural numbers, and the sums and differences
  the code computes from them wrap modulo \<open>2 ^ 64\<close> (\<open>u64\<close>, \<open>u64_sub\<close>). The invariant of the file shows
  that no difference wraps; a sum wraps for a chunk size close to \<open>2 ^ 64\<close>, and then reading stalls
  (\<open>read_stalls\<close>).
\<close>

section \<open>State\<close>

record 'p wfde_file =
  wf_pos :: nat
  wf_path :: 'p
  wf_operation :: file_operation
  wf_region_size :: nat
  wf_rw :: bool
  wf_segment_size :: nat
  wf_region_start :: nat
  wf_file_size :: nat
  wf_end_of_file_pos :: nat
  wf_last_buffer_len :: nat
  wf_do_truncate :: bool
  wf_closed :: bool
  wf_have_mapped_region :: bool
  wf_have_mapped_file :: bool

definition region_limit :: "'p wfde_file \<Rightarrow> nat" where
  "region_limit f = u64 (wf_segment_size f * 8)"

definition grow_size :: "'p wfde_file \<Rightarrow> nat" where
  "grow_size f = u64 (region_limit f * 128)"

section \<open>Mapping\<close>

definition unmap_region :: "'p wfde_file \<Rightarrow> 'p wfde_file" where
  "unmap_region f =
     (if wf_have_mapped_region f then f\<lparr>wf_region_size := 0, wf_have_mapped_region := False\<rparr> else f)"

definition unmap_file :: "'p wfde_file \<Rightarrow> 'p wfde_file" where
  "unmap_file f =
     (if wf_have_mapped_file f then (unmap_region f)\<lparr>wf_have_mapped_file := False\<rparr> else f)"

definition map_file :: "('p, 'w) fs_ops \<Rightarrow> 'w \<Rightarrow> 'p wfde_file \<Rightarrow> (exn + unit) \<times> 'p wfde_file" where
  "map_file fs w f =
     (case fs_map_file fs w (wf_path f) (wf_rw f) of
        Inl e \<Rightarrow> (Inl e, unmap_region f)
      | Inr _ \<Rightarrow> (Inr (), (unmap_region f)\<lparr>wf_have_mapped_file := True\<rparr>))"

definition map_region :: "('p, 'w) fs_ops \<Rightarrow> 'w \<Rightarrow> nat \<Rightarrow> 'p wfde_file \<Rightarrow> (exn + unit) \<times> 'p wfde_file" where
  "map_region fs w want_bytes f =
     bindS (if \<not> wf_have_mapped_file f then map_file fs w f else (Inr (), f)) (\<lambda>_ f.
       let start_segment = wf_pos f div wf_segment_size f;
           region_start = start_segment * wf_segment_size f;
           max_region_size = (if want_bytes \<noteq> 0 then min (u64 (want_bytes + wf_segment_size f)) (region_limit f)
                              else region_limit f);
           region_len = min max_region_size (u64_sub (wf_file_size f) region_start);
           f = f\<lparr>wf_region_start := region_start\<rparr>
       in (case fs_map_region fs w (wf_path f) (wf_rw f) region_start region_len of
             Inl e \<Rightarrow> (Inl e, f)
           | Inr sz \<Rightarrow> (Inr (), f\<lparr>wf_region_size := sz, wf_have_mapped_region := True\<rparr>)))"

text \<open>The offset into the region and the length of the buffer.\<close>

definition get_buffer_values ::
    "('p, 'w) fs_ops \<Rightarrow> 'w \<Rightarrow> nat \<Rightarrow> 'p wfde_file \<Rightarrow> (exn + nat \<times> nat) \<times> 'p wfde_file" where
  "get_buffer_values fs w bytes f =
     bindS (map_region fs w bytes f) (\<lambda>_ f.
       let offset = u64_sub (wf_pos f) (wf_region_start f);
           seg_len = u64_sub (wf_region_size f) offset;
           use_len = (if bytes \<noteq> 0 then min bytes seg_len else seg_len)
       in (Inr (offset, use_len), f\<lparr>wf_pos := u64 (wf_pos f + use_len), wf_last_buffer_len := use_len\<rparr>))"

section \<open>Operations\<close>

definition wf_seek :: "nat \<Rightarrow> 'p wfde_file \<Rightarrow> (exn + unit) \<times> 'p wfde_file" where
  "wf_seek pos f = (if pos > wf_file_size f then (Inl ExceptionSeekBeoindEof, f)
                    else (Inr (), f\<lparr>wf_pos := pos\<rparr>))"

definition wf_is_eof :: "'p wfde_file \<Rightarrow> bool" where
  "wf_is_eof f \<longleftrightarrow> wf_pos f = wf_file_size f"

text \<open>
  The constructor; \<open>page\<close> is the page size of the system. First the disk is prepared according
  to the operation (the result is the mapping mode), then the file is measured and mapped.
\<close>

definition wf_prepare ::
    "('p, 'w) fs_ops \<Rightarrow> 'w \<Rightarrow> 'p \<Rightarrow> file_operation \<Rightarrow> (exn + bool) \<times> 'w" where
  "wf_prepare fs w path operation =
     bindS (fs_status fs w path, w) (\<lambda>st w.
       if operation = WRITE_NEW \<and> st \<noteq> File_not_found then (Inl ExceptionAlreadyExist, w)
       else
         let rw = (operation \<noteq> READ);
             must_exist = (operation = READ);
             truncate_if_exists = (operation \<noteq> READ \<and> operation \<noteq> APPEND)
         in if must_exist then
              (if st \<noteq> Regular_file then (Inl ExceptionNotFound, w) else (Inr rw, w))
            else if st \<noteq> File_not_found then
              (if truncate_if_exists
               then bindS (fs_resize_file fs w path 0) (\<lambda>_ w. (Inr rw, w))
               else (Inr rw, w))
            else (Inr rw, fs_touch fs w path))"

definition wf_open ::
    "('p, 'w) fs_ops \<Rightarrow> nat \<Rightarrow> 'w \<Rightarrow> 'p \<Rightarrow> file_operation \<Rightarrow> bool \<Rightarrow> exn + 'p wfde_file" where
  "wf_open fs page w path operation rw =
     (case fs_file_size fs w path of
        None \<Rightarrow> Inl ExceptionLibrary
      | Some sz \<Rightarrow>
          (case map_file fs w
             \<lparr>wf_pos = 0, wf_path = path, wf_operation = operation,
              wf_region_size = 0, wf_rw = rw, wf_segment_size = page,
              wf_region_start = 0, wf_file_size = sz,
              wf_end_of_file_pos = sz, wf_last_buffer_len = 0,
              wf_do_truncate = False, wf_closed = False,
              wf_have_mapped_region = False, wf_have_mapped_file = False\<rparr> of
             (Inl e, f) \<Rightarrow> Inl e
           | (Inr _, f) \<Rightarrow>
               if operation = APPEND then
                 (case wf_seek (wf_end_of_file_pos f) f of
                    (Inl e, f) \<Rightarrow> Inl e
                  | (Inr _, f) \<Rightarrow> Inr f)
               else Inr f))"

definition wfde_file_new ::
    "('p, 'w) fs_ops \<Rightarrow> nat \<Rightarrow> 'w \<Rightarrow> 'p \<Rightarrow> file_operation \<Rightarrow> (exn + 'p wfde_file) \<times> 'w" where
  "wfde_file_new fs page w path operation =
     bindS (wf_prepare fs w path operation) (\<lambda>rw w. (wf_open fs page w path operation rw, w))"

text \<open>\<open>Read\<close>: the bytes of the disk the returned buffer shows.\<close>

definition wf_read ::
    "('p, 'w) fs_ops \<Rightarrow> 'w \<Rightarrow> nat \<Rightarrow> 'p wfde_file \<Rightarrow> (exn + string) \<times> 'p wfde_file" where
  "wf_read fs w bytes f =
     bindS (get_buffer_values fs w bytes f) (\<lambda>(offset, len) f.
       (Inr (fs_read_bytes fs w (wf_path f) (wf_region_start f + offset) len), f))"

text \<open>\<open>Write\<close>: the length of the buffer that may be filled, which starts at the old position.\<close>

definition wf_write ::
    "('p, 'w) fs_ops \<Rightarrow> nat \<Rightarrow> 'p wfde_file \<times> 'w \<Rightarrow> (exn + nat) \<times> 'p wfde_file \<times> 'w" where
  "wf_write fs bytes0 fw =
     (let (f, w) = fw;
          bytes = (if bytes0 = 0 then wf_segment_size f else bytes0);
          min_file_size = u64 (wf_pos f + bytes + wf_segment_size f)
      in bindS
          (if min_file_size > wf_file_size f then
             (let align = (if min_file_size mod wf_segment_size f \<noteq> 0 then wf_segment_size f else 0);
                  segments = min_file_size div wf_segment_size f;
                  new_size = max (u64 (segments * wf_segment_size f + align)) (u64 (wf_file_size f + grow_size f))
              in (case fs_resize_file fs w (wf_path f) new_size of
                    (Inl e, w) \<Rightarrow> (Inl e, f, w)
                  | (Inr _, w) \<Rightarrow> (Inr (), f\<lparr>wf_file_size := new_size\<rparr>, w)))
           else (Inr (), f, w))
          (\<lambda>_ (f, w).
             (case get_buffer_values fs w bytes f of
                (Inl e, f) \<Rightarrow> (Inl e, f, w)
              | (Inr (offset, len), f) \<Rightarrow> (Inr len, f, w))))"

text \<open>The caller puts bytes at the start of the buffer that \<open>Write\<close> returned last.\<close>

definition wf_fill :: "('p, 'w) fs_ops \<Rightarrow> string \<Rightarrow> 'p wfde_file \<times> 'w \<Rightarrow> 'p wfde_file \<times> 'w" where
  "wf_fill fs data fw =
     (let (f, w) = fw
      in (f, fs_write_bytes fs w (wf_path f) (wf_pos f - wf_last_buffer_len f) data))"

definition wf_set_bytes_written :: "nat \<Rightarrow> 'p wfde_file \<Rightarrow> 'p wfde_file" where
  "wf_set_bytes_written bytes f =
     (let f = (if bytes < wf_last_buffer_len f
               then f\<lparr>wf_pos := u64_sub (wf_pos f) (wf_last_buffer_len f - bytes), wf_do_truncate := True\<rparr>
               else f)
      in if wf_end_of_file_pos f < wf_pos f then f\<lparr>wf_end_of_file_pos := wf_pos f\<rparr> else f)"

text \<open>\<open>Close\<close>: \<open>closed_\<close> is set to false, so a second call does the same again.\<close>

definition wf_close :: "('p, 'w) fs_ops \<Rightarrow> 'p wfde_file \<times> 'w \<Rightarrow> (exn + unit) \<times> 'p wfde_file \<times> 'w" where
  "wf_close fs fw =
     (let (f, w) = fw
      in if \<not> wf_closed f then
           (let f = unmap_file (f\<lparr>wf_closed := False\<rparr>)
            in if wf_do_truncate f \<and> wf_file_size f > wf_end_of_file_pos f then
                 (case fs_is_regular_file fs w (wf_path f) of
                    Inl e \<Rightarrow> (Inl e, f, w)
                  | Inr False \<Rightarrow> (Inr (), f, w)
                  | Inr True \<Rightarrow>
                      (Inr (), f, snd (fs_resize_file fs w (wf_path f) (wf_end_of_file_pos f))))
               else (Inr (), f, w))
         else (Inr (), f, w))"


section \<open>What the code relies on from the file system\<close>

text \<open>
  The documented behaviour of the calls above, as a hypothesis on the parameter: \<open>content\<close> gives
  the bytes of the regular files, whose status and size can be read. Any call may fail; when it
  does not, a mapping of non-zero length has that length, and resizing cuts or pads with NUL. The
  bytes of a mapping are those of the file, and a write through it replaces them in place.
\<close>

definition fs_lawful :: "('p, 'w) fs_ops \<Rightarrow> ('w \<Rightarrow> 'p \<Rightarrow> string option) \<Rightarrow> bool" where
  "fs_lawful fs content \<longleftrightarrow>
     (\<forall>w p b. content w p = Some b \<longrightarrow>
        fs_status fs w p = Inr Regular_file
        \<and> fs_file_size fs w p = Some (length b)
        \<and> (\<forall>rw ofs n m. n \<noteq> 0 \<longrightarrow> fs_map_region fs w p rw ofs n = Inr m \<longrightarrow> m = n)
        \<and> (\<forall>ofs n. fs_read_bytes fs w p ofs n = take n (drop ofs b))
        \<and> (\<forall>n w'. fs_resize_file fs w p n = (Inr (), w') \<longrightarrow>
             content w' p = Some (take n b @ replicate (n - length b) nul))
        \<and> (\<forall>ofs d. ofs + length d \<le> length b \<longrightarrow>
             content (fs_write_bytes fs w p ofs d) p = Some (take ofs b @ d @ drop (ofs + length d) b)))"

text \<open>
  The circumstances in which a transfer can succeed, named where a theorem needs them: the file at
  hand can be mapped (within its size), and it can be resized.
\<close>

definition fs_maps :: "('p, 'w) fs_ops \<Rightarrow> ('w \<Rightarrow> 'p \<Rightarrow> string option) \<Rightarrow> 'p \<Rightarrow> bool" where
  "fs_maps fs content p \<longleftrightarrow>
     (\<forall>w b rw. content w p = Some b \<longrightarrow>
        fs_map_file fs w p rw = Inr ()
        \<and> (\<forall>ofs n. n \<noteq> 0 \<and> ofs + n \<le> length b \<longrightarrow> (\<exists>m. fs_map_region fs w p rw ofs n = Inr m)))"

definition fs_resizes :: "('p, 'w) fs_ops \<Rightarrow> ('w \<Rightarrow> 'p \<Rightarrow> string option) \<Rightarrow> 'p \<Rightarrow> bool" where
  "fs_resizes fs content p \<longleftrightarrow>
     (\<forall>w b n. content w p = Some b \<longrightarrow> fst (fs_resize_file fs w p n) = Inr ())"

definition reads_file :: "('p, 'w) fs_ops \<Rightarrow> ('w \<Rightarrow> 'p \<Rightarrow> string option) \<Rightarrow> 'p \<Rightarrow> bool" where
  "reads_file fs content p \<longleftrightarrow> fs_lawful fs content \<and> fs_maps fs content p"

definition writes_file :: "('p, 'w) fs_ops \<Rightarrow> ('w \<Rightarrow> 'p \<Rightarrow> string option) \<Rightarrow> 'p \<Rightarrow> bool" where
  "writes_file fs content p \<longleftrightarrow> reads_file fs content p \<and> fs_resizes fs content p"

lemma file_status_size:
  assumes "fs_lawful fs content" and "content w p = Some b"
  shows "fs_status fs w p = Inr Regular_file" "fs_file_size fs w p = Some (length b)"
    "fs_read_bytes fs w p ofs n = take n (drop ofs b)"
    "ofs + length d \<le> length b \<Longrightarrow>
       content (fs_write_bytes fs w p ofs d) p = Some (take ofs b @ d @ drop (ofs + length d) b)"
  using assms by (auto simp: fs_lawful_def)

lemma file_maps:
  assumes "reads_file fs content p" and "content w p = Some b"
  shows "fs_map_file fs w p rw = Inr ()"
    "n \<noteq> 0 \<Longrightarrow> ofs + n \<le> length b \<Longrightarrow> fs_map_region fs w p rw ofs n = Inr n"
proof -
  show "fs_map_file fs w p rw = Inr ()" using assms by (simp add: reads_file_def fs_maps_def)
  assume n: "n \<noteq> 0" "ofs + n \<le> length b"
  with assms obtain m where m: "fs_map_region fs w p rw ofs n = Inr m"
    unfolding reads_file_def fs_maps_def by blast
  moreover from m n(1) assms have "m = n" unfolding reads_file_def fs_lawful_def by blast
  ultimately show "fs_map_region fs w p rw ofs n = Inr n" by simp
qed

lemma file_resize:
  assumes "writes_file fs content p" and "content w p = Some b"
  obtains w' where "fs_resize_file fs w p n = (Inr (), w')"
    and "content w' p = Some (take n b @ replicate (n - length b) nul)"
proof -
  have "fst (fs_resize_file fs w p n) = Inr ()" using assms by (simp add: writes_file_def fs_resizes_def)
  then have r: "fs_resize_file fs w p n = (Inr (), snd (fs_resize_file fs w p n))" by (simp add: prod_eq_iff)
  moreover have "content (snd (fs_resize_file fs w p n)) p = Some (take n b @ replicate (n - length b) nul)"
    using assms r unfolding writes_file_def reads_file_def fs_lawful_def by blast
  ultimately show ?thesis by (rule that)
qed

lemma writes_fileD: "writes_file fs content p \<Longrightarrow> reads_file fs content p"
  by (simp add: writes_file_def)

lemma reads_fileD: "reads_file fs content p \<Longrightarrow> fs_lawful fs content"
  by (simp add: reads_file_def)

section \<open>The invariant of an open file\<close>

definition file_ok :: "'p wfde_file \<Rightarrow> bool" where
  "file_ok f \<longleftrightarrow> 0 < wf_segment_size f \<and> 8 * wf_segment_size f < 2 ^ 64 \<and> wf_pos f \<le> wf_file_size f
     \<and> wf_end_of_file_pos f \<le> wf_file_size f \<and> wf_file_size f < 2 ^ 64"

text \<open>The chunk sizes for which the sum in \<open>MapRegion\<close> does not wrap.\<close>

definition chunk_ok :: "'p wfde_file \<Rightarrow> nat \<Rightarrow> bool" where
  "chunk_ok f n \<longleftrightarrow> n + wf_segment_size f < 2 ^ 64"

text \<open>The region that is mapped for a position, and the buffer it leaves from there on.\<close>

definition seg_start :: "'p wfde_file \<Rightarrow> nat" where
  "seg_start f = wf_pos f div wf_segment_size f * wf_segment_size f"

definition region_want :: "nat \<Rightarrow> 'p wfde_file \<Rightarrow> nat" where
  "region_want bytes f =
     min (if bytes \<noteq> 0 then min (u64 (bytes + wf_segment_size f)) (region_limit f) else region_limit f)
       (wf_file_size f - seg_start f)"

definition buffer_len :: "nat \<Rightarrow> 'p wfde_file \<Rightarrow> nat" where
  "buffer_len bytes f =
     (let seg_len = region_want bytes f - (wf_pos f - seg_start f)
      in if bytes \<noteq> 0 then min bytes seg_len else seg_len)"

lemma seg_start_le: "seg_start f \<le> wf_pos f"
  by (simp add: seg_start_def)

lemma pos_in_segment: "file_ok f \<Longrightarrow> wf_pos f - seg_start f < wf_segment_size f"
  by (simp add: seg_start_def minus_div_mult_eq_mod file_ok_def)

lemma region_limit_ok: "file_ok f \<Longrightarrow> region_limit f = 8 * wf_segment_size f"
  by (simp add: region_limit_def file_ok_def mult.commute)

lemma region_want_pos:
  assumes "file_ok f" and "chunk_ok f bytes" and "wf_pos f < wf_file_size f"
  shows "wf_pos f - seg_start f < region_want bytes f"
  using pos_in_segment[OF assms(1)] assms(2,3) seg_start_le[of f] region_limit_ok[OF assms(1)]
  by (auto simp: region_want_def chunk_ok_def)

lemma buffer_len_bounds:
  assumes "file_ok f" and "chunk_ok f bytes" and "wf_pos f < wf_file_size f"
  shows "0 < buffer_len bytes f" and "wf_pos f + buffer_len bytes f \<le> wf_file_size f"
proof -
  show "0 < buffer_len bytes f"
    using region_want_pos[OF assms] by (auto simp: buffer_len_def Let_def)
  have "region_want bytes f \<le> wf_file_size f - seg_start f" by (simp add: region_want_def)
  then show "wf_pos f + buffer_len bytes f \<le> wf_file_size f"
    using assms seg_start_le[of f] by (auto simp: buffer_len_def Let_def)
qed

text \<open>The file object after its buffer was mapped.\<close>

definition mapped :: "nat \<Rightarrow> 'p wfde_file \<Rightarrow> 'p wfde_file" where
  "mapped bytes f =
     (if wf_have_mapped_file f then f else (unmap_region f)\<lparr>wf_have_mapped_file := True\<rparr>)
       \<lparr>wf_region_start := seg_start f, wf_region_size := region_want bytes f,
        wf_have_mapped_region := True, wf_pos := wf_pos f + buffer_len bytes f,
        wf_last_buffer_len := buffer_len bytes f\<rparr>"

lemma mapped_simps [simp]:
  "wf_pos (mapped bytes f) = wf_pos f + buffer_len bytes f"
  "wf_path (mapped bytes f) = wf_path f"
  "wf_region_start (mapped bytes f) = seg_start f"
  "wf_file_size (mapped bytes f) = wf_file_size f"
  "wf_end_of_file_pos (mapped bytes f) = wf_end_of_file_pos f"
  "wf_last_buffer_len (mapped bytes f) = buffer_len bytes f"
  "wf_segment_size (mapped bytes f) = wf_segment_size f"
  "wf_do_truncate (mapped bytes f) = wf_do_truncate f"
  "wf_closed (mapped bytes f) = wf_closed f"
  by (simp_all add: mapped_def unmap_region_def)

lemma file_ok_mapped:
  "file_ok f \<Longrightarrow> chunk_ok f bytes \<Longrightarrow> wf_pos f < wf_file_size f \<Longrightarrow> file_ok (mapped bytes f)"
  using buffer_len_bounds[of f bytes] by (simp add: file_ok_def)

lemma map_region_mapped:
  assumes "wf_have_mapped_file g" and "seg_start g \<le> wf_file_size g"
    and "fs_map_region fs w (wf_path g) (wf_rw g) (seg_start g) (region_want bytes g) = Inr (region_want bytes g)"
  shows "map_region fs w bytes g =
    (Inr (), g\<lparr>wf_region_start := seg_start g, wf_region_size := region_want bytes g,
               wf_have_mapped_region := True\<rparr>)"
proof -
  have "u64_sub (wf_file_size g) (wf_pos g div wf_segment_size g * wf_segment_size g)
      = wf_file_size g - seg_start g"
    using assms(2) by (simp add: seg_start_def)
  then show ?thesis using assms(1,3)
    by (cases "bytes = 0") (simp_all add: map_region_def Let_def seg_start_def region_want_def)
qed

definition remapped :: "'p wfde_file \<Rightarrow> 'p wfde_file" where
  "remapped f = (if wf_have_mapped_file f then f else (unmap_region f)\<lparr>wf_have_mapped_file := True\<rparr>)"

lemma remapped_simps [simp]:
  "wf_pos (remapped f) = wf_pos f"
  "wf_path (remapped f) = wf_path f"
  "wf_rw (remapped f) = wf_rw f"
  "wf_file_size (remapped f) = wf_file_size f"
  "wf_segment_size (remapped f) = wf_segment_size f"
  "wf_have_mapped_file (remapped f)"
  "seg_start (remapped f) = seg_start f"
  "region_want bytes (remapped f) = region_want bytes f"
  by (simp_all add: remapped_def unmap_region_def seg_start_def region_want_def region_limit_def)

lemma map_region_remap:
  assumes "fs_map_file fs w (wf_path f) (wf_rw f) = Inr ()"
  shows "map_region fs w bytes f = map_region fs w bytes (remapped f)"
  using assms by (simp add: map_region_def map_file_def remapped_def)

lemma get_buffer_values_mapped:
  assumes "reads_file fs content (wf_path f)" and "content w (wf_path f) = Some b" and "length b = wf_file_size f"
    and "file_ok f" and "region_want bytes f \<noteq> 0" and "wf_pos f - seg_start f \<le> region_want bytes f"
  shows "get_buffer_values fs w bytes f
    = (Inr (wf_pos f - seg_start f, buffer_len bytes f), mapped bytes f)"
proof -
  have le: "seg_start f \<le> wf_file_size f" using seg_start_le[of f] assms(4) unfolding file_ok_def by linarith
  have "seg_start f + region_want bytes f \<le> length b" using le assms(3) by (simp add: region_want_def)
  then have reg: "fs_map_region fs w (wf_path f) (wf_rw f) (seg_start f) (region_want bytes f)
      = Inr (region_want bytes f)" and mf: "fs_map_file fs w (wf_path f) (wf_rw f) = Inr ()"
    using file_maps[OF assms(1,2)] assms(5) by simp_all
  from le have "map_region fs w bytes f = (Inr (), (remapped f)\<lparr>wf_region_start := seg_start f,
      wf_region_size := region_want bytes f, wf_have_mapped_region := True\<rparr>)"
    using map_region_mapped[of "remapped f" fs w bytes] reg map_region_remap[OF mf] by simp
  moreover have "mapped bytes f = (remapped f)\<lparr>wf_region_start := seg_start f,
      wf_region_size := region_want bytes f, wf_have_mapped_region := True,
      wf_pos := wf_pos f + buffer_len bytes f, wf_last_buffer_len := buffer_len bytes f\<rparr>"
    by (simp add: mapped_def remapped_def)
  moreover have "u64_sub (wf_pos f) (seg_start f) = wf_pos f - seg_start f"
    "u64_sub (region_want bytes f) (wf_pos f - seg_start f) = region_want bytes f - (wf_pos f - seg_start f)"
    using seg_start_le[of f] assms(6) by simp_all
  moreover have "wf_pos f + buffer_len bytes f \<le> wf_file_size f"
    using le assms(4,6) seg_start_le[of f] by (auto simp: buffer_len_def region_want_def Let_def file_ok_def)
  then have "u64 (wf_pos f + buffer_len bytes f) = wf_pos f + buffer_len bytes f"
    using assms(4) by (simp add: file_ok_def)
  ultimately show ?thesis
    by (cases "bytes = 0") (simp_all add: get_buffer_values_def Let_def buffer_len_def)
qed

lemma get_buffer_values_eq:
  assumes "reads_file fs content (wf_path f)" and "content w (wf_path f) = Some b" and "length b = wf_file_size f"
    and "file_ok f" and "chunk_ok f bytes" and "wf_pos f < wf_file_size f"
  shows "get_buffer_values fs w bytes f
    = (Inr (wf_pos f - seg_start f, buffer_len bytes f), mapped bytes f)"
  using get_buffer_values_mapped[OF assms(1-4), of bytes] region_want_pos[OF assms(4-6)] by simp

definition wfde_file_ops :: "('p, 'w) fs_ops \<Rightarrow> ('p wfde_file, 'w) file_ops" where
  "wfde_file_ops fs =
     \<lparr>fo_read = wf_read fs, fo_write = wf_write fs, fo_fill = wf_fill fs,
      fo_set_bytes_written = (\<lambda>n (f, w). (Inr (), wf_set_bytes_written n f, w)),
      fo_seek = wf_seek, fo_get_pos = wf_pos, fo_get_size = wf_file_size, fo_is_eof = wf_is_eof,
      fo_close = wf_close fs, fo_get_operation = wf_operation, fo_get_segment_size = wf_segment_size\<rparr>"

section \<open>Reading\<close>

definition readable :: "('p, 'w) fs_ops \<Rightarrow> ('w \<Rightarrow> 'p \<Rightarrow> string option) \<Rightarrow> 'w \<Rightarrow> 'p wfde_file \<Rightarrow> bool" where
  "readable fs content w f \<longleftrightarrow> reads_file fs content (wf_path f) \<and> file_ok f
     \<and> (\<exists>b. content w (wf_path f) = Some b \<and> length b = wf_file_size f)"

lemma wf_read_eq:
  assumes "readable fs content w f" and "chunk_ok f bytes" and "wf_pos f < wf_file_size f"
  shows "wf_read fs w bytes f =
    (Inr (take (buffer_len bytes f) (drop (wf_pos f) (the (content w (wf_path f))))), mapped bytes f)"
proof -
  from assms(1) obtain b where b: "reads_file fs content (wf_path f)" "content w (wf_path f) = Some b"
      "length b = wf_file_size f" "file_ok f"
    by (auto simp: readable_def)
  have "seg_start f + (wf_pos f - seg_start f) = wf_pos f" using seg_start_le[of f] by simp
  then show ?thesis using get_buffer_values_eq[OF b assms(2,3)] file_status_size(3)[OF reads_fileD[OF b(1)] b(2)] b(2)
    by (simp add: wf_read_def)
qed

interpretation wfs: file_source "wf_read fs" chunk_ok wf_is_eof "readable fs content"
    "\<lambda>w f. drop (wf_pos f) (the (content w (wf_path f)))" "\<lambda>f. wf_file_size f - wf_pos f"
  for fs :: "('p, 'w) fs_ops" and content
proof (unfold_locales, goal_cases)
  case 1
  then show ?case by (auto simp: readable_def wf_is_eof_def)
next
  case (2 w f n)
  then have lt: "wf_pos f < wf_file_size f" by (auto simp: readable_def wf_is_eof_def file_ok_def)
  have ok: "file_ok f" using 2 by (simp add: readable_def)
  have "readable fs content w (mapped n f)" using 2 file_ok_mapped[OF ok 2(2) lt] by (simp add: readable_def)
  moreover have "chunk_ok (mapped n f) n" using 2(2) by (simp add: chunk_ok_def)
  moreover have "drop (wf_pos f) b = take k (drop (wf_pos f) b) @ drop (wf_pos f + k) b" for k and b :: string
    by (metis append_take_drop_id drop_drop add.commute)
  ultimately show ?case using wf_read_eq[OF 2(1,2) lt] buffer_len_bounds[OF ok 2(2) lt] lt by auto
qed

lemma wfde_file_new_read:
  assumes "reads_file fs content path" and "content w path = Some b" and "length b < 2 ^ 64"
    and "0 < page" and "8 * page < 2 ^ 64"
  shows "\<exists>f. wfde_file_new fs page w path READ = (Inr f, w) \<and> readable fs content w f
    \<and> wf_pos f = 0 \<and> wf_path f = path \<and> wf_file_size f = length b \<and> wf_segment_size f = page"
  using assms file_status_size(1,2)[OF reads_fileD[OF assms(1)] assms(2)] file_maps(1)[OF assms(1,2)]
  by (auto simp: wfde_file_new_def wf_prepare_def wf_open_def Let_def
      map_file_def unmap_region_def file_ok_def readable_def)

text \<open>C14: reading a file to its end yields its bytes. Let the file be one that can be mapped. Then the
  loop \<open>while (!IsEof()) Read(n)\<close> on the file opened for reading terminates without error, for every page
  size below \<open>2 ^ 61\<close> and for every chunk size whose sum with the page size is below \<open>2 ^ 64\<close> (zero included,
  which asks for the default), and the buffers put together are the content of the file.\<close>
theorem read_file_complete:
  assumes "fs_lawful fs content" and "fs_maps fs content path"
    and "content w path = Some b" and "length b < 2 ^ 64"
    and "0 < page" and "8 * page < 2 ^ 64" and "n + page < 2 ^ 64"
  shows "\<exists>f. wfde_file_new fs page w path READ = (Inr f, w)
    \<and> drain (Suc (length b)) (wf_read fs) wf_is_eof w n f = Some (Inr b)"
proof -
  have "reads_file fs content path" using assms(1,2) by (simp add: reads_file_def)
  from wfde_file_new_read[OF this assms(3-6)] obtain f where
    f: "wfde_file_new fs page w path READ = (Inr f, w)" "readable fs content w f"
      "wf_pos f = 0" "wf_path f = path" "wf_file_size f = length b" "wf_segment_size f = page" by blast
  then have "drain (Suc (length b)) (wf_read fs) wf_is_eof w n f = Some (Inr b)"
    using wfs.drain_rest[of fs content w f n "Suc (length b)"] assms(3,7) by (simp add: chunk_ok_def)
  with f(1) show ?thesis by blast
qed

text \<open>Beyond that bound the sum wraps. With the largest \<open>size_t\<close> the region is one byte shorter than
  a page: after the first read the position is the end of that region, the same region is mapped
  again, the buffer is empty, and the end of the file is never reached.\<close>

lemma read_stalls:
  assumes "fs_lawful fs content" and "fs_maps fs content path"
    and "content w path = Some b" and "length b < 2 ^ 64"
    and "2 \<le> page" and "8 * page < 2 ^ 64" and "page \<le> length b"
  shows "\<exists>f. wfde_file_new fs page w path READ = (Inr f, w)
    \<and> drain fuel (wf_read fs) wf_is_eof w (2 ^ 64 - 1) f = None"
proof -
  let ?n = "2 ^ 64 - 1 :: nat"
  have r: "reads_file fs content path" using assms(1,2) by (simp add: reads_file_def)
  from wfde_file_new_read[OF r assms(3,4) _ assms(6)] assms(5) obtain f where
    f: "wfde_file_new fs page w path READ = (Inr f, w)" "readable fs content w f"
      "wf_pos f = 0" "wf_path f = path" "wf_file_size f = length b" "wf_segment_size f = page" by auto
  have u: "u64 (?n + page) = page - 1"
  proof -
    have "?n + page = (page - 1) + 2 ^ 64" using assms(5) by simp
    moreover have "page - 1 < 2 ^ 64" using assms(6) by linarith
    ultimately show ?thesis by (simp only: u64_def mod_add_self2 mod_less)
  qed
  have step: "\<exists>d g. wf_read fs w ?n f = (Inr d, g) \<and> readable fs content w g \<and> wf_pos g = page - 1
      \<and> wf_path g = path \<and> wf_file_size g = length b \<and> wf_segment_size g = page"
    if f: "readable fs content w f" "wf_pos f \<le> page - 1" "wf_path f = path" "wf_file_size f = length b"
      "wf_segment_size f = page" for f
  proof -
    have ok: "file_ok f" using f(1) by (simp add: readable_def)
    have s: "seg_start f = 0" using f(2,5) assms(5) by (simp add: seg_start_def)
    have w: "region_want ?n f = page - 1"
      using f(4,5) s u assms(5,7) region_limit_ok[OF ok] by (simp add: region_want_def)
    have l: "buffer_len ?n f = page - 1 - wf_pos f" using s w f(2) assms(6) by (simp add: buffer_len_def Let_def)
    have "get_buffer_values fs w ?n f = (Inr (wf_pos f - seg_start f, buffer_len ?n f), mapped ?n f)"
      by (rule get_buffer_values_mapped[of fs content f w b]) (use r assms(3,5) f ok s w in simp_all)
    moreover have "file_ok (mapped ?n f)" using ok l f(2,4,5) assms(5,7) by (simp add: file_ok_def)
    then have "readable fs content w (mapped ?n f)" using f by (simp add: readable_def)
    ultimately show ?thesis using f l by (simp add: wf_read_def)
  qed
  have "drain fuel (wf_read fs) wf_is_eof w ?n f = None"
    if f: "readable fs content w f" "wf_pos f \<le> page - 1" "wf_path f = path" "wf_file_size f = length b"
      "wf_segment_size f = page" for f
    using that
  proof (induction fuel arbitrary: f)
    case (Suc fuel)
    from step[OF Suc.prems] obtain d g where g: "wf_read fs w ?n f = (Inr d, g)"
      "drain fuel (wf_read fs) wf_is_eof w ?n g = None" using Suc.IH by auto
    have "\<not> wf_is_eof f" using Suc.prems(2,4) assms(5,7) by (simp add: wf_is_eof_def)
    then show ?case using g by simp
  qed simp
  from this[OF f(2) _ f(4-6)] f(1,3) show ?thesis by (intro exI[of _ f]) simp
qed

section \<open>Writing\<close>

text \<open>The padding is bounded, and there is room to enlarge the file.\<close>

definition size_bound :: "string \<Rightarrow> 'p wfde_file \<Rightarrow> bool" where
  "size_bound pre f \<longleftrightarrow> wf_file_size f \<le> length pre + 1032 * wf_segment_size f
     \<and> length pre + 4096 * wf_segment_size f < 2 ^ 64"

text \<open>\<open>pre\<close> is what the file will hold once it is closed; the rest of the disk file is padding.\<close>

definition writable ::
    "('p, 'w) fs_ops \<Rightarrow> ('w \<Rightarrow> 'p \<Rightarrow> string option) \<Rightarrow> string \<Rightarrow> 'p wfde_file \<Rightarrow> 'w \<Rightarrow> bool" where
  "writable fs content pre f w \<longleftrightarrow> writes_file fs content (wf_path f) \<and> file_ok f \<and> size_bound pre f
     \<and> wf_closed f = False \<and> wf_pos f = length pre \<and> wf_end_of_file_pos f = length pre
     \<and> (\<exists>c. content w (wf_path f) = Some c \<and> length c = wf_file_size f \<and> take (length pre) c = pre)"

text \<open>A buffer of \<open>n\<close> bytes is handed out behind \<open>pre\<close>, and the file has grown beyond it.\<close>

definition pending ::
    "('p, 'w) fs_ops \<Rightarrow> ('w \<Rightarrow> 'p \<Rightarrow> string option) \<Rightarrow> string \<Rightarrow> nat \<Rightarrow> 'p wfde_file \<Rightarrow> 'w \<Rightarrow> bool" where
  "pending fs content pre n f w \<longleftrightarrow> writes_file fs content (wf_path f) \<and> file_ok f \<and> size_bound pre f
     \<and> wf_closed f = False \<and> wf_pos f = length pre + n \<and> wf_end_of_file_pos f = length pre \<and> wf_last_buffer_len f = n
     \<and> length pre + n < wf_file_size f
     \<and> (\<exists>c. content w (wf_path f) = Some c \<and> length c = wf_file_size f \<and> take (length pre) c = pre)"

lemma buffer_len_exact:
  assumes "file_ok f" and "bytes \<noteq> 0" and "bytes \<le> 7 * wf_segment_size f"
    and "wf_pos f + bytes \<le> wf_file_size f"
  shows "buffer_len bytes f = bytes"
proof -
  have "u64 (bytes + wf_segment_size f) = bytes + wf_segment_size f"
    using assms(1,3) by (simp add: file_ok_def)
  then show ?thesis
    using assms pos_in_segment[OF assms(1)] seg_start_le[of f] region_limit_ok[OF assms(1)]
    by (auto simp: buffer_len_def Let_def region_want_def min_def)
qed

text \<open>The enlargement of the file, if it is due.\<close>

definition grown :: "nat \<Rightarrow> 'p wfde_file \<Rightarrow> nat" where
  "grown bytes f =
     (let min_file_size = u64 (wf_pos f + bytes + wf_segment_size f)
      in if min_file_size > wf_file_size f then
           max (u64 (min_file_size div wf_segment_size f * wf_segment_size f
                + (if min_file_size mod wf_segment_size f \<noteq> 0 then wf_segment_size f else 0)))
             (u64 (wf_file_size f + grow_size f))
         else wf_file_size f)"

lemma round_up_ge:
  fixes m s :: nat
  assumes "0 < s"
  shows "m \<le> m div s * s + (if m mod s \<noteq> 0 then s else 0)"
proof (cases "m mod s = 0")
  case True
  then show ?thesis using div_mult_mod_eq[of m s] by simp
next
  case False
  have "m = m div s * s + m mod s" by (rule div_mult_mod_eq[symmetric])
  also have "\<dots> \<le> m div s * s + s" using mod_less_divisor[OF assms, of m] by (intro add_left_mono) simp
  finally show ?thesis using False by simp
qed

lemma round_up_le: "(m :: nat) div s * s + (if m mod s \<noteq> 0 then s else 0) \<le> m + s"
  using div_times_less_eq_dividend[of m s] by (cases "m mod s = 0") (simp_all add: trans_le_add1)

lemma grown_eq:
  assumes "file_ok f" and "size_bound pre f" and "wf_pos f = length pre" and "bytes \<le> 7 * wf_segment_size f"
  shows "u64 (wf_pos f + bytes + wf_segment_size f) = wf_pos f + bytes + wf_segment_size f"
    and "grown bytes f =
     (let min_file_size = wf_pos f + bytes + wf_segment_size f
      in if min_file_size > wf_file_size f then
           max (min_file_size div wf_segment_size f * wf_segment_size f
                + (if min_file_size mod wf_segment_size f \<noteq> 0 then wf_segment_size f else 0))
             (wf_file_size f + 1024 * wf_segment_size f)
         else wf_file_size f)"
proof -
  let ?s = "wf_segment_size f" and ?m = "wf_pos f + bytes + wf_segment_size f"
  have b: "length pre + 4096 * ?s < 2 ^ 64" "wf_file_size f \<le> length pre + 1032 * ?s"
    using assms(2) by (simp_all add: size_bound_def)
  show m: "u64 ?m = ?m" by (rule u64_id) (use b(1) assms(3,4) in linarith)
  have "grow_size f = 1024 * ?s"
    unfolding grow_size_def region_limit_ok[OF assms(1)] using b(1) by simp
  moreover have "u64 (wf_file_size f + 1024 * ?s) = wf_file_size f + 1024 * ?s"
    by (rule u64_id) (use b in linarith)
  moreover have "u64 (?m div ?s * ?s + (if ?m mod ?s \<noteq> 0 then ?s else 0)) = ?m div ?s * ?s + (if ?m mod ?s \<noteq> 0 then ?s else 0)"
    by (rule u64_id) (use round_up_le[of ?m ?s] b(1) assms(3,4) in linarith)
  ultimately show "grown bytes f =
     (let min_file_size = ?m
      in if min_file_size > wf_file_size f then
           max (min_file_size div ?s * ?s + (if min_file_size mod ?s \<noteq> 0 then ?s else 0))
             (wf_file_size f + 1024 * ?s)
         else wf_file_size f)" unfolding grown_def m Let_def by presburger
qed

lemma grown_bounds:
  assumes "file_ok f" and "size_bound pre f" and "wf_pos f = length pre" and "bytes \<le> 7 * wf_segment_size f"
  shows "wf_file_size f \<le> grown bytes f" and "wf_pos f + bytes + wf_segment_size f \<le> grown bytes f"
    and "grown bytes f \<le> length pre + 1032 * wf_segment_size f"
proof -
  let ?s = "wf_segment_size f" and ?m = "wf_pos f + bytes + wf_segment_size f"
  let ?r = "?m div ?s * ?s + (if ?m mod ?s \<noteq> 0 then ?s else 0)"
  have s: "0 < ?s" using assms(1) by (simp add: file_ok_def)
  have r: "?m \<le> ?r" "?r \<le> ?m + ?s" by (rule round_up_ge[OF s], rule round_up_le)
  have b: "wf_file_size f \<le> length pre + 1032 * ?s" using assms(2) by (simp add: size_bound_def)
  have g: "grown bytes f = (if ?m > wf_file_size f then max ?r (wf_file_size f + 1024 * ?s) else wf_file_size f)"
    unfolding grown_eq(2)[OF assms] Let_def ..
  show "wf_file_size f \<le> grown bytes f" "?m \<le> grown bytes f" unfolding g using r(1) by auto
  show "grown bytes f \<le> length pre + 1032 * ?s"
  proof (cases "?m > wf_file_size f")
    case True
    then have "grown bytes f = max ?r (wf_file_size f + 1024 * ?s)" by (simp add: g)
    moreover have "?r \<le> length pre + 1032 * ?s" using r(2) assms(3,4) by linarith
    moreover have "wf_file_size f + 1024 * ?s \<le> length pre + 1032 * ?s" using True assms(3,4) by linarith
    ultimately show ?thesis by simp
  qed (simp add: g b)
qed

lemma wf_write_unfold:
  assumes "n = (if bytes = 0 then wf_segment_size f else bytes)"
    and "u64 (wf_pos f + n + wf_segment_size f) = wf_pos f + n + wf_segment_size f"
  shows "wf_write fs bytes (f, w) = bindS
      (if wf_pos f + n + wf_segment_size f > wf_file_size f then
         (case fs_resize_file fs w (wf_path f) (grown n f) of
            (Inl e, w) \<Rightarrow> (Inl e, f, w)
          | (Inr _, w) \<Rightarrow> (Inr (), f\<lparr>wf_file_size := grown n f\<rparr>, w))
       else (Inr (), f, w))
      (\<lambda>_ (f, w).
         (case get_buffer_values fs w n f of
            (Inl e, f) \<Rightarrow> (Inl e, f, w)
          | (Inr (offset, len), f) \<Rightarrow> (Inr len, f, w)))"
proof (cases "wf_pos f + n + wf_segment_size f > wf_file_size f")
  case True
  then have g: "grown n f = max (u64 ((wf_pos f + n + wf_segment_size f) div wf_segment_size f * wf_segment_size f
      + (if (wf_pos f + n + wf_segment_size f) mod wf_segment_size f \<noteq> 0 then wf_segment_size f else 0)))
      (u64 (wf_file_size f + grow_size f))" by (simp only: grown_def assms(2) Let_def if_True)
  show ?thesis unfolding g using True by (simp only: wf_write_def Let_def assms(1)[symmetric] assms(2) prod.case if_True)
next
  case False
  then show ?thesis by (simp only: wf_write_def Let_def assms(1)[symmetric] assms(2) prod.case if_False)
qed

lemma wf_write_pending:
  assumes "writable fs content pre f w" and "n = (if bytes = 0 then wf_segment_size f else bytes)"
    and "n \<le> 7 * wf_segment_size f"
  shows "\<exists>f' w'. wf_write fs bytes (f, w) = (Inr n, f', w') \<and> pending fs content pre n f' w'
    \<and> wf_path f' = wf_path f \<and> wf_segment_size f' = wf_segment_size f \<and> wf_do_truncate f' = wf_do_truncate f"
proof -
  from assms(1) obtain c where law: "writes_file fs content (wf_path f)" and ok: "file_ok f"
    and sb: "size_bound pre f"
    and c: "content w (wf_path f) = Some c" "length c = wf_file_size f" "take (length pre) c = pre"
    and p: "wf_pos f = length pre" "wf_end_of_file_pos f = length pre" "wf_closed f = False"
    by (auto simp: writable_def)
  have n: "0 < n" using assms(2) ok by (auto simp: file_ok_def)
  let ?g = "grown n f"
  let ?f1 = "f\<lparr>wf_file_size := ?g\<rparr>"
  note gb = grown_bounds[OF ok sb p(1) assms(3)] and ge = grown_eq[OF ok sb p(1) assms(3)]
  have sb1: "size_bound pre ?f1" using sb gb(3) by (simp add: size_bound_def)
  have ok1: "file_ok ?f1" using ok gb(1) sb1 by (simp add: file_ok_def size_bound_def)
  from file_resize[OF law c(1), of ?g] obtain w' where
    w': "fs_resize_file fs w (wf_path f) ?g = (Inr (), w')"
      "content w' (wf_path f) = Some (take ?g c @ replicate (?g - length c) nul)" .
  define w1 where "w1 = (if wf_pos f + n + wf_segment_size f > wf_file_size f then w' else w)"
  have g: "wf_pos f + n + wf_segment_size f \<le> wf_file_size f \<Longrightarrow> ?g = wf_file_size f"
    by (simp add: ge(2))
  have le: "length pre \<le> length c" using c(2,3) p ok by (auto simp: file_ok_def)
  have "\<exists>c1. content w1 (wf_path f) = Some c1 \<and> length c1 = ?g \<and> take (length pre) c1 = pre"
    using c gb g le w'(2) by (auto simp: w1_def)
  then obtain c1 where c1: "content w1 (wf_path f) = Some c1" "length c1 = ?g" "take (length pre) c1 = pre" by blast
  have lt: "wf_pos ?f1 < wf_file_size ?f1" using gb n by simp
  have buf: "buffer_len n ?f1 = n" using buffer_len_exact[OF ok1, of n] n assms(3) gb by simp
  have ch: "chunk_ok ?f1 n" using assms(3) ok by (simp add: chunk_ok_def file_ok_def)
  have "get_buffer_values fs w1 n ?f1 = (Inr (wf_pos ?f1 - seg_start ?f1, n), mapped n ?f1)"
    using get_buffer_values_eq[of fs content ?f1 w1 c1 n] writes_fileD[OF law] c1 ok1 ch lt buf by simp
  moreover have "(if wf_pos f + n + wf_segment_size f > wf_file_size f then
        (case fs_resize_file fs w (wf_path f) ?g of
           (Inl e, w) \<Rightarrow> (Inl e, f, w) | (Inr _, w) \<Rightarrow> (Inr (), ?f1, w))
      else (Inr (), f, w)) = (Inr (), ?f1, w1)"
    using w'(1) g by (auto simp: w1_def)
  ultimately have "wf_write fs bytes (f, w) = (Inr n, mapped n ?f1, w1)"
    by (simp add: wf_write_unfold[OF assms(2) ge(1)])
  moreover have "pending fs content pre n (mapped n ?f1) w1"
    using law file_ok_mapped[OF ok1 ch lt] p buf gb ok c1 sb1 by (auto simp: pending_def file_ok_def size_bound_def)
  ultimately show ?thesis by auto
qed

lemma wf_fill_set_writable:
  assumes "pending fs content pre n f w" and "length d \<le> n"
    and "length pre + length d + 4096 * wf_segment_size f < 2 ^ 64" and "fw = wf_fill fs d (f, w)"
  shows "writable fs content (pre @ d) (wf_set_bytes_written (length d) (fst fw)) (snd fw)
    \<and> wf_path (wf_set_bytes_written (length d) (fst fw)) = wf_path f
    \<and> wf_segment_size (wf_set_bytes_written (length d) (fst fw)) = wf_segment_size f
    \<and> wf_do_truncate (wf_set_bytes_written (length d) (fst fw)) = (wf_do_truncate f \<or> length d < n)
    \<and> length pre + n < wf_file_size (wf_set_bytes_written (length d) (fst fw))"
proof -
  from assms(1) obtain c where law: "writes_file fs content (wf_path f)" and ok: "file_ok f"
    and sb: "size_bound pre f"
    and c: "content w (wf_path f) = Some c" "length c = wf_file_size f" "take (length pre) c = pre"
    and p: "wf_pos f = length pre + n" "wf_end_of_file_pos f = length pre" "wf_last_buffer_len f = n"
      "wf_closed f = False" "length pre + n < wf_file_size f"
    by (auto simp: pending_def)
  have fw: "fw = (f, fs_write_bytes fs w (wf_path f) (length pre) d)"
    using assms(4) p by (simp add: wf_fill_def)
  have "content (snd fw) (wf_path f) = Some (take (length pre) c @ d @ drop (length pre + length d) c)"
    using file_status_size(4)[OF reads_fileD[OF writes_fileD[OF law]] c(1)] c(2) p(5) assms(2) by (simp add: fw)
  then have c': "content (snd fw) (wf_path f) = Some (pre @ d @ drop (length pre + length d) c)"
    using c(3) by simp
  have "u64_sub (wf_pos f) (n - length d) = length pre + length d" using p(1) assms(2) by simp
  then show ?thesis using law ok p assms(2,3) c(2) c' sb
    by (auto simp: writable_def wf_set_bytes_written_def Let_def fw file_ok_def size_bound_def)
qed

lemma unmap_file_simps [simp]:
  "wf_path (unmap_file f) = wf_path f" "wf_file_size (unmap_file f) = wf_file_size f"
  "wf_end_of_file_pos (unmap_file f) = wf_end_of_file_pos f"
  "wf_do_truncate (unmap_file f) = wf_do_truncate f"
  by (simp_all add: unmap_file_def unmap_region_def)

lemma wf_close_writable:
  assumes "writable fs content pre f w" and "wf_do_truncate f"
  shows "\<exists>f' w'. wf_close fs (f, w) = (Inr (), f', w') \<and> content w' (wf_path f) = Some pre"
proof -
  from assms(1) obtain c where law: "writes_file fs content (wf_path f)" and ok: "file_ok f"
    and c: "content w (wf_path f) = Some c" "length c = wf_file_size f" "take (length pre) c = pre"
    and p: "wf_end_of_file_pos f = length pre" "wf_closed f = False" "wf_pos f = length pre"
    by (auto simp: writable_def)
  have "fs_is_regular_file fs w (wf_path f) = Inr True"
    using file_status_size(1)[OF reads_fileD[OF writes_fileD[OF law]] c(1)] by (simp add: fs_is_regular_file_def)
  moreover have "content (snd (fs_resize_file fs w (wf_path f) (length pre))) (wf_path f) = Some pre"
  proof -
    from file_resize[OF law c(1), of "length pre"] obtain w' where
      "fs_resize_file fs w (wf_path f) (length pre) = (Inr (), w')"
      "content w' (wf_path f) = Some (take (length pre) c @ replicate (length pre - length c) nul)" .
    moreover have "length pre \<le> length c" using c(2) ok p by (simp add: file_ok_def)
    ultimately show ?thesis using c(3) by simp
  qed
  moreover have "wf_file_size f \<le> length pre \<Longrightarrow> c = pre" using c by simp
  ultimately show ?thesis using assms(2) c(1) p
    by (cases "wf_file_size f > length pre") (simp_all add: wf_close_def Let_def)
qed

lemma receive_chunks_writable:
  assumes "writable fs content pre f w" and "list_all (\<lambda>d. length d \<le> wf_segment_size f) ds"
    and "length pre + length (concat ds) + 4096 * wf_segment_size f < 2 ^ 64"
  shows "\<exists>f' w'. receive_chunks (wfde_file_ops fs) ds (f, w) = (Inr (), f', w')
    \<and> content w' (wf_path f) = Some (pre @ concat ds)"
  using assms
proof (induction ds arbitrary: pre f w)
  case Nil
  from wf_write_pending[OF Nil.prems(1), of "wf_segment_size f" 0] obtain f1 w1 where
    w1: "wf_write fs 0 (f, w) = (Inr (wf_segment_size f), f1, w1)"
    and pend: "pending fs content pre (wf_segment_size f) f1 w1" and path: "wf_path f1 = wf_path f" by auto
  have "writable fs content pre (wf_set_bytes_written 0 f1) w1 \<and> wf_do_truncate (wf_set_bytes_written 0 f1)"
  proof -
    from pend obtain c where "content w1 (wf_path f1) = Some c" by (auto simp: pending_def)
    have "0 < wf_segment_size f" using Nil.prems(1) by (simp add: writable_def file_ok_def)
    then show ?thesis using pend
      by (auto simp: pending_def writable_def wf_set_bytes_written_def file_ok_def size_bound_def Let_def)
  qed
  from wf_close_writable[OF conjunct1[OF this] conjunct2[OF this]] show ?case
    using w1 path by (auto simp: wfde_file_ops_def wf_set_bytes_written_def Let_def split: if_splits)
next
  case (Cons d ds)
  from wf_write_pending[OF Cons.prems(1), of "wf_segment_size f" 0] obtain f1 w1 where
    w1: "wf_write fs 0 (f, w) = (Inr (wf_segment_size f), f1, w1)"
    and pend: "pending fs content pre (wf_segment_size f) f1 w1"
    and f1: "wf_path f1 = wf_path f" "wf_segment_size f1 = wf_segment_size f" by auto
  define fw where "fw = wf_fill fs d (f1, w1)"
  have d: "length d \<le> wf_segment_size f" using Cons.prems(2) by simp
  have "length pre + length d + 4096 * wf_segment_size f1 < 2 ^ 64" using Cons.prems(3) f1(2) by simp
  note set = wf_fill_set_writable[OF pend d this fw_def]
  let ?f2 = "wf_set_bytes_written (length d) (fst fw)"
  have w2: "writable fs content (pre @ d) ?f2 (snd fw)" "wf_path ?f2 = wf_path f"
    "wf_segment_size ?f2 = wf_segment_size f"
    using set f1 by simp_all
  have "list_all (\<lambda>d. length d \<le> wf_segment_size ?f2) ds"
    "length (pre @ d) + length (concat ds) + 4096 * wf_segment_size ?f2 < 2 ^ 64"
    using Cons.prems(2,3) w2(3) by simp_all
  from Cons.IH[OF w2(1) this] obtain f' w' where
    "receive_chunks (wfde_file_ops fs) ds (?f2, snd fw) = (Inr (), f', w')"
    "content w' (wf_path f) = Some ((pre @ d) @ concat ds)"
    unfolding w2(2) by blast
  then show ?case using w1 by (auto simp: wfde_file_ops_def fw_def wf_fill_def)
qed

lemma wf_open_Inr:
  assumes "fs_file_size fs w path = Some n" and "fs_map_file fs w path rw = Inr ()"
  shows "\<exists>f. wf_open fs page w path operation rw = Inr f
    \<and> wf_pos f = (if operation = APPEND then n else 0) \<and> wf_path f = path
    \<and> wf_file_size f = n \<and> wf_end_of_file_pos f = n \<and> wf_segment_size f = page
    \<and> \<not> wf_closed f \<and> \<not> wf_do_truncate f"
  using assms
  by (cases "operation = APPEND") (simp_all add: wf_open_def map_file_def unmap_region_def wf_seek_def)

text \<open>What an upload starts from: the old content, or a missing file that can be created.\<close>

definition can_store :: "('p, 'w) fs_ops \<Rightarrow> ('w \<Rightarrow> 'p \<Rightarrow> string option) \<Rightarrow> 'w \<Rightarrow> 'p \<Rightarrow> string \<Rightarrow> bool" where
  "can_store fs content w p b \<longleftrightarrow> content w p = Some b
     \<or> fs_status fs w p = Inr File_not_found \<and> content (fs_touch fs w p) p = Some [] \<and> b = []"

lemma wfde_file_new_writable:
  assumes "writes_file fs content path" and "0 < page" and "operation \<noteq> READ"
    and "can_store fs content w path b"
    and "operation = WRITE_NEW \<Longrightarrow> fs_status fs w path = Inr File_not_found"
    and "length b + 4096 * page < 2 ^ 64"
  shows "\<exists>f w1. wfde_file_new fs page w path operation = (Inr f, w1)
    \<and> writable fs content (if operation = APPEND then b else []) f w1
    \<and> wf_path f = path \<and> wf_segment_size f = page \<and> \<not> wf_do_truncate f"
proof -
  define old where "old = (if operation = APPEND then b else [])"
  note law = reads_fileD[OF writes_fileD[OF assms(1)]]
  have "\<exists>w1. wf_prepare fs w path operation = (Inr True, w1) \<and> content w1 path = Some old"
  proof (cases "fs_status fs w path = Inr File_not_found")
    case True
    then have "content w path \<noteq> Some b" using file_status_size(1)[OF law] by fastforce
    then have "b = []" "content (fs_touch fs w path) path = Some []" using assms(4) by (auto simp: can_store_def)
    then show ?thesis using True assms(3) by (simp add: wf_prepare_def Let_def old_def)
  next
    case False
    then have b: "content w path = Some b" using assms(4) by (simp add: can_store_def)
    note st = file_status_size(1)[OF law b]
    show ?thesis
    proof (cases "operation = APPEND")
      case True
      then show ?thesis using b st by (simp add: wf_prepare_def Let_def old_def)
    next
      case app: False
      obtain w1 where "fs_resize_file fs w path 0 = (Inr (), w1)"
        "content w1 path = Some (take 0 b @ replicate (0 - length b) nul)"
        by (rule file_resize[OF assms(1) b])
      then show ?thesis using st app False assms(3,5) by (auto simp: wf_prepare_def Let_def old_def)
    qed
  qed
  then obtain w1 where prep: "wf_prepare fs w path operation = (Inr True, w1)" and old: "content w1 path = Some old"
    by blast
  note sz = file_status_size(2)[OF law old] and mf = file_maps(1)[OF writes_fileD[OF assms(1)] old, of True]
  from wf_open_Inr[OF sz mf, of page operation] obtain f where
    "wf_open fs page w1 path operation True = Inr f" "wf_path f = path"
    "wf_pos f = (if operation = APPEND then length old else 0)"
    "wf_file_size f = length old" "wf_end_of_file_pos f = length old"
    "wf_segment_size f = page" "\<not> wf_closed f" "\<not> wf_do_truncate f" by blast
  moreover have "length old + 4096 * page < 2 ^ 64" using assms(6) by (simp add: old_def)
  ultimately show ?thesis using assms(1,2) old prep
    by (intro exI[of _ f] exI[of _ w1])
       (simp add: wfde_file_new_def writable_def file_ok_def size_bound_def old_def)
qed

text \<open>C13: an upload stores exactly the received bytes. Let the file exist, or be missing and possible to
  create, and let it be possible to map and to resize it. For every page size and every sequence of
  chunks that fit the buffers (with a total that a
  64-bit size can hold, the 4096 pages included by which the file may grow), creating the file object,
  receiving the chunks and closing it succeeds, and the file then holds the chunks one after the other: after
  the old content for \<open>APPEND\<close>, alone for \<open>WRITE\<close> and for a new file. The padding by which the
  file grows while it is written is gone.\<close>
theorem upload_complete:
  assumes "fs_lawful fs content" and "fs_maps fs content path" and "fs_resizes fs content path"
    and "0 < page" and "operation \<noteq> READ"
    and "content w path = Some b \<and> operation \<noteq> WRITE_NEW
      \<or> fs_status fs w path = Inr File_not_found \<and> content (fs_touch fs w path) path = Some [] \<and> b = []"
    and "list_all (\<lambda>d. length d \<le> page) ds"
    and "length b + length (concat ds) + 4096 * page < 2 ^ 64"
  shows "\<exists>f w1 f' w'. wfde_file_new fs page w path operation = (Inr f, w1)
    \<and> receive_chunks (wfde_file_ops fs) ds (f, w1) = (Inr (), f', w')
    \<and> content w' path = Some ((if operation = APPEND then b else []) @ concat ds)"
proof -
  have w: "writes_file fs content path" using assms(1-3) by (simp add: writes_file_def reads_file_def)
  have "can_store fs content w path b" "operation = WRITE_NEW \<Longrightarrow> fs_status fs w path = Inr File_not_found"
    "length b + 4096 * page < 2 ^ 64" using assms(6,8) by (auto simp: can_store_def)
  from wfde_file_new_writable[OF w assms(4,5) this] obtain f w1 where
    f: "wfde_file_new fs page w path operation = (Inr f, w1)"
       "writable fs content (if operation = APPEND then b else []) f w1" "wf_path f = path"
    and seg: "wf_segment_size f = page" by blast
  have "list_all (\<lambda>d. length d \<le> wf_segment_size f) ds"
    "length (if operation = APPEND then b else []) + length (concat ds) + 4096 * wf_segment_size f < 2 ^ 64"
    using assms(7,8) seg by auto
  from receive_chunks_writable[OF f(2) this] f(1,3) show ?thesis by auto
qed

text \<open>When every buffer was filled to the brim, closing does not cut the file. A file that is
  closed (as an aborted upload does) after one full buffer keeps the padding: it holds the data
  followed by at least one byte that was never received.\<close>
theorem full_buffer_not_truncated:
  assumes "fs_lawful fs content" and "fs_maps fs content path" and "fs_resizes fs content path"
    and "0 < page" and "fs_status fs w path = Inr File_not_found" and "content (fs_touch fs w path) path = Some []"
    and "length d = page" and "5000 * page < 2 ^ 64"
  shows "\<exists>f w1 f1 w2 f2 w3 pad. wfde_file_new fs page w path WRITE = (Inr f, w1)
    \<and> wf_write fs 0 (f, w1) = (Inr page, f1, w2)
    \<and> wf_close fs (wf_set_bytes_written page (fst (wf_fill fs d (f1, w2))), snd (wf_fill fs d (f1, w2)))
        = (Inr (), f2, w3)
    \<and> content w3 path = Some (d @ pad) \<and> pad \<noteq> []"
proof -
  have w: "writes_file fs content path" using assms(1-3) by (simp add: writes_file_def reads_file_def)
  have "can_store fs content w path []" "length ([] :: string) + 4096 * page < 2 ^ 64"
    using assms(5,6,8) by (simp_all add: can_store_def)
  from wfde_file_new_writable[OF w assms(4), of WRITE w "[]"] this obtain f w1 where
    f: "wfde_file_new fs page w path WRITE = (Inr f, w1)" "writable fs content [] f w1" "wf_path f = path"
       "wf_segment_size f = page" "\<not> wf_do_truncate f" by auto
  from wf_write_pending[OF f(2), of page 0] f(4) obtain f1 w2 where
    w2: "wf_write fs 0 (f, w1) = (Inr page, f1, w2)" "pending fs content [] page f1 w2"
      "wf_path f1 = path" "wf_do_truncate f1 = wf_do_truncate f" "wf_segment_size f1 = page" using f(3) by auto
  define g where "g = wf_set_bytes_written page (fst (wf_fill fs d (f1, w2)))"
  define w3 where "w3 = snd (wf_fill fs d (f1, w2))"
  have set: "writable fs content d g w3" "wf_path g = path" "\<not> wf_do_truncate g" "page < wf_file_size g"
    using wf_fill_set_writable[OF w2(2) _ _ refl, of d] w2(3,4,5) f(5) assms(7,8) by (auto simp: g_def w3_def)
  then obtain c where c: "content w3 path = Some c" "length c = wf_file_size g" "take (length d) c = d"
    by (auto simp: writable_def)
  have "wf_close fs (g, w3) = (Inr (), unmap_file (g\<lparr>wf_closed := False\<rparr>), w3)"
    using set(1,3) by (simp add: wf_close_def writable_def)
  moreover have "c = d @ drop (length d) c" using c(3) append_take_drop_id by metis
  moreover have "drop (length d) c \<noteq> []" using c(2) set(4) assms(7) by simp
  ultimately show ?thesis using f(1) w2(1) c(1) unfolding g_def w3_def by metis
qed

section \<open>The witnesses\<close>

definition demo_content :: "demo_disk \<Rightarrow> demo_path \<Rightarrow> string option" where
  "demo_content w p = (case map_of w p of Some (Reg b) \<Rightarrow> Some b | _ \<Rightarrow> None)"

lemma demo_content_iff: "demo_content w p = Some b \<longleftrightarrow> map_of w p = Some (Reg b)"
  by (auto simp: demo_content_def split: option.splits node.splits)

lemma demo_status_not_found: "demo_status w p = File_not_found \<longleftrightarrow> map_of w p = None"
  by (auto simp: demo_status_def split: option.splits node.splits)

lemma demo_lawful: "fs_lawful demo_fs demo_content" "fs_maps demo_fs demo_content p" "fs_resizes demo_fs demo_content p"
  unfolding fs_lawful_def fs_maps_def fs_resizes_def
  by (intro conjI allI impI)
     (auto simp: demo_content_iff demo_status_not_found demo_fs_def demo_size_def demo_resize_def
        demo_touch_def demo_map_region_def demo_write_bytes_def demo_bytes_def Let_def demo_status_def
        split: option.splits node.splits)

theorem read_file_complete_witness:
  "\<exists>f. wfde_file_new demo_fs 4 [([''f''], Reg ''hello world'')] [''f''] READ = (Inr f, [([''f''], Reg ''hello world'')])
    \<and> drain 12 (wf_read demo_fs) wf_is_eof [([''f''], Reg ''hello world'')] 3 f = Some (Inr ''hello world'')"
proof -
  have c: "demo_content [([''f''], Reg ''hello world'')] [''f''] = Some ''hello world''" by (simp add: demo_content_def)
  have n: "Suc (length ''hello world'') = 12" by simp
  have "length ''hello world'' < 2 ^ 64" "(0 :: nat) < 4" "(8 :: nat) * 4 < 2 ^ 64" "(3 :: nat) + 4 < 2 ^ 64" by simp_all
  from read_file_complete[OF demo_lawful(1,2), OF c this] show ?thesis unfolding n .
qed

theorem upload_complete_witness:
  "\<exists>f w1 f' w'. wfde_file_new demo_fs 4 [([''f''], Reg ''old'')] [''f''] APPEND = (Inr f, w1)
    \<and> receive_chunks (wfde_file_ops demo_fs) [''new'', ''er''] (f, w1) = (Inr (), f', w')
    \<and> demo_content w' [''f''] = Some ''oldnewer''"
  using upload_complete[OF demo_lawful(1,2,3), where path = "[''f'']" and page = 4 and operation = APPEND and w = "[([''f''], Reg ''old'')]" and b = "''old''"
      and ds = "[''new'', ''er'']"]
  by (simp add: demo_content_def)

theorem full_buffer_not_truncated_witness:
  "\<exists>f w1 f1 w2 f2 w3 pad. wfde_file_new demo_fs 4 [] [''f''] WRITE = (Inr f, w1)
    \<and> wf_write demo_fs 0 (f, w1) = (Inr 4, f1, w2)
    \<and> wf_close demo_fs (wf_set_bytes_written 4 (fst (wf_fill demo_fs ''data'' (f1, w2))),
         snd (wf_fill demo_fs ''data'' (f1, w2))) = (Inr (), f2, w3)
    \<and> demo_content w3 [''f''] = Some (''data'' @ pad) \<and> pad \<noteq> []"
  by (rule full_buffer_not_truncated[OF demo_lawful(1,2,3)]) (simp_all add: demo_defs demo_content_def)

end
