(* ===== verification/WfdeAsciiFile.thy ===== *)
theory WfdeAsciiFile
  imports WfdeFile
begin

text \<open>
  The wrapper for text transfers, \<open>src/wfde/WfdeAsciiFile.{h,cpp}\<close>: it owns another file
  (any implementation of the interface) and a string buffer. Reading turns every LF into CR LF and
  drops every CR; writing drops every CR and turns every LF into the line end of the system.
\<close>

record 'f ascii_file =
  af_file :: 'f
  af_buffer :: string

definition ascii_file_new :: "'f \<Rightarrow> 'f ascii_file" where
  "ascii_file_new file = \<lparr>af_file = file, af_buffer = []\<rparr>"

text \<open>The loop of \<open>Read\<close> over the buffer, and the loop of \<open>SetBytesWritten\<close>.\<close>

fun to_network :: "string \<Rightarrow> string" where
  "to_network [] = []"
| "to_network (c # s) =
     (if c = cr then to_network s
      else if c = lf then crlf @ to_network s
      else c # to_network s)"

fun to_local :: "string \<Rightarrow> string \<Rightarrow> string" where
  "to_local local_eol [] = []"
| "to_local local_eol (c # s) =
     (if c = cr then to_local local_eol s
      else if c = lf then local_eol @ to_local local_eol s
      else c # to_local local_eol s)"

definition af_read ::
    "('w \<Rightarrow> nat \<Rightarrow> 'f \<Rightarrow> (exn + string) \<times> 'f) \<Rightarrow> 'w \<Rightarrow> nat \<Rightarrow> 'f ascii_file \<Rightarrow> (exn + string) \<times> 'f ascii_file" where
  "af_read read w bytes a =
     (case read w bytes (af_file a) of
        (Inl e, f) \<Rightarrow> (Inl e, a\<lparr>af_file := f\<rparr>)
      | (Inr buffer, f) \<Rightarrow>
          (Inr (to_network buffer), a\<lparr>af_file := f, af_buffer := to_network buffer\<rparr>))"

definition af_write ::
    "('f, 'w) file_ops \<Rightarrow> nat \<Rightarrow> 'f ascii_file \<times> 'w \<Rightarrow> (exn + nat) \<times> 'f ascii_file \<times> 'w" where
  "af_write ops bytes aw =
     (let (a, w) = aw;
          seg = fo_get_segment_size ops (af_file a);
          len = min (if bytes \<noteq> 0 then bytes else seg) (seg div 2)
      in (Inr len, a\<lparr>af_buffer := replicate len nul\<rparr>, w))"

definition af_fill :: "string \<Rightarrow> 'f ascii_file \<times> 'w \<Rightarrow> 'f ascii_file \<times> 'w" where
  "af_fill data aw =
     (let (a, w) = aw in (a\<lparr>af_buffer := data @ drop (length data) (af_buffer a)\<rparr>, w))"

definition af_set_bytes_written ::
    "('f, 'w) file_ops \<Rightarrow> string \<Rightarrow> nat \<Rightarrow> 'f ascii_file \<times> 'w \<Rightarrow> (exn + unit) \<times> 'f ascii_file \<times> 'w" where
  "af_set_bytes_written ops local_eol bytes aw =
     (let (a, w) = aw
      in (case fo_write ops (bytes * 2) (af_file a, w) of
            (Inl e, f, w) \<Rightarrow> (Inl e, a\<lparr>af_file := f\<rparr>, w)
          | (Inr _, f, w) \<Rightarrow>
              let out = to_local local_eol (take bytes (af_buffer a));
                  (f, w) = fo_fill ops out (f, w)
              in (case fo_set_bytes_written ops (length out) (f, w) of
                    (r, f, w) \<Rightarrow> (r, a\<lparr>af_file := f\<rparr>, w))))"

definition af_lift_close ::
    "('f, 'w) file_ops \<Rightarrow> 'f ascii_file \<times> 'w \<Rightarrow> (exn + unit) \<times> 'f ascii_file \<times> 'w" where
  "af_lift_close ops aw =
     (let (a, w) = aw
      in (case fo_close ops (af_file a, w) of (r, f, w) \<Rightarrow> (r, a\<lparr>af_file := f\<rparr>, w)))"

definition af_seek :: "('f, 'w) file_ops \<Rightarrow> nat \<Rightarrow> 'f ascii_file \<Rightarrow> (exn + unit) \<times> 'f ascii_file" where
  "af_seek ops pos a = (case fo_seek ops pos (af_file a) of (r, f) \<Rightarrow> (r, a\<lparr>af_file := f\<rparr>))"

definition ascii_file_ops :: "('f, 'w) file_ops \<Rightarrow> string \<Rightarrow> ('f ascii_file, 'w) file_ops" where
  "ascii_file_ops ops local_eol =
     \<lparr>fo_read = af_read (fo_read ops), fo_write = af_write ops, fo_fill = af_fill,
      fo_set_bytes_written = af_set_bytes_written ops local_eol,
      fo_seek = af_seek ops,
      fo_get_pos = (\<lambda>a. fo_get_pos ops (af_file a)),
      fo_get_size = (\<lambda>a. fo_get_size ops (af_file a)),
      fo_is_eof = (\<lambda>a. fo_is_eof ops (af_file a)),
      fo_close = af_lift_close ops,
      fo_get_operation = (\<lambda>a. fo_get_operation ops (af_file a)),
      fo_get_segment_size = (\<lambda>a. fo_get_segment_size ops (af_file a))\<rparr>"

section \<open>The conversions\<close>

lemma to_network_append [simp]: "to_network (s @ t) = to_network s @ to_network t"
  by (induction s) auto

lemma to_local_append [simp]: "to_local eol (s @ t) = to_local eol s @ to_local eol t"
  by (induction s) auto

lemma to_network_idem: "to_network (to_network s) = to_network s"
  by (induction s) auto

lemma to_local_network: "to_local eol (to_network s) = to_local eol s"
  by (induction s) auto

lemma to_local_lf: "to_local [lf] s = filter (\<lambda>c. c \<noteq> cr) s"
  by (induction s) auto

lemma to_local_length: "length (to_local [lf] s) \<le> length s"
  by (simp add: to_local_lf)

lemma to_network_length: "length (to_network s) \<le> 2 * length s"
  by (induction s) auto

lemma to_network_crlf:
  "to_network s = to_network t \<longleftrightarrow> filter (\<lambda>c. c \<noteq> cr) s = filter (\<lambda>c. c \<noteq> cr) t"
proof
  assume "to_network s = to_network t"
  then have "to_local [lf] (to_network s) = to_local [lf] (to_network t)" by simp
  then show "filter (\<lambda>c. c \<noteq> cr) s = filter (\<lambda>c. c \<noteq> cr) t" by (simp only: to_local_network to_local_lf)
next
  have "to_network (filter (\<lambda>c. c \<noteq> cr) u) = to_network u" for u by (induction u) auto
  then show "filter (\<lambda>c. c \<noteq> cr) s = filter (\<lambda>c. c \<noteq> cr) t \<Longrightarrow> to_network s = to_network t" by metis
qed

text \<open>C37: text conversion round trip. What is sent in text mode and stored again on a Unix system
  is the file without its carriage returns; converting twice changes nothing more; and the buffers
  are large enough: sending at most doubles the data and storing never lengthens it.\<close>
theorem ascii_roundtrip:
  "to_local [lf] (to_network s) = filter (\<lambda>c. c \<noteq> cr) s
   \<and> to_network (to_network s) = to_network s
   \<and> to_network (to_local [lf] s) = to_network s
   \<and> length (to_network s) \<le> 2 * length s \<and> length (to_local [lf] s) \<le> length s"
  using to_network_crlf[of "filter (\<lambda>c. c \<noteq> cr) s" s]
  by (simp add: to_local_network to_local_lf to_network_idem to_network_length)

section \<open>Reading through the wrapper\<close>

lemma af_read_step:
  assumes "read w n (af_file a) = (Inr d, f')"
  shows "af_read read w n a = (Inr (to_network d), a\<lparr>af_file := f', af_buffer := to_network d\<rparr>)"
  using assms by (simp add: af_read_def)

interpretation afs: file_source "af_read (wf_read fs)" "\<lambda>a. chunk_ok (af_file a)" "\<lambda>a. wf_is_eof (af_file a)"
    "\<lambda>w a. readable fs content w (af_file a)"
    "\<lambda>w a. to_network (drop (wf_pos (af_file a)) (the (content w (wf_path (af_file a)))))"
    "\<lambda>a. wf_file_size (af_file a) - wf_pos (af_file a)"
  for fs :: "('p, 'w) fs_ops" and content
proof (unfold_locales, goal_cases)
  case (1 w a)
  then show ?case using wfs.eof_rest[of fs content w "af_file a"] by simp
next
  case (2 w a n)
  from wfs.read_step[OF 2] obtain d f' where
    "wf_read fs w n (af_file a) = (Inr d, f')" "readable fs content w f'" "chunk_ok f' n"
    "drop (wf_pos (af_file a)) (the (content w (wf_path (af_file a)))) = d @ drop (wf_pos f') (the (content w (wf_path f')))"
    "wf_file_size f' - wf_pos f' < wf_file_size (af_file a) - wf_pos (af_file a)"
    by blast
  then show ?case using af_read_step[of "wf_read fs" w n a d f'] by simp
qed

text \<open>C29: a download in text mode does not depend on the buffers. Reading a file that can be mapped
  through the text wrapper to its end terminates without error and yields the conversion of the whole
  file, for every page size below
  \<open>2 ^ 61\<close> and every chunk size whose sum with the page size is below \<open>2 ^ 64\<close>: no
  line end is lost or doubled at a buffer boundary.\<close>
theorem ascii_read_complete:
  assumes "fs_lawful fs content" and "fs_maps fs content path"
    and "content w path = Some b" and "length b < 2 ^ 64"
    and "0 < page" and "8 * page < 2 ^ 64" and "n + page < 2 ^ 64"
  shows "\<exists>f. wfde_file_new fs page w path READ = (Inr f, w)
    \<and> drain (Suc (length b)) (af_read (wf_read fs)) (\<lambda>a. wf_is_eof (af_file a)) w n (ascii_file_new f)
        = Some (Inr (to_network b))"
proof -
  have "reads_file fs content path" using assms(1,2) by (simp add: reads_file_def)
  from wfde_file_new_read[OF this assms(3-6)] obtain f where
    f: "wfde_file_new fs page w path READ = (Inr f, w)" "readable fs content w f"
      "wf_pos f = 0" "wf_path f = path" "wf_file_size f = length b" "wf_segment_size f = page" by blast
  then have "drain (Suc (length b)) (af_read (wf_read fs)) (\<lambda>a. wf_is_eof (af_file a)) w n (ascii_file_new f)
      = Some (Inr (to_network b))"
    using afs.drain_rest[of fs content w "ascii_file_new f" n "Suc (length b)"] assms(3,7)
    by (simp add: ascii_file_new_def chunk_ok_def)
  with f(1) show ?thesis by blast
qed

theorem ascii_read_complete_witness:
  "\<exists>f. wfde_file_new demo_fs 4 [([''f''], Reg (''a'' @ [lf] @ ''bcd'' @ crlf))] [''f''] READ
        = (Inr f, [([''f''], Reg (''a'' @ [lf] @ ''bcd'' @ crlf))])
    \<and> drain 8 (af_read (wf_read demo_fs)) (\<lambda>a. wf_is_eof (af_file a))
        [([''f''], Reg (''a'' @ [lf] @ ''bcd'' @ crlf))] 2 (ascii_file_new f)
      = Some (Inr (''a'' @ crlf @ ''bcd'' @ crlf))"
proof -
  let ?b = "''a'' @ [lf] @ ''bcd'' @ crlf"
  have c: "demo_content [([''f''], Reg ?b)] [''f''] = Some ?b" by (simp add: demo_content_def)
  have n: "Suc (length ?b) = 8" and t: "to_network ?b = ''a'' @ crlf @ ''bcd'' @ crlf" by simp_all
  have "length ?b < 2 ^ 64" "(0 :: nat) < 4" "(8 :: nat) * 4 < 2 ^ 64" "(2 :: nat) + 4 < 2 ^ 64" by simp_all
  from ascii_read_complete[OF demo_lawful(1,2), OF c this] show ?thesis unfolding n t .
qed

section \<open>Writing through the wrapper\<close>

lemma ascii_set_step:
  assumes "writable fs content pre (af_file a) w" and "length d \<le> wf_segment_size (af_file a) div 2"
    and "length d \<le> length (af_buffer a)" and "take (length d) (af_buffer a) = d"
    and "length pre + length d + 4096 * wf_segment_size (af_file a) < 2 ^ 64"
  shows "\<exists>a' w'. af_set_bytes_written (wfde_file_ops fs) [lf] (length d) (a, w) = (Inr (), a', w')
    \<and> writable fs content (pre @ to_local [lf] d) (af_file a') w'
    \<and> wf_path (af_file a') = wf_path (af_file a)
    \<and> wf_segment_size (af_file a') = wf_segment_size (af_file a)
    \<and> (d = [] \<longrightarrow> wf_do_truncate (af_file a'))"
proof -
  define n where "n = (if length d * 2 = 0 then wf_segment_size (af_file a) else length d * 2)"
  have seg: "0 < wf_segment_size (af_file a)" using assms(1) by (simp add: writable_def file_ok_def)
  have n: "n \<le> 7 * wf_segment_size (af_file a)" "length (to_local [lf] d) \<le> n" "d = [] \<Longrightarrow> 0 < n"
    using assms(2) to_local_length[of d] seg by (auto simp: n_def)
  from wf_write_pending[OF assms(1) n_def n(1)] obtain f1 w1 where
    w1: "wf_write fs (length d * 2) (af_file a, w) = (Inr n, f1, w1)"
      "pending fs content pre n f1 w1" "wf_path f1 = wf_path (af_file a)"
      "wf_segment_size f1 = wf_segment_size (af_file a)" by blast
  let ?fw = "wf_fill fs (to_local [lf] d) (f1, w1)"
  let ?f2 = "wf_set_bytes_written (length (to_local [lf] d)) (fst ?fw)"
  have "af_set_bytes_written (wfde_file_ops fs) [lf] (length d) (a, w)
      = (Inr (), a\<lparr>af_file := ?f2\<rparr>, snd ?fw)"
    using w1(1) assms(4) by (simp add: af_set_bytes_written_def wfde_file_ops_def Let_def wf_fill_def)
  moreover have "length pre + length (to_local [lf] d) + 4096 * wf_segment_size f1 < 2 ^ 64"
    using assms(5) to_local_length[of d] w1(4) by linarith
  note wf_fill_set_writable[OF w1(2) n(2) this refl]
  ultimately show ?thesis using w1(3,4) n(3) by auto
qed

lemma wfde_file_ops_simps [simp]:
  "fo_get_segment_size (wfde_file_ops fs) = wf_segment_size"
  "fo_close (wfde_file_ops fs) = wf_close fs"
  by (simp_all add: wfde_file_ops_def)

lemma min_half [simp]: "min (n :: nat) (n div 2) = n div 2"
  by simp

lemma ascii_receive:
  assumes "writable fs content pre (af_file a) w"
    and "list_all (\<lambda>d. length d \<le> wf_segment_size (af_file a) div 2) ds"
    and "length pre + length (concat ds) + 4096 * wf_segment_size (af_file a) < 2 ^ 64"
  shows "\<exists>a' w'. receive_chunks (ascii_file_ops (wfde_file_ops fs) [lf]) ds (a, w) = (Inr (), a', w')
    \<and> content w' (wf_path (af_file a)) = Some (pre @ to_local [lf] (concat ds))"
  using assms
proof (induction ds arbitrary: pre a w)
  case Nil
  let ?a = "a\<lparr>af_buffer := replicate (wf_segment_size (af_file a) div 2) nul\<rparr>"
  from ascii_set_step[of fs content pre ?a w "[]"] Nil.prems(1,3) obtain a' w' where
    s: "af_set_bytes_written (wfde_file_ops fs) [lf] 0 (?a, w) = (Inr (), a', w')"
      "writable fs content pre (af_file a') w'" "wf_path (af_file a') = wf_path (af_file a)"
      "wf_do_truncate (af_file a')" by auto
  from wf_close_writable[OF s(2,4)] s(1,3) show ?case
    by (auto simp: ascii_file_ops_def af_write_def af_lift_close_def Let_def)
next
  case (Cons d ds)
  let ?n = "wf_segment_size (af_file a) div 2"
  let ?a = "a\<lparr>af_buffer := d @ drop (length d) (replicate ?n nul)\<rparr>"
  from ascii_set_step[of fs content pre ?a w d] Cons.prems obtain a' w' where
    s: "af_set_bytes_written (wfde_file_ops fs) [lf] (length d) (?a, w) = (Inr (), a', w')"
      "writable fs content (pre @ to_local [lf] d) (af_file a') w'"
      "wf_path (af_file a') = wf_path (af_file a)"
      "wf_segment_size (af_file a') = wf_segment_size (af_file a)" by auto
  have "list_all (\<lambda>d. length d \<le> wf_segment_size (af_file a') div 2) ds"
    "length (pre @ to_local [lf] d) + length (concat ds) + 4096 * wf_segment_size (af_file a') < 2 ^ 64"
    using Cons.prems(2,3) s(4) to_local_length[of d] by simp_all
  from Cons.IH[OF s(2) this] s(1,3) show ?case
    by (auto simp: ascii_file_ops_def af_write_def af_fill_def Let_def)
qed

text \<open>C30: an upload in text mode stores the converted text. Let the file exist, or be missing and
  possible to create, and let it be possible to map and to resize it. For every page size and every sequence
  of chunks that fit the buffers of the wrapper (half a page, with a total that a
  64-bit size can hold, the 4096 pages included by which the file may grow), receiving them in text mode into a
  new or a truncated file or behind an existing one and closing it leaves the conversion of the
  whole received text, wherever the chunks were cut.\<close>
theorem ascii_upload_complete:
  assumes "fs_lawful fs content" and "fs_maps fs content path" and "fs_resizes fs content path"
    and "0 < page" and "operation \<noteq> READ"
    and "content w path = Some b \<and> operation \<noteq> WRITE_NEW
      \<or> fs_status fs w path = Inr File_not_found \<and> content (fs_touch fs w path) path = Some [] \<and> b = []"
    and "list_all (\<lambda>d. length d \<le> page div 2) ds"
    and "length b + length (concat ds) + 4096 * page < 2 ^ 64"
  shows "\<exists>f w1 a' w'. wfde_file_new fs page w path operation = (Inr f, w1)
    \<and> receive_chunks (ascii_file_ops (wfde_file_ops fs) [lf]) ds (ascii_file_new f, w1) = (Inr (), a', w')
    \<and> content w' path = Some ((if operation = APPEND then b else []) @ to_local [lf] (concat ds))"
proof -
  have w: "writes_file fs content path" using assms(1-3) by (simp add: writes_file_def reads_file_def)
  have "can_store fs content w path b" "operation = WRITE_NEW \<Longrightarrow> fs_status fs w path = Inr File_not_found"
    "length b + 4096 * page < 2 ^ 64" using assms(6,8) by (auto simp: can_store_def)
  from wfde_file_new_writable[OF w assms(4,5) this] obtain f w1 where
    f: "wfde_file_new fs page w path operation = (Inr f, w1)"
      "writable fs content (if operation = APPEND then b else []) f w1" "wf_path f = path"
    and seg: "wf_segment_size f = page" by blast
  have "writable fs content (if operation = APPEND then b else []) (af_file (ascii_file_new f)) w1"
    using f(2) by (simp add: ascii_file_new_def)
  moreover have "list_all (\<lambda>d. length d \<le> wf_segment_size (af_file (ascii_file_new f)) div 2) ds"
    "length (if operation = APPEND then b else []) + length (concat ds)
      + 4096 * wf_segment_size (af_file (ascii_file_new f)) < 2 ^ 64"
    using assms(7,8) seg by (auto simp: ascii_file_new_def)
  ultimately show ?thesis using ascii_receive[of fs content _ "ascii_file_new f" w1 ds] f(1,3)
    by (auto simp: ascii_file_new_def)
qed

theorem ascii_upload_complete_witness:
  "\<exists>f w1 a' w'. wfde_file_new demo_fs 8 [] [''f''] WRITE_NEW = (Inr f, w1)
    \<and> receive_chunks (ascii_file_ops (wfde_file_ops demo_fs) [lf]) [[CHR ''a'', cr], [lf, CHR ''b'']]
        (ascii_file_new f, w1) = (Inr (), a', w')
    \<and> demo_content w' [''f''] = Some [CHR ''a'', lf, CHR ''b'']"
  using ascii_upload_complete[OF demo_lawful(1,2,3), where path = "[''f'']" and page = 8 and operation = WRITE_NEW
      and w = "[]" and b = "[]" and ds = "[[CHR ''a'', cr], [lf, CHR ''b'']]"]
  by (simp add: demo_fs_def demo_status_def demo_touch_def demo_content_def)

end
