(* ===== verification/FtpInput.thy ===== *)
theory FtpInput
  imports Prelude
begin

text \<open>
  The input side of the control connection: \<open>WfdeFtpSessionInput\<close> of
  \<open>src/wfde/ftp/WfdeFtpSession.{h,cpp}\<close>. Pointers into the buffer are offsets. The connection is the
  list of the segments that arrive; when none is left, reading throws, as it does when the peer
  has closed the connection. An access outside of the buffer is the result \<open>Undefined_access\<close>.
\<close>

section \<open>State\<close>

definition input_cap :: nat where
  "input_cap = 1024 * 16"

text \<open>The bytes of the buffer, and the offset of \<open>current_buffer_\<close>.\<close>

record ftp_input =
  in_buffer :: string
  in_current :: nat
  in_leftover :: nat

definition ftp_input_new :: "string \<Rightarrow> ftp_input" where
  "ftp_input_new garbage = \<lparr>in_buffer = garbage, in_current = 0, in_leftover = 0\<rparr>"

datatype fetch_result = Request string | Throws exn | Undefined_access

section \<open>Reading\<close>

text \<open>\<open>ReadSome\<close>: at most \<open>n\<close> bytes of the next segment; the rest of it stays.\<close>

fun read_some :: "nat \<Rightarrow> string list \<Rightarrow> (exn + string) \<times> string list" where
  "read_some n [] = (Inl ExceptionLibrary, [])"
| "read_some n (s # segs) = (if length s \<le> n then (Inr s, segs) else (Inr (take n s), drop n s # segs))"

text \<open>
  The second half of the loop body: look for the end of the command in what was received.
  \<open>None\<close> is \<open>continue\<close>.
\<close>

definition scan_input :: "nat \<Rightarrow> ftp_input \<Rightarrow> fetch_result option \<times> ftp_input" where
  "scan_input bytes_read inp =
     (let prev_bytes_read = in_current inp;
          cmd_buffer = take (bytes_read + prev_bytes_read) (in_buffer inp);
          request = takeWhile (\<lambda>c. c \<noteq> cr \<and> c \<noteq> lf) cmd_buffer
      in if length request = length cmd_buffer then
           (if bytes_read + prev_bytes_read \<ge> input_cap - 1 then (Some (Throws InputTooBigException), inp)
            else (None, inp\<lparr>in_current := in_current inp + bytes_read\<rparr>))
         else
           let leftover = u64_sub (u64_sub (length cmd_buffer) (length request)) 2
           in (Some (Request request),
               if leftover > 0
               then inp\<lparr>in_leftover := leftover, in_current := length request + 2\<rparr>
               else inp\<lparr>in_leftover := leftover\<rparr>))"

lemma read_some_measure:
  assumes "read_some n segs = (Inr s, segs')" and "s \<noteq> []"
  shows "sum_list (map (\<lambda>x. Suc (length x)) segs') < sum_list (map (\<lambda>x. Suc (length x)) segs)"
  using assms by (cases segs) (auto split: if_splits)

text \<open>The loop after the first pass: read, then look. It ends because every pass uses up input.\<close>

function fetch_loop :: "ftp_input \<Rightarrow> string list \<Rightarrow> fetch_result \<times> ftp_input \<times> string list" where
  "fetch_loop inp segs =
     (case read_some (input_cap - in_current inp) segs of
        (Inl e, segs) \<Rightarrow> (Throws e, inp, segs)
      | (Inr s, segs) \<Rightarrow>
          if s = [] then (Throws NoInputException, inp, segs)
          else (case scan_input (length s) (inp\<lparr>in_buffer := buf_put (in_buffer inp) (in_current inp) s\<rparr>) of
                  (Some r, inp) \<Rightarrow> (r, inp, segs)
                | (None, inp) \<Rightarrow> fetch_loop inp segs))"
  by pat_completeness auto
termination
  by (relation "measure (\<lambda>(inp, segs). sum_list (map (\<lambda>x. Suc (length x)) segs))")
     (auto dest!: read_some_measure[OF sym])

declare fetch_loop.simps [simp del]

text \<open>
  \<open>FetchNextCommand\<close>. Input that is left over is moved to the front and looked at before
  anything is read. The move reads \<open>leftover\<close> bytes from \<open>current_buffer_\<close> on.
\<close>

definition fetch_next_command :: "ftp_input \<Rightarrow> string list \<Rightarrow> fetch_result \<times> ftp_input \<times> string list" where
  "fetch_next_command inp segs =
     (if in_leftover inp \<noteq> 0 then
        (if in_current inp + in_leftover inp > input_cap then (Undefined_access, inp, segs)
         else
           let moved = take (in_leftover inp) (drop (in_current inp) (in_buffer inp));
               inp = inp\<lparr>in_buffer := buf_put (in_buffer inp) 0 moved, in_current := in_leftover inp\<rparr>
           in (case scan_input 0 inp of
                 (Some r, inp) \<Rightarrow> (r, inp, segs)
               | (None, inp) \<Rightarrow> fetch_loop inp segs))
      else fetch_loop (inp\<lparr>in_current := 0\<rparr>) segs)"

section \<open>The bytes in hand\<close>

definition input_ok :: "ftp_input \<Rightarrow> bool" where
  "input_ok inp \<longleftrightarrow> length (in_buffer inp) = input_cap
     \<and> (in_leftover inp \<noteq> 0 \<longrightarrow> in_current inp + in_leftover inp \<le> input_cap)"

text \<open>What was received but not yet used.\<close>

definition in_hand :: "ftp_input \<Rightarrow> string" where
  "in_hand inp = (if in_leftover inp = 0 then []
                  else take (in_leftover inp) (drop (in_current inp) (in_buffer inp)))"

abbreviation no_eol :: "string \<Rightarrow> bool" where
  "no_eol s \<equiv> cr \<notin> set s \<and> lf \<notin> set s"

lemma takeWhile_line:
  assumes "no_eol line" and "c = cr \<or> c = lf"
  shows "takeWhile (\<lambda>x. x \<noteq> cr \<and> x \<noteq> lf) (line @ c # ys) = line"
proof -
  have "takeWhile (\<lambda>x. x \<noteq> cr \<and> x \<noteq> lf) (c # ys) = []" using assms(2) by auto
  moreover have "\<forall>x \<in> set line. x \<noteq> cr \<and> x \<noteq> lf" using assms(1) by auto
  ultimately show ?thesis by (simp add: takeWhile_append2)
qed

lemma takeWhile_no_eol: "no_eol s \<Longrightarrow> takeWhile (\<lambda>x. x \<noteq> cr \<and> x \<noteq> lf) s = s"
  by (rule takeWhile_eq_all_conv[THEN iffD2]) auto

lemma scan_found:
  assumes "take (n + in_current inp) (in_buffer inp) = line @ c # ys" and "no_eol line" and "c = cr \<or> c = lf"
  shows "scan_input n inp = (Some (Request line),
    if u64_sub (Suc (length ys)) 2 > 0
    then inp\<lparr>in_leftover := u64_sub (Suc (length ys)) 2, in_current := length line + 2\<rparr>
    else inp\<lparr>in_leftover := 0\<rparr>)"
  using takeWhile_line[OF assms(2,3), of ys] assms(1) by (simp add: scan_input_def Let_def del: length_take)

lemma scan_none:
  assumes "no_eol (take (n + in_current inp) (in_buffer inp))"
  shows "scan_input n inp =
    (if n + in_current inp \<ge> input_cap - 1 then (Some (Throws InputTooBigException), inp)
     else (None, inp\<lparr>in_current := in_current inp + n\<rparr>))"
  unfolding scan_input_def Let_def takeWhile_no_eol[OF assms] by simp

text \<open>One pass of the loop that reads a whole segment.\<close>

abbreviation received :: "ftp_input \<Rightarrow> string" where
  "received inp \<equiv> take (in_current inp) (in_buffer inp)"

lemma fetch_loop_read:
  assumes "length (in_buffer inp) = input_cap" and "in_current inp \<le> input_cap" and "s \<noteq> []"
    and d: "d = take (input_cap - in_current inp) s" "d \<noteq> []"
  shows "fetch_loop inp (s # segs) =
    (let segs' = (if length s \<le> input_cap - in_current inp then segs else drop (input_cap - in_current inp) s # segs);
         inp' = inp\<lparr>in_buffer := buf_put (in_buffer inp) (in_current inp) d\<rparr>
     in (case scan_input (length d) inp' of
           (Some r, inp) \<Rightarrow> (r, inp, segs')
         | (None, inp) \<Rightarrow> fetch_loop inp segs'))"
    and "take (length d + in_current inp) (buf_put (in_buffer inp) (in_current inp) d) = received inp @ d"
    and "length (buf_put (in_buffer inp) (in_current inp) d) = input_cap"
proof -
  have len: "in_current inp + length d \<le> input_cap" using assms(1,2) d(1) by simp
  show "take (length d + in_current inp) (buf_put (in_buffer inp) (in_current inp) d) = received inp @ d"
    using buf_put_take[of "in_current inp" d "in_buffer inp"] len assms(1) by (simp add: add.commute)
  show "length (buf_put (in_buffer inp) (in_current inp) d) = input_cap"
    using length_buf_put[of "in_current inp" d "in_buffer inp"] len assms(1) by simp
  show "fetch_loop inp (s # segs) =
    (let segs' = (if length s \<le> input_cap - in_current inp then segs else drop (input_cap - in_current inp) s # segs);
         inp' = inp\<lparr>in_buffer := buf_put (in_buffer inp) (in_current inp) d\<rparr>
     in (case scan_input (length d) inp' of
           (Some r, inp) \<Rightarrow> (r, inp, segs')
         | (None, inp) \<Rightarrow> fetch_loop inp segs'))"
    using d by (subst fetch_loop.simps) (auto simp: Let_def)
qed

text \<open>A segment that does not yet reach the end of the line.\<close>

lemma fetch_loop_more:
  assumes "length (in_buffer inp) = input_cap" and "s \<noteq> []"
    and "no_eol (received inp @ s)" and "in_current inp + length s < input_cap - 1"
  shows "fetch_loop inp (s # segs) =
    fetch_loop (inp\<lparr>in_buffer := buf_put (in_buffer inp) (in_current inp) s,
                    in_current := in_current inp + length s\<rparr>) segs"
proof -
  let ?i = "inp\<lparr>in_buffer := buf_put (in_buffer inp) (in_current inp) s\<rparr>"
  have c: "in_current inp \<le> input_cap" and t: "s = take (input_cap - in_current inp) s"
    and l: "length s \<le> input_cap - in_current inp" using assms(4) by auto
  note r = fetch_loop_read[OF assms(1) c assms(2) t assms(2)]
  have "scan_input (length s) ?i = (None, ?i\<lparr>in_current := in_current inp + length s\<rparr>)"
    using scan_none[of "length s" ?i] r(2) assms(3,4) by (simp add: add.commute)
  then show ?thesis using r(1) l by (simp add: Let_def)
qed

lemma fetch_loop_line:
  assumes "length (in_buffer inp) = input_cap" and "received inp @ concat pre = line @ crlf @ rest"
    and "no_eol line" and "length line + 2 \<le> input_cap" and "pre \<noteq> []" and "[] \<notin> set pre"
    and "in_current inp + length (concat (butlast pre)) \<le> length line"
  shows "\<exists>inp' segs'. fetch_loop inp (pre @ post) = (Request line, inp', segs') \<and> input_ok inp'
    \<and> in_hand inp' @ concat segs' = rest @ concat post
    \<and> (in_current inp + length (concat pre) \<le> input_cap \<longrightarrow> in_hand inp' = rest \<and> segs' = post)"
  using assms
proof (induction pre arbitrary: inp)
  case (Cons s pre)
  have c: "in_current inp \<le> input_cap" using Cons.prems by simp
  have s: "s \<noteq> []" using Cons.prems by auto
  show ?case
  proof (cases "pre = []")
    case True
    let ?n = "input_cap - in_current inp"
    let ?d = "take ?n s"
    let ?i = "inp\<lparr>in_buffer := buf_put (in_buffer inp) (in_current inp) ?d\<rparr>"
    let ?rest = "take (input_cap - length line - 2) rest"
    have d: "?d \<noteq> []" using Cons.prems(4,7) s True by simp
    note r = fetch_loop_read[OF Cons.prems(1) c s refl d]
    have all: "received inp @ s = line @ crlf @ rest" using Cons.prems(2) True by simp
    have "length (received inp) = in_current inp" using Cons.prems(1) c by simp
    then have "take input_cap (received inp @ s) = received inp @ ?d" using c by simp
    moreover have "take input_cap (line @ crlf @ rest) = line @ cr # lf # ?rest"
      using Cons.prems(4) by (simp add: take_Cons')
    ultimately have got: "received inp @ ?d = line @ cr # lf # ?rest" using all by simp
    then have "take (length ?d + in_current ?i) (in_buffer ?i) = line @ cr # (lf # ?rest)"
      using r(2) by simp
    note f = scan_found[OF this Cons.prems(3)]
    have left: "s = ?d @ (if length s \<le> ?n then [] else drop ?n s)" by simp
    have "?rest @ (if length s \<le> ?n then [] else drop ?n s) = rest"
    proof -
      have "line @ cr # lf # rest = (received inp @ ?d) @ (if length s \<le> ?n then [] else drop ?n s)"
        using all left by simp
      then show ?thesis unfolding got by simp
    qed
    then have rest: "?rest @ concat (if length s \<le> ?n then post else drop ?n s # post) = rest @ concat post"
      by (cases "length s \<le> ?n") (simp_all del: take_all_iff add: append_assoc[symmetric])
    let ?i' = "if length ?rest > 0 then ?i\<lparr>in_leftover := length ?rest, in_current := length line + 2\<rparr>
        else ?i\<lparr>in_leftover := 0\<rparr>"
    have fetch: "fetch_loop inp ((s # pre) @ post) =
        (Request line, ?i', if length s \<le> ?n then post else drop ?n s # post)"
      using r(1)[of post] f True by (simp add: Let_def)
    have "length line + 2 + length ?rest \<le> length (in_buffer ?i)"
      using r(3) Cons.prems(4) by simp
    then have ok: "input_ok ?i'" using r(3) by (auto simp: input_ok_def)
    have pend: "in_hand ?i' = ?rest"
    proof (cases "?rest = []")
      case False
      have "take (length line + 2 + length ?rest) (in_buffer ?i) = line @ cr # lf # ?rest"
      proof -
        have "length (received inp @ ?d) = length (line @ cr # lf # ?rest)" using got by simp
        then have "length line + 2 + length ?rest = length ?d + in_current inp"
          using Cons.prems(1) c by simp
        then show ?thesis using r(2) got by simp
      qed
      then have "take (length ?rest) (drop (length line + 2) (in_buffer ?i)) = ?rest"
        by (simp add: take_drop add.commute)
      then show ?thesis using False by (simp add: in_hand_def)
    qed (auto simp: in_hand_def)
    have whole: "?rest = rest \<and> (if length s \<le> ?n then post else drop ?n s # post) = post"
      if "in_current inp + length (concat (s # pre)) \<le> input_cap"
    proof -
      have "length (received inp @ s) = length (line @ crlf @ rest)" using all by simp
      then have "length line + 2 + length rest = in_current inp + length s" using Cons.prems(1) c by simp
      then show ?thesis using that True by simp
    qed
    have "in_hand ?i' @ concat (if length s \<le> ?n then post else drop ?n s # post) = rest @ concat post"
      unfolding pend by (rule rest)
    moreover have "in_current inp + length (concat (s # pre)) \<le> input_cap \<longrightarrow>
        in_hand ?i' = rest \<and> (if length s \<le> ?n then post else drop ?n s # post) = post"
      unfolding pend by (intro impI) (rule whole)
    ultimately show ?thesis by (intro exI conjI) (rule fetch ok | assumption)+
  next
    case False
    let ?i = "inp\<lparr>in_buffer := buf_put (in_buffer inp) (in_current inp) s, in_current := in_current inp + length s\<rparr>"
    have le: "in_current inp + length s \<le> length line" using Cons.prems(7) False by simp
    have rl: "length (received inp @ s) = in_current inp + length s" using Cons.prems(1) c by simp
    have "prefix (received inp @ s) line"
      using Cons.prems(2) le rl by (intro append_prefix[of _ "concat pre" line "crlf @ rest"]) auto
    then have "no_eol (received inp @ s)" using Cons.prems(3) set_mono_prefix by blast
    then have *: "fetch_loop inp (s # pre @ post) = fetch_loop ?i (pre @ post)"
      using le Cons.prems(4) s by (intro fetch_loop_more[OF Cons.prems(1)]) auto
    have len: "in_current inp + length s \<le> length (in_buffer inp)" using le Cons.prems(1,4) by simp
    have "received ?i = received inp @ s" using buf_put_take[OF len] by simp
    then have "\<exists>inp' segs'. fetch_loop ?i (pre @ post) = (Request line, inp', segs') \<and> input_ok inp'
        \<and> in_hand inp' @ concat segs' = rest @ concat post
        \<and> (in_current ?i + length (concat pre) \<le> input_cap \<longrightarrow> in_hand inp' = rest \<and> segs' = post)"
      using Cons.prems False length_buf_put[OF len] by (intro Cons.IH) auto
    then show ?thesis using * by (simp add: add.assoc)
  qed
qed simp

text \<open>The same when a line end is cut: its first byte is the last one of a segment.\<close>

lemma fetch_loop_cut:
  assumes "length (in_buffer inp) = input_cap" and "received inp @ concat pre = line @ [c]"
    and "no_eol line" and "c = cr \<or> c = lf" and "length line + 2 \<le> input_cap"
    and "pre \<noteq> []" and "[] \<notin> set pre" and "in_current inp < length line + 1"
  shows "\<exists>inp'. fetch_loop inp (pre @ post) = (Request line, inp', post) \<and> in_leftover inp' = 2 ^ 64 - 1"
  using assms
proof (induction pre arbitrary: inp)
  case (Cons s pre)
  have c: "in_current inp \<le> input_cap" using Cons.prems by simp
  have s: "s \<noteq> []" using Cons.prems by auto
  have rl: "length (received inp) = in_current inp" using Cons.prems(1) c by simp
  have "length (received inp @ s @ concat pre) = length line + 1" using Cons.prems(2) by simp
  then have sum: "in_current inp + length s + length (concat pre) = length line + 1" using rl by simp
  show ?case
  proof (cases "pre = []")
    case True
    let ?i = "inp\<lparr>in_buffer := buf_put (in_buffer inp) (in_current inp) s\<rparr>"
    have l: "length s \<le> input_cap - in_current inp" using sum True Cons.prems(5) by simp
    have d: "s = take (input_cap - in_current inp) s" using l by simp
    note r = fetch_loop_read[OF Cons.prems(1) c s d s]
    have "take (length s + in_current ?i) (in_buffer ?i) = line @ c # []"
      using r(2) Cons.prems(2) True by simp
    note f = scan_found[OF this Cons.prems(3,4)]
    have "u64_sub (Suc 0) 2 = 2 ^ 64 - 1" by (simp add: u64_sub_def)
    then show ?thesis using r(1)[of post] f l True by (simp add: Let_def)
  next
    case False
    let ?i = "inp\<lparr>in_buffer := buf_put (in_buffer inp) (in_current inp) s, in_current := in_current inp + length s\<rparr>"
    have "concat pre \<noteq> []" using False Cons.prems(7) by (cases pre) auto
    then have le: "in_current inp + length s \<le> length line" using sum by (cases "concat pre") auto
    have "prefix (received inp @ s) line"
      using Cons.prems(2) le rl by (intro append_prefix[of _ "concat pre" line "[c]"]) auto
    then have "no_eol (received inp @ s)" using Cons.prems(3) set_mono_prefix by blast
    moreover have "in_current inp + length s < input_cap - 1" using le Cons.prems(5) by simp
    ultimately have *: "fetch_loop inp (s # pre @ post) = fetch_loop ?i (pre @ post)"
      using s by (intro fetch_loop_more[OF Cons.prems(1)]) auto
    have len: "in_current inp + length s \<le> length (in_buffer inp)" using le Cons.prems(1,5) by simp
    have "received ?i = received inp @ s" using buf_put_take[OF len] by simp
    then have "\<exists>inp'. fetch_loop ?i (pre @ post) = (Request line, inp', post) \<and> in_leftover inp' = 2 ^ 64 - 1"
      using Cons.prems False le length_buf_put[OF len] by (intro Cons.IH) auto
    then show ?thesis using * by simp
  qed
qed simp

section \<open>Properties\<close>

text \<open>Moving the input that is left over to the front.\<close>

definition moved_front :: "ftp_input \<Rightarrow> ftp_input" where
  "moved_front inp =
     inp\<lparr>in_buffer := buf_put (in_buffer inp) 0 (in_hand inp), in_current := in_leftover inp\<rparr>"

lemma fetch_moved:
  assumes "input_ok inp" and "in_leftover inp \<noteq> 0"
  shows "fetch_next_command inp segs =
      (case scan_input 0 (moved_front inp) of
         (Some r, inp) \<Rightarrow> (r, inp, segs)
       | (None, inp) \<Rightarrow> fetch_loop inp segs)"
    and "length (in_buffer (moved_front inp)) = input_cap"
    and "received (moved_front inp) = in_hand inp"
    and "in_current (moved_front inp) = length (in_hand inp)"
proof -
  have len: "length (in_hand inp) = in_leftover inp" and le: "in_leftover inp \<le> input_cap"
    using assms by (auto simp: input_ok_def in_hand_def)
  show "fetch_next_command inp segs =
      (case scan_input 0 (moved_front inp) of
         (Some r, inp) \<Rightarrow> (r, inp, segs)
       | (None, inp) \<Rightarrow> fetch_loop inp segs)"
    using assms by (simp add: fetch_next_command_def moved_front_def in_hand_def input_ok_def Let_def)
  show "length (in_buffer (moved_front inp)) = input_cap"
    using assms le len length_buf_put[of 0 "in_hand inp" "in_buffer inp"]
    by (simp add: moved_front_def input_ok_def)
  show "received (moved_front inp) = in_hand inp"
    using len by (simp add: moved_front_def buf_put_def)
  show "in_current (moved_front inp) = length (in_hand inp)" using len by (simp add: moved_front_def)
qed

lemma fetch_fresh:
  assumes "input_ok inp" and "in_leftover inp = 0"
  shows "fetch_next_command inp segs = fetch_loop (inp\<lparr>in_current := 0\<rparr>) segs" and "in_hand inp = []"
  using assms by (simp_all add: fetch_next_command_def in_hand_def)

lemma scan_moved_none:
  assumes "input_ok inp" and "in_leftover inp \<noteq> 0" and "no_eol (in_hand inp)"
    and "length (in_hand inp) < input_cap - 1"
  shows "fetch_next_command inp segs = fetch_loop (moved_front inp) segs"
proof -
  have "scan_input 0 (moved_front inp) = (None, moved_front inp)"
    using scan_none[of 0 "moved_front inp"] fetch_moved(3,4)[OF assms(1,2)] assms(3,4) by simp
  then show ?thesis using fetch_moved(1)[OF assms(1,2)] by simp
qed

lemma fetch_line_at:
  assumes "input_ok inp" and "in_hand inp @ concat pre = line @ crlf @ rest" and "no_eol line"
    and "length line + 2 \<le> input_cap" and "[] \<notin> set pre"
    and "pre = [] \<or> length (in_hand inp @ concat (butlast pre)) \<le> length line"
  shows "\<exists>inp' segs'. fetch_next_command inp (pre @ post) = (Request line, inp', segs') \<and> input_ok inp'
    \<and> in_hand inp' @ concat segs' = rest @ concat post
    \<and> (length (in_hand inp @ concat pre) \<le> input_cap \<longrightarrow> in_hand inp' = rest \<and> segs' = post)"
proof (cases "in_leftover inp = 0")
  case True
  note f = fetch_fresh[OF assms(1) True]
  have "pre \<noteq> []" using assms(2) f(2) by auto
  then show ?thesis unfolding f(1)
    using assms f(2) fetch_loop_line[of "inp\<lparr>in_current := 0\<rparr>" pre line rest post]
    by (simp add: input_ok_def)
next
  case False
  note m = fetch_moved[OF assms(1) False]
  show ?thesis
  proof (cases "pre = []")
    case True
    then have p: "in_hand inp = line @ cr # lf # rest" using assms(2) by simp
    let ?m = "moved_front inp"
    have got: "take (0 + in_current ?m) (in_buffer ?m) = line @ cr # (lf # rest)" using m(3) p by simp
    note f = scan_found[OF got assms(3)]
    let ?i = "if length rest > 0 then ?m\<lparr>in_leftover := length rest, in_current := length line + 2\<rparr>
        else ?m\<lparr>in_leftover := 0\<rparr>"
    have "fetch_next_command inp (pre @ post) = (Request line, ?i, post)"
      using m(1) f True by simp
    moreover have len: "in_current ?m = length line + 2 + length rest" using m(4) p by simp
    then have "length line + 2 + length rest \<le> input_cap"
      using m(2) arg_cong[OF m(3), of length] p by simp
    then have "input_ok ?i" using m(2) by (auto simp: input_ok_def)
    moreover have "take (length rest) (drop (length line + 2) (in_buffer ?m)) = rest"
      using got len by (simp add: take_drop add.commute)
    then have "in_hand ?i = rest" by (auto simp: in_hand_def)
    ultimately show ?thesis using True by auto
  next
    case pre: False
    then have le: "length (in_hand inp) + length (concat (butlast pre)) \<le> length line" using assms(6) by simp
    then have "prefix (in_hand inp) line"
      using assms(2) by (intro append_prefix[of _ "concat pre" line "crlf @ rest"]) auto
    then have "no_eol (in_hand inp)" using assms(3) set_mono_prefix by blast
    then have "fetch_next_command inp (pre @ post) = fetch_loop (moved_front inp) (pre @ post)"
      using le assms(4) by (intro scan_moved_none[OF assms(1) False]) auto
    moreover have "length (in_hand inp @ concat pre) = length (in_hand inp) + length (concat pre)" by simp
    ultimately show ?thesis using fetch_loop_line[OF m(2), of pre line rest post] assms(2-5) m(3,4) pre le
      by (simp del: append_assoc length_append)
  qed
qed

text \<open>C31: commands are cut out of the input in order. When the bytes in hand and the segments that
  arrive next spell a line, CR LF and more, the line fits the buffer, and CR and LF arrive
  together, then the next fetch returns exactly that line, and what remains in hand and to be read
  is exactly what follows it.\<close>
theorem fetch_line:
  assumes "input_ok inp" and "in_hand inp @ concat pre = line @ crlf @ rest" and "no_eol line"
    and "length line + 2 \<le> input_cap" and "[] \<notin> set pre"
    and "pre = [] \<or> length (in_hand inp @ concat (butlast pre)) \<le> length line"
  shows "\<exists>inp' segs'. fetch_next_command inp (pre @ post) = (Request line, inp', segs') \<and> input_ok inp'
    \<and> in_hand inp' @ concat segs' = rest @ concat post"
  using fetch_line_at[OF assms, of post] by blast

text \<open>A line end that is not received whole is fatal. When what was received ends with the first
  byte of a line end (a CR whose LF is still on its way, or a line feed alone), the line is
  returned, but the count of the bytes left over underflows to \<open>2 ^ 64 - 1\<close>, and the next fetch
  moves that many bytes out of a buffer of 16 KiB, whatever is sent next.\<close>
theorem fetch_cut_line_end:
  assumes "input_ok inp" and "in_hand inp @ concat pre = line @ [c]" and "no_eol line"
    and "c = cr \<or> c = lf" and "length line + 2 \<le> input_cap" and "[] \<notin> set pre"
    and "pre = [] \<or> length (in_hand inp) < length line + 1"
  shows "\<exists>inp'. fetch_next_command inp (pre @ post) = (Request line, inp', post)
    \<and> fst (fetch_next_command inp' post) = Undefined_access"
proof -
  have bad: "fst (fetch_next_command i segs) = Undefined_access" if "in_leftover i = 2 ^ 64 - 1" for i segs
    using that by (simp add: fetch_next_command_def input_cap_def)
  have "\<exists>inp'. fetch_next_command inp (pre @ post) = (Request line, inp', post)
    \<and> in_leftover inp' = 2 ^ 64 - 1"
  proof (cases "in_leftover inp = 0")
    case True
    note f = fetch_fresh[OF assms(1) True]
    have "pre \<noteq> []" using assms(2) f(2) by auto
    then show ?thesis unfolding f(1)
      using assms f(2) by (intro fetch_loop_cut[where c = c]) (auto simp: input_ok_def)
  next
    case False
    note m = fetch_moved[OF assms(1) False]
    show ?thesis
    proof (cases "pre = []")
      case True
      have "take (0 + in_current (moved_front inp)) (in_buffer (moved_front inp)) = line @ c # []"
        using m(3) assms(2) True by simp
      note f = scan_found[OF this assms(3,4)]
      have "u64_sub (Suc 0) 2 = 2 ^ 64 - 1" by (simp add: u64_sub_def)
      then show ?thesis using m(1) f True by simp
    next
      case pre: False
      then have le: "length (in_hand inp) \<le> length line" using assms(7) by simp
      then have "prefix (in_hand inp) line"
        using assms(2) by (intro append_prefix[of _ "concat pre" line "[c]"]) auto
      then have "no_eol (in_hand inp)" using assms(3) set_mono_prefix by blast
      then have "fetch_next_command inp (pre @ post) = fetch_loop (moved_front inp) (pre @ post)"
        using le assms(5) by (intro scan_moved_none[OF assms(1) False]) auto
      then show ?thesis using fetch_loop_cut[OF m(2), of pre line c post] assms m(3,4) pre le by simp
    qed
  qed
  then show ?thesis using bad by blast
qed

lemma scan_input_safe:
  assumes "length (in_buffer inp) = input_cap" and "n + in_current inp \<le> input_cap"
    and scan: "scan_input n inp = (ro, inp')"
  shows "in_buffer inp' = in_buffer inp"
    and "ro = None \<Longrightarrow> in_current inp' = in_current inp + n \<and> in_current inp + n < input_cap - 1"
    and "ro \<noteq> Some Undefined_access"
    and "ro = Some (Request req) \<Longrightarrow> no_eol req \<and> length req < input_cap
      \<and> (in_leftover inp' = 2 ^ 64 - 1 \<or> input_ok inp')"
proof -
  let ?cmd = "take (n + in_current inp) (in_buffer inp)"
  have "in_buffer inp' = in_buffer inp \<and> ro \<noteq> Some Undefined_access
    \<and> (ro = None \<longrightarrow> in_current inp' = in_current inp + n \<and> in_current inp + n < input_cap - 1)
    \<and> (ro = Some (Request req) \<longrightarrow> no_eol req \<and> length req < input_cap
      \<and> (in_leftover inp' = 2 ^ 64 - 1 \<or> input_ok inp'))"
  proof (cases "no_eol ?cmd")
    case True
    from scan_none[OF True] scan show ?thesis by (auto split: if_splits)
  next
    case False
    then have ex: "\<exists>x \<in> set ?cmd. x = cr \<or> x = lf" by blast
    from split_list_first_prop[OF ex] obtain line c ys where cmd: "?cmd = line @ c # ys"
      and c: "c = cr \<or> c = lf" and no: "\<forall>y \<in> set line. \<not> (y = cr \<or> y = lf)" by (elim exE conjE)
    have l: "no_eol line" using no by blast
    have len: "length line + Suc (length ys) = n + in_current inp"
      using arg_cong[OF cmd, of length] assms(1,2) by simp
    from scan_found[OF cmd l c] scan len assms(1,2) l show ?thesis
      by (cases ys) (auto simp: u64_sub_def input_ok_def split: if_splits)
  qed
  then show "in_buffer inp' = in_buffer inp" "ro \<noteq> Some Undefined_access"
    "ro = None \<Longrightarrow> in_current inp' = in_current inp + n \<and> in_current inp + n < input_cap - 1"
    "ro = Some (Request req) \<Longrightarrow> no_eol req \<and> length req < input_cap
      \<and> (in_leftover inp' = 2 ^ 64 - 1 \<or> input_ok inp')"
    by auto
qed

lemma fetch_loop_safe:
  assumes "length (in_buffer inp) = input_cap" and "in_current inp < input_cap"
    and "fetch_loop inp segs = (r, inp', segs')"
  shows "r \<noteq> Undefined_access
    \<and> (r = Request req \<longrightarrow> no_eol req \<and> length req < input_cap
         \<and> (in_leftover inp' = 2 ^ 64 - 1 \<or> input_ok inp'))"
  using assms
proof (induction inp segs rule: fetch_loop.induct)
  case (1 inp segs)
  note [simp] = fetch_loop.simps[of inp segs]
  obtain rd segs1 where rd: "read_some (input_cap - in_current inp) segs = (rd, segs1)" by fastforce
  show ?case
  proof (cases "\<exists>s. rd = Inr s \<and> s \<noteq> []")
    case False
    then show ?thesis using 1(4) rd by (cases rd) auto
  next
    case True
    then obtain s where s: "rd = Inr s" "s \<noteq> []" by blast
    let ?i = "inp\<lparr>in_buffer := buf_put (in_buffer inp) (in_current inp) s\<rparr>"
    have "length s \<le> input_cap - in_current inp" using rd s by (cases segs) (auto split: if_splits)
    then have len: "in_current inp + length s \<le> input_cap" using 1(3) by simp
    then have lb: "length (in_buffer ?i) = input_cap" using 1(2) length_buf_put[of "in_current inp" s] by simp
    obtain ro i2 where sc: "scan_input (length s) ?i = (ro, i2)" by fastforce
    have le: "length s + in_current ?i \<le> input_cap" using len by simp
    note safe = scan_input_safe[OF lb le sc]
    show ?thesis
    proof (cases ro)
      case None
      then have "fetch_loop i2 segs1 = (r, inp', segs')" using 1(4) rd s sc by simp
      moreover have "length (in_buffer i2) = input_cap" "in_current i2 < input_cap"
        using safe(1,2) None lb by auto
      ultimately show ?thesis using 1(1)[OF rd[symmetric] s(1) s(2) sc[symmetric] None] by simp
    next
      case (Some r')
      then have "r' = r" "i2 = inp'" using 1(4) rd s sc by auto
      then show ?thesis using safe(3,4) Some by blast
    qed
  qed
qed

lemma fetch_safe:
  assumes "input_ok inp" and "fetch_next_command inp segs = (r, inp', segs')"
  shows "r \<noteq> Undefined_access
    \<and> (r = Request req \<longrightarrow> no_eol req \<and> length req < input_cap
         \<and> (in_leftover inp' = 2 ^ 64 - 1 \<or> input_ok inp'))"
proof (cases "in_leftover inp = 0")
  case True
  have "length (in_buffer (inp\<lparr>in_current := 0\<rparr>)) = input_cap" "in_current (inp\<lparr>in_current := 0\<rparr>) < input_cap"
    using assms(1) by (auto simp: input_ok_def input_cap_def)
  from fetch_loop_safe[OF this] show ?thesis using assms(2) fetch_fresh(1)[OF assms(1) True] by simp
next
  case False
  note m = fetch_moved[OF assms(1) False]
  obtain ro i2 where sc: "scan_input 0 (moved_front inp) = (ro, i2)" by fastforce
  have le: "0 + in_current (moved_front inp) \<le> input_cap"
    using m(2) arg_cong[OF m(3), of length] m(4) by simp
  note safe = scan_input_safe[OF m(2) le sc]
  show ?thesis
  proof (cases ro)
    case None
    then have "fetch_loop i2 segs = (r, inp', segs')" using assms(2) m(1) sc by simp
    moreover have "length (in_buffer i2) = input_cap" "in_current i2 < input_cap"
      using safe(1,2) None m(2) by auto
    ultimately show ?thesis using fetch_loop_safe by blast
  next
    case (Some r')
    then have "r' = r" "i2 = inp'" using assms(2) m(1) sc by auto
    then show ?thesis using safe(3,4) Some by blast
  qed
qed

text \<open>C32: the buffer is safe while every line end arrives whole. In a state that the invariant
  admits, no fetch leaves the buffer, whatever arrives; a command that is returned holds no line
  end and fits the buffer; and afterwards the invariant holds again or the count of the bytes left
  over has underflowed.\<close>
theorem fetch_bounds:
  assumes "input_ok inp" and "fetch_next_command inp segs = (r, inp', segs')"
  shows "r \<noteq> Undefined_access
    \<and> (r = Request req \<longrightarrow> no_eol req \<and> length req < input_cap
         \<and> (in_leftover inp' = 2 ^ 64 - 1 \<or> input_ok inp'))"
  by (rule fetch_safe[OF assms])

section \<open>Concrete input\<close>

lemma input_ok_new: "length garbage = input_cap \<Longrightarrow> input_ok (ftp_input_new garbage)"
  by (simp add: input_ok_def ftp_input_new_def)

definition demo_input :: ftp_input where
  "demo_input = ftp_input_new (replicate input_cap nul)"

lemma demo_input_ok: "input_ok demo_input" and demo_input_in_hand: "in_hand demo_input = []"
  by (simp_all add: demo_input_def input_ok_new) (simp add: in_hand_def ftp_input_new_def)

theorem fetch_line_witness:
  "\<exists>inp' segs'. fetch_next_command demo_input [''NO'', ''OP'' @ crlf @ ''QU'', ''IT'' @ crlf] = (Request ''NOOP'', inp', segs')
    \<and> input_ok inp' \<and> in_hand inp' @ concat segs' = ''QUIT'' @ crlf"
  using fetch_line[OF demo_input_ok, of "[''NO'', ''OP'' @ crlf @ ''QU'']" "''NOOP''" "''QU''" "[''IT'' @ crlf]"]
  by (simp add: demo_input_in_hand input_cap_def)

theorem fetch_cut_line_end_witness:
  "\<exists>inp'. fetch_next_command demo_input [''NOOP'' @ [lf], ''QUIT'' @ [lf]] = (Request ''NOOP'', inp', [''QUIT'' @ [lf]])
    \<and> fst (fetch_next_command inp' [''QUIT'' @ [lf]]) = Undefined_access"
  using fetch_cut_line_end[OF demo_input_ok, of "[''NOOP'' @ [lf]]" "''NOOP''" lf "[''QUIT'' @ [lf]]"]
  by (simp add: demo_input_in_hand input_cap_def)

theorem fetch_bounds_witness: "fst (fetch_next_command demo_input [''NOOP'' @ crlf]) \<noteq> Undefined_access"
  using fetch_bounds[OF demo_input_ok] by (metis prod.exhaust fst_conv)

end
