(* ===== verification/WfdePath.thy ===== *)
theory WfdePath
  imports Filesystem
begin

unbundle bit_operations_syntax

text \<open>
  Virtual paths and permission bits: \<open>src/wfde/WfdePath.cpp\<close>, \<open>src/wfde/WfdePath.h\<close> and the
  class \<open>Path\<close> of \<open>include/wfde/wfde.h\<close>. The functions keep the names of the C++ methods in
  lower case. A cursor into a string is the suffix that starts at it; a list of
  \<open>string_ref\<close> parts is a list of strings.
\<close>

section \<open>Permission bits\<close>

datatype perm_bit =
    CAN_READ | CAN_WRITE | CAN_EXECUTE | CAN_ENTER | CAN_LIST | CAN_CREATE_DIR
  | CAN_CREATE_FILE | CAN_DELETE_FILE | CAN_DELETE_DIR | CAN_SEE_HIDDEN_FILES
  | CAN_SEE_HIDDEN_DIRS | CAN_CREATE_HIDDEN_FILES | CAN_CREATE_HIDDEN_DIRS
  | CAN_SET_TIMESTAMP | CAN_SET_PERMISSIONS | CAN_RENAME | IS_RECURSIVE
  | IS_SHARED_UPLOAD_DIR

type_synonym permbits = "32 word"

text \<open>The numeric value of an enumerator, and \<open>WfdePath::Bit\<close>, its cast to \<open>permbits_t\<close>.\<close>

fun bit_index :: "perm_bit \<Rightarrow> nat" where
  "bit_index CAN_READ = 0"
| "bit_index CAN_WRITE = 1"
| "bit_index CAN_EXECUTE = 2"
| "bit_index CAN_ENTER = 3"
| "bit_index CAN_LIST = 4"
| "bit_index CAN_CREATE_DIR = 5"
| "bit_index CAN_CREATE_FILE = 6"
| "bit_index CAN_DELETE_FILE = 7"
| "bit_index CAN_DELETE_DIR = 8"
| "bit_index CAN_SEE_HIDDEN_FILES = 9"
| "bit_index CAN_SEE_HIDDEN_DIRS = 10"
| "bit_index CAN_CREATE_HIDDEN_FILES = 11"
| "bit_index CAN_CREATE_HIDDEN_DIRS = 12"
| "bit_index CAN_SET_TIMESTAMP = 13"
| "bit_index CAN_SET_PERMISSIONS = 14"
| "bit_index CAN_RENAME = 15"
| "bit_index IS_RECURSIVE = 16"
| "bit_index IS_SHARED_UPLOAD_DIR = 17"

definition perm_mask :: "perm_bit \<Rightarrow> permbits" where
  "perm_mask b = push_bit (bit_index b) 1"

definition perm_names :: "(string \<times> perm_bit) list" where
  "perm_names =
     [(''CAN_READ'', CAN_READ),
      (''CAN_WRITE'', CAN_WRITE),
      (''CAN_EXECUTE'', CAN_EXECUTE),
      (''CAN_ENTER'', CAN_ENTER),
      (''CAN_LIST'', CAN_LIST),
      (''CAN_CREATE_DIR'', CAN_CREATE_DIR),
      (''CAN_CREATE_FILE'', CAN_CREATE_FILE),
      (''CAN_DELETE_FILE'', CAN_DELETE_FILE),
      (''CAN_DELETE_DIR'', CAN_DELETE_DIR),
      (''CAN_SEE_HIDDEN_FILES'', CAN_SEE_HIDDEN_FILES),
      (''CAN_SEE_HIDDEN_DIRS'', CAN_SEE_HIDDEN_DIRS),
      (''CAN_CREATE_HIDDEN_FILES'', CAN_CREATE_HIDDEN_FILES),
      (''CAN_CREATE_HIDDEN_DIRS'', CAN_CREATE_HIDDEN_DIRS),
      (''CAN_SET_TIMESTAMP'', CAN_SET_TIMESTAMP),
      (''CAN_SET_PERMISSIONS'', CAN_SET_PERMISSIONS),
      (''CAN_RENAME'', CAN_RENAME),
      (''IS_RECURSIVE'', IS_RECURSIVE),
      (''IS_SHARED_UPLOAD_DIR'', IS_SHARED_UPLOAD_DIR)]"

section \<open>Path objects\<close>

datatype path_type = FILE | DIRECTORY | ANY

record 'p wpath =
  p_ppath :: 'p
  p_vpath :: string
  p_permbits :: permbits
  p_type :: path_type

text \<open>Prefix the virtual path with a slash if it is missing.\<close>

definition make_valid :: "string \<Rightarrow> string" where
  "make_valid vpath = (if vpath \<noteq> [] \<and> hd vpath \<noteq> slash then slash # vpath else vpath)"

definition mk_path :: "string \<Rightarrow> 'p \<Rightarrow> permbits \<Rightarrow> path_type \<Rightarrow> 'p wpath" where
  "mk_path vpath ppath bits ty =
     \<lparr>p_ppath = ppath, p_vpath = make_valid vpath, p_permbits = bits, p_type = ty\<rparr>"

definition copy_path :: "'p wpath \<Rightarrow> 'p wpath" where
  "copy_path p =
     \<lparr>p_ppath = p_ppath p, p_vpath = p_vpath p, p_permbits = p_permbits p, p_type = p_type p\<rparr>"

definition copy_path_bits :: "'p wpath \<Rightarrow> permbits \<Rightarrow> 'p wpath" where
  "copy_path_bits p bits = mk_path (p_vpath p) (p_ppath p) bits (p_type p)"

definition can_read :: "'p wpath \<Rightarrow> bool" where
  "can_read p \<longleftrightarrow> perm_mask CAN_READ AND p_permbits p \<noteq> 0"

definition can_write :: "'p wpath \<Rightarrow> bool" where
  "can_write p \<longleftrightarrow> perm_mask CAN_WRITE AND p_permbits p \<noteq> 0"

definition can_execute :: "'p wpath \<Rightarrow> bool" where
  "can_execute p \<longleftrightarrow> perm_mask CAN_EXECUTE AND p_permbits p \<noteq> 0"

definition can_enter :: "'p wpath \<Rightarrow> bool" where
  "can_enter p \<longleftrightarrow> perm_mask CAN_ENTER AND p_permbits p \<noteq> 0"

definition can_list :: "'p wpath \<Rightarrow> bool" where
  "can_list p \<longleftrightarrow> perm_mask CAN_LIST AND p_permbits p \<noteq> 0"

definition can_create_dir :: "'p wpath \<Rightarrow> bool" where
  "can_create_dir p \<longleftrightarrow> perm_mask CAN_CREATE_DIR AND p_permbits p \<noteq> 0"

definition can_create_file :: "'p wpath \<Rightarrow> bool" where
  "can_create_file p \<longleftrightarrow> perm_mask CAN_CREATE_FILE AND p_permbits p \<noteq> 0"

definition can_delete_file :: "'p wpath \<Rightarrow> bool" where
  "can_delete_file p \<longleftrightarrow> perm_mask CAN_DELETE_FILE AND p_permbits p \<noteq> 0"

definition can_delete_dir :: "'p wpath \<Rightarrow> bool" where
  "can_delete_dir p \<longleftrightarrow> perm_mask CAN_DELETE_DIR AND p_permbits p \<noteq> 0"

definition can_see_hidden_files :: "'p wpath \<Rightarrow> bool" where
  "can_see_hidden_files p \<longleftrightarrow> perm_mask CAN_SEE_HIDDEN_FILES AND p_permbits p \<noteq> 0"

definition can_see_hidden_dirs :: "'p wpath \<Rightarrow> bool" where
  "can_see_hidden_dirs p \<longleftrightarrow> perm_mask CAN_SEE_HIDDEN_DIRS AND p_permbits p \<noteq> 0"

definition can_create_hidden_file :: "'p wpath \<Rightarrow> bool" where
  "can_create_hidden_file p \<longleftrightarrow> perm_mask CAN_CREATE_HIDDEN_FILES AND p_permbits p \<noteq> 0"

definition can_create_hidden_dir :: "'p wpath \<Rightarrow> bool" where
  "can_create_hidden_dir p \<longleftrightarrow> perm_mask CAN_CREATE_HIDDEN_DIRS AND p_permbits p \<noteq> 0"

definition can_set_timestamp :: "'p wpath \<Rightarrow> bool" where
  "can_set_timestamp p \<longleftrightarrow> perm_mask CAN_SET_TIMESTAMP AND p_permbits p \<noteq> 0"

definition can_set_permissions :: "'p wpath \<Rightarrow> bool" where
  "can_set_permissions p \<longleftrightarrow> perm_mask CAN_SET_PERMISSIONS AND p_permbits p \<noteq> 0"

definition can_rename :: "'p wpath \<Rightarrow> bool" where
  "can_rename p \<longleftrightarrow> perm_mask CAN_RENAME AND p_permbits p \<noteq> 0"

definition is_recursive :: "'p wpath \<Rightarrow> bool" where
  "is_recursive p \<longleftrightarrow> perm_mask IS_RECURSIVE AND p_permbits p \<noteq> 0"

definition is_shared_upload_dir :: "'p wpath \<Rightarrow> bool" where
  "is_shared_upload_dir p \<longleftrightarrow> perm_mask IS_SHARED_UPLOAD_DIR AND p_permbits p \<noteq> 0"

text \<open>\<open>Path::IsFile\<close>, \<open>Path::IsDirectory\<close> and \<open>WfdePath::Exists\<close>.\<close>

definition is_file :: "'p wpath \<Rightarrow> bool" where
  "is_file p \<longleftrightarrow> p_type p = FILE"

definition is_directory :: "'p wpath \<Rightarrow> bool" where
  "is_directory p \<longleftrightarrow> p_type p = DIRECTORY"

definition path_exists :: "('p, 'w) fs_ops \<Rightarrow> 'w \<Rightarrow> 'p wpath \<Rightarrow> exn + bool" where
  "path_exists fs w p =
     (case p_type p of
        FILE \<Rightarrow> fs_is_regular_file fs w (p_ppath p)
      | DIRECTORY \<Rightarrow> fs_is_directory fs w (p_ppath p)
      | ANY \<Rightarrow> fs_exists fs w (p_ppath p))"

section \<open>Splitting and joining\<close>

text \<open>
  \<open>WfdePath::DoSplit\<close>. The argument is the suffix from \<open>pos\<close> on: a leading separator is
  skipped, otherwise the part runs to the next separator or to the end.
\<close>

function do_split :: "char \<Rightarrow> string \<Rightarrow> string list" where
  "do_split ch [] = []"
| "do_split ch (c # cs) =
     (if c = ch then do_split ch cs
      else takeWhile (\<lambda>x. x \<noteq> ch) (c # cs) # do_split ch (dropWhile (\<lambda>x. x \<noteq> ch) (c # cs)))"
  by pat_completeness auto
termination
  by (relation "measure (\<lambda>(ch, s). length s)") (auto simp: le_imp_less_Suc)

text \<open>\<open>Path::Split\<close>.\<close>

definition split_path :: "string \<Rightarrow> string list" where
  "split_path s = do_split slash s"

text \<open>\<open>Path::ToVpath\<close>: the parts joined by slashes, after a root slash when asked for.\<close>

fun join_parts :: "string list \<Rightarrow> string" where
  "join_parts [] = []"
| "join_parts [p] = p"
| "join_parts (p # q # ps) = p @ slash # join_parts (q # ps)"

definition to_vpath :: "string list \<Rightarrow> bool \<Rightarrow> string" where
  "to_vpath parts add_root = (if add_root then [slash] else []) @ join_parts parts"

text \<open>\<open>WfdePath::GetVpathFileName\<close>: from the last slash on, the slash included.\<close>

definition get_vpath_file_name :: "'p wpath \<Rightarrow> string" where
  "get_vpath_file_name p =
     (case find_last_of slash (p_vpath p) of
        None \<Rightarrow> []
      | Some pos \<Rightarrow> drop pos (p_vpath p))"

text \<open>
  \<open>WfdePath::IsSameParentDir\<close>. Both part lists are made from the object's own path, and the
  second range ends at \<open>--end() - 1\<close>, two before the end; \<open>std::equal\<close> on random-access
  ranges compares their lengths first.
\<close>

definition is_same_parent_dir :: "'p wpath \<Rightarrow> 'p wpath \<Rightarrow> bool" where
  "is_same_parent_dir self path =
     (let my_parts = split_path (p_vpath self);
          theirs_parts = split_path (p_vpath self)
      in if my_parts = [] \<or> length my_parts \<noteq> length theirs_parts then False
         else int (length my_parts) - 1 = int (length theirs_parts) - 2
              \<and> butlast my_parts = butlast (butlast theirs_parts))"

section \<open>Sub-paths\<close>

text \<open>The loop of \<open>WfdePath::CreateSubpath\<close> over the parts.\<close>

fun subpath_loop :: "('p, 'w) fs_ops \<Rightarrow> 'p \<Rightarrow> string \<Rightarrow> string list \<Rightarrow> 'p \<times> string" where
  "subpath_loop fs pp vp [] = (pp, vp)"
| "subpath_loop fs pp vp (node # ps) =
     subpath_loop fs (fs_append fs pp node)
       ((if length vp > 1 then vp @ [slash] else vp) @ node) ps"

definition create_subpath ::
    "('p, 'w) fs_ops \<Rightarrow> 'p wpath \<Rightarrow> string \<Rightarrow> path_type \<Rightarrow> 'p wpath" where
  "create_subpath fs p sub_path ty =
     (let (pp, vp) = subpath_loop fs (p_ppath p) (p_vpath p) (split_path sub_path)
      in mk_path vp pp (p_permbits p) ty)"

section \<open>Permission lists\<close>

text \<open>\<open>WfdePath::ToPermBit\<close>, and the two overloads of \<open>Path::ToPermBits\<close>.\<close>

fun to_perm_bit_loop :: "(string \<times> perm_bit) list \<Rightarrow> string \<Rightarrow> exn + permbits" where
  "to_perm_bit_loop [] name = Inl ExceptionNotFound"
| "to_perm_bit_loop ((n, b) # ps) name =
     (if name = n then Inr (perm_mask b) else to_perm_bit_loop ps name)"

definition to_perm_bit :: "string \<Rightarrow> exn + permbits" where
  "to_perm_bit name = to_perm_bit_loop perm_names name"

definition to_perm_bits :: "perm_bit list \<Rightarrow> permbits" where
  "to_perm_bits bs = fold (\<lambda>b rval. rval OR perm_mask b) bs 0"

fun to_perm_bits_loop :: "string list \<Rightarrow> permbits \<Rightarrow> exn + permbits" where
  "to_perm_bits_loop [] rval = Inr rval"
| "to_perm_bits_loop (perm # perms) rval =
     bindE (to_perm_bit perm) (\<lambda>b. to_perm_bits_loop perms (rval OR b))"

definition to_perm_bits_str :: "string \<Rightarrow> exn + permbits" where
  "to_perm_bits_str s = to_perm_bits_loop (do_split comma s) 0"

text \<open>\<open>Path::ToPermNames\<close>; \<open>pad\<close> is written after the name.\<close>

definition pad :: "bool \<Rightarrow> string \<times> bool" where
  "pad virgin = (if virgin then ([], False) else ('', '', virgin))"

fun to_perm_names_loop :: "(string \<times> perm_bit) list \<Rightarrow> permbits \<Rightarrow> bool \<Rightarrow> string" where
  "to_perm_names_loop [] perms virgin = []"
| "to_perm_names_loop ((n, b) # ps) perms virgin =
     (if perms AND perm_mask b \<noteq> 0
      then (let (padding, virgin') = pad virgin
            in n @ padding @ to_perm_names_loop ps perms virgin')
      else to_perm_names_loop ps perms virgin)"

definition to_perm_names :: "permbits \<Rightarrow> string" where
  "to_perm_names perms = to_perm_names_loop perm_names perms True"

definition get_default_permissions :: permbits where
  "get_default_permissions =
     perm_mask CAN_LIST OR perm_mask CAN_ENTER OR perm_mask CAN_READ OR perm_mask IS_RECURSIVE"

definition get_default_home_permissions :: permbits where
  "get_default_home_permissions =
     perm_mask CAN_LIST OR perm_mask CAN_ENTER OR perm_mask CAN_READ OR perm_mask CAN_WRITE
     OR perm_mask CAN_CREATE_FILE OR perm_mask CAN_DELETE_FILE OR perm_mask CAN_RENAME
     OR perm_mask CAN_CREATE_DIR OR perm_mask CAN_DELETE_DIR OR perm_mask CAN_SET_TIMESTAMP
     OR perm_mask IS_RECURSIVE OR perm_mask CAN_SET_PERMISSIONS"

definition get_default_pub_upload_permissions :: permbits where
  "get_default_pub_upload_permissions =
     perm_mask CAN_LIST OR perm_mask CAN_ENTER OR perm_mask IS_SHARED_UPLOAD_DIR"

section \<open>Normalisation\<close>

text \<open>
  The inner loop of \<open>Path::NormalizeAndSplit\<close>: it runs over one part from \<open>cur\<close>, stops at a
  slash or at a dot (not the first character) that is followed by a dot or a slash, and
  rejects a back-slash. \<open>None\<close> is the exception; otherwise the part and the rest.
\<close>

fun scan_part :: "bool \<Rightarrow> string \<Rightarrow> (string \<times> string) option" where
  "scan_part first [] = Some ([], [])"
| "scan_part first (c # cs) =
     (if c = slash then Some ([], c # cs)
      else if c = backslash then None
      else if c = dot \<and> \<not> first \<and> (peek cs = dot \<or> peek cs = slash) then Some ([], c # cs)
      else (case scan_part False cs of
              None \<Rightarrow> None
            | Some (part, rest) \<Rightarrow> Some (c # part, rest)))"

lemma scan_part_split: "scan_part first s = Some (part, rest) \<Longrightarrow> s = part @ rest"
  by (induction first s arbitrary: part rest rule: scan_part.induct)
     (auto split: if_splits option.splits)

lemma scan_part_progress:
  assumes "scan_part True (c # cs) = Some (part, rest)" and "c \<noteq> slash"
  shows "part \<noteq> []"
  using assms by (auto split: if_splits option.splits)

lemma scan_part_shorter:
  assumes "scan_part True (c # cs) = Some (part, rest)" and "c \<noteq> slash"
  shows "length rest < Suc (length cs)"
proof -
  from assms have "part \<noteq> []" by (rule scan_part_progress)
  moreover from assms(1) have "c # cs = part @ rest" by (rule scan_part_split)
  ultimately show ?thesis by (metis length_Cons length_append length_greater_0_conv less_add_same_cancel2)
qed

text \<open>
  The main loop of \<open>Path::NormalizeAndSplit\<close>. The lemma \<open>scan_part_progress\<close> shows that the
  inner loop always moves, so the assertion at the end of the C++ loop body is never reached.
\<close>

function (sequential) norm_loop :: "string list \<Rightarrow> string \<Rightarrow> exn + string list" where
  "norm_loop parts [] = Inr parts"
| "norm_loop parts (c # cs) =
     (if c = slash then norm_loop parts cs
      else if c = dot \<and> cs = [] then norm_loop parts cs
      else if c = dot \<and> hd cs = slash then norm_loop parts (tl cs)
      else if c = dot \<and> hd cs = dot then
        (if tl cs = [] \<or> hd (tl cs) = slash then
           (if parts = [] then Inl ExceptionAccessDenied
            else norm_loop (butlast parts) (if tl cs = [] then [] else tl (tl cs)))
         else Inl ExceptionBadPath)
      else (case scan_part True (c # cs) of
              None \<Rightarrow> Inl ExceptionBadPath
            | Some (part, rest) \<Rightarrow> norm_loop (parts @ [part]) rest))"
  by pat_completeness auto
termination
  by (relation "measure (\<lambda>(parts, s). length s)") (auto dest: scan_part_shorter simp del: scan_part.simps)

definition normalize_and_split :: "string \<Rightarrow> string \<Rightarrow> exn + string list" where
  "normalize_and_split vpath current_dir =
     (if vpath = [] then Inr (split_path current_dir)
      else norm_loop (if hd vpath \<noteq> slash then split_path current_dir else []) vpath)"

definition normalize :: "string \<Rightarrow> string \<Rightarrow> exn + string" where
  "normalize vpath current_dir =
     bindE (normalize_and_split vpath current_dir) (\<lambda>parts. Inr (to_vpath parts True))"


section \<open>Facts about splitting and joining\<close>

definition slash_free :: "string list \<Rightarrow> bool" where
  "slash_free parts \<longleftrightarrow> (\<forall>p \<in> set parts. p \<noteq> [] \<and> slash \<notin> set p)"

lemma slash_free_simps [simp]:
  "slash_free []"
  "slash_free (p # ps) \<longleftrightarrow> p \<noteq> [] \<and> slash \<notin> set p \<and> slash_free ps"
  "slash_free (ps @ qs) \<longleftrightarrow> slash_free ps \<and> slash_free qs"
  by (auto simp: slash_free_def)

lemma do_split_parts: "p \<in> set (do_split ch s) \<Longrightarrow> p \<noteq> [] \<and> ch \<notin> set p"
  by (induction ch s rule: do_split.induct) (auto split: if_splits dest: set_takeWhileD)

lemma slash_free_split [simp]: "slash_free (split_path s)"
  using do_split_parts by (auto simp: slash_free_def split_path_def)

lemma do_split_chars: "p \<in> set (do_split ch s) \<Longrightarrow> set p \<subseteq> set s"
  by (induction ch s rule: do_split.induct)
     (auto split: if_splits dest: set_takeWhileD set_dropWhileD)

lemma do_split_sep [simp]: "do_split ch (ch # s) = do_split ch s"
  by simp

lemma do_split_no_sep:
  assumes "ch \<notin> set p" and "p \<noteq> []"
  shows "do_split ch p = [p]"
proof (cases p)
  case (Cons c cs)
  have "dropWhile (\<lambda>x. x \<noteq> ch) p = []" "takeWhile (\<lambda>x. x \<noteq> ch) p = p" "c \<noteq> ch"
    using assms(1) Cons by (auto simp: dropWhile_eq_Nil_conv takeWhile_eq_all_conv)
  then show ?thesis using Cons by (simp only: do_split.simps if_False)
qed (use assms(2) in simp)

lemma do_split_part_sep:
  assumes "ch \<notin> set p" and "p \<noteq> []"
  shows "do_split ch (p @ ch # s) = p # do_split ch s"
proof (cases p)
  case (Cons c cs)
  with assms(1) have "c \<noteq> ch" and "\<forall>x \<in> set cs. x \<noteq> ch" by auto
  then show ?thesis using Cons
    by (simp add: takeWhile_append2 dropWhile_append2)
qed (use assms(2) in simp)

lemma split_join: "slash_free parts \<Longrightarrow> split_path (join_parts parts) = parts"
  by (induction parts rule: join_parts.induct)
     (auto simp: split_path_def do_split_no_sep do_split_part_sep)

lemma split_to_vpath: "slash_free parts \<Longrightarrow> split_path (to_vpath parts True) = parts"
  using split_join by (simp add: to_vpath_def split_path_def)

lemma join_snoc:
  "join_parts (ps @ [p]) = (if ps = [] then p else join_parts ps @ slash # p)"
  by (induction ps rule: join_parts.induct) auto

lemma join_append:
  "ps \<noteq> [] \<Longrightarrow> qs \<noteq> [] \<Longrightarrow> join_parts (ps @ qs) = join_parts ps @ slash # join_parts qs"
  by (induction ps rule: join_parts.induct) (auto simp: neq_Nil_conv)

lemma join_eq_Nil [simp]: "slash_free ps \<Longrightarrow> join_parts ps = [] \<longleftrightarrow> ps = []"
  by (cases ps rule: join_parts.cases) auto

lemma hd_join: "slash_free ps \<Longrightarrow> ps \<noteq> [] \<Longrightarrow> hd (join_parts ps) \<noteq> slash"
  by (cases ps rule: join_parts.cases) (auto simp: hd_append dest: hd_in_set)

lemma last_join: "slash_free ps \<Longrightarrow> ps \<noteq> [] \<Longrightarrow> last (join_parts ps) \<noteq> slash"
proof (induction ps rule: join_parts.induct)
  case (2 p)
  then have "p \<noteq> []" "slash \<notin> set p" by auto
  then show ?case using last_in_set[of p] by (metis join_parts.simps(2))
next
  case (3 p q ps)
  then have "join_parts (q # ps) \<noteq> []" by simp
  with 3 show ?case by simp
qed simp

lemma to_vpath_inject:
  "slash_free ps \<Longrightarrow> slash_free qs \<Longrightarrow> to_vpath ps True = to_vpath qs True \<longleftrightarrow> ps = qs"
  by (metis split_to_vpath)

section \<open>Facts about normalisation\<close>

text \<open>A safe part: what may be appended to a physical path without leaving it.\<close>

definition safe_part :: "string \<Rightarrow> bool" where
  "safe_part p \<longleftrightarrow>
     p \<noteq> [] \<and> slash \<notin> set p \<and> backslash \<notin> set p \<and> p \<noteq> [dot] \<and> \<not> sublist [dot, dot] p"

abbreviation safe_parts :: "string list \<Rightarrow> bool" where
  "safe_parts ps \<equiv> \<forall>p \<in> set ps. safe_part p"

lemma safe_parts_slash_free [simp]: "safe_parts ps \<Longrightarrow> slash_free ps"
  by (auto simp: slash_free_def safe_part_def)

lemma scan_part_chars:
  "scan_part first s = Some (part, rest) \<Longrightarrow> slash \<notin> set part \<and> backslash \<notin> set part"
  by (induction first s arbitrary: part rest rule: scan_part.induct)
     (auto split: if_splits option.splits)

lemma scan_part_dots:
  "scan_part False s = Some (part, rest) \<Longrightarrow>
     \<not> sublist [dot, dot] part \<and> (part \<noteq> [] \<longrightarrow> hd part = dot \<longrightarrow> peek (tl s) \<noteq> dot)"
proof (induction s arbitrary: part rest)
  case (Cons c cs)
  show ?case
  proof (cases part)
    case (Cons d part')
    with Cons.prems have d: "d = c" "scan_part False cs = Some (part', rest)"
      and g: "c = dot \<longrightarrow> peek cs \<noteq> dot"
      by (auto split: if_splits option.splits)
    note ih = Cons.IH[OF d(2)]
    have "\<not> sublist [dot, dot] (c # part')"
    proof
      assume "sublist [dot, dot] (c # part')"
      with ih obtain ys where "c = dot" "part' = dot # ys"
        by (auto simp: sublist_two_Cons)
      moreover from this d(2) have "peek cs = dot"
        using scan_part_split[of False cs part' rest] by auto
      ultimately show False using g by simp
    qed
    with Cons d(1) g show ?thesis by simp
  qed simp
qed simp

lemma scan_part_safe:
  assumes "scan_part True (c # cs) = Some (part, rest)" and "c \<noteq> slash"
    and "c = dot \<Longrightarrow> cs \<noteq> [] \<and> hd cs \<noteq> slash \<and> hd cs \<noteq> dot"
  shows "safe_part part"
proof -
  from assms(1,2) obtain part' where p: "part = c # part'" "scan_part False cs = Some (part', rest)"
    by (auto split: if_splits option.splits)
  note ch = scan_part_chars[OF assms(1)]
  note ds = scan_part_dots[OF p(2)]
  from p(2) have cs: "cs = part' @ rest" by (rule scan_part_split)
  have "\<not> sublist [dot, dot] part"
  proof
    assume "sublist [dot, dot] part"
    with p(1) ds obtain ys where "c = dot" "part' = dot # ys"
      by (auto simp: sublist_two_Cons)
    with assms(3) cs show False by simp
  qed
  moreover have "part \<noteq> [dot]"
  proof
    assume "part = [dot]"
    with p(1) have "c = dot" "part' = []" by auto
    with assms(3) p(2) have "cs \<noteq> []" "hd cs \<noteq> slash" "hd cs \<noteq> dot" by auto
    with p(2) \<open>part' = []\<close> show False by (cases cs) (auto split: if_splits option.splits)
  qed
  ultimately show ?thesis using ch p(1) by (simp add: safe_part_def)
qed

text \<open>The five ways one round of the main loop goes on.\<close>

lemma norm_loop_cases [consumes 1, case_names skip dot_end dot_slash up part]:
  assumes "norm_loop parts (c # cs) = Inr r"
  obtains (skip) "c = slash" "norm_loop parts cs = Inr r"
    | (dot_end) "c \<noteq> slash" "c = dot" "cs = []" "norm_loop parts cs = Inr r"
    | (dot_slash) "c \<noteq> slash" "c = dot" "cs \<noteq> []" "hd cs = slash" "norm_loop parts (tl cs) = Inr r"
    | (up) "c \<noteq> slash" "c = dot" "cs \<noteq> []" "hd cs \<noteq> slash" "hd cs = dot"
        "tl cs = [] \<or> hd (tl cs) = slash" "parts \<noteq> []"
        "norm_loop (butlast parts) (if tl cs = [] then [] else tl (tl cs)) = Inr r"
    | (part) part rest where "c \<noteq> slash" "c = dot \<Longrightarrow> cs \<noteq> [] \<and> hd cs \<noteq> slash \<and> hd cs \<noteq> dot"
        "scan_part True (c # cs) = Some (part, rest)" "norm_loop (parts @ [part]) rest = Inr r"
  using assms by (auto simp del: scan_part.simps split: if_splits option.splits)

lemma norm_loop_all:
  "norm_loop parts s = Inr r \<Longrightarrow> (\<And>p. safe_part p \<Longrightarrow> P p) \<Longrightarrow> \<forall>p \<in> set parts. P p \<Longrightarrow> \<forall>p \<in> set r. P p"
proof (induction parts s rule: norm_loop.induct)
  case (2 parts c cs)
  from "2.prems"(1) show ?case
  proof (cases rule: norm_loop_cases)
    case up
    have "\<forall>p \<in> set (butlast parts). P p" using "2.prems"(3) by (meson in_set_butlastD)
    with up show ?thesis using "2.IH"(4) "2.prems"(2) by blast
  next
    case (part part rest)
    have "P part" using "2.prems"(2) scan_part_safe[OF part(3,1,2)] by blast
    then have "\<forall>p \<in> set (parts @ [part]). P p" using "2.prems"(3) by simp
    moreover have "\<not> (c = dot \<and> cs = [])" "\<not> (c = dot \<and> hd cs = slash)" "\<not> (c = dot \<and> hd cs = dot)"
      using part(2) by auto
    ultimately show ?thesis using "2.IH"(5)[of "(part, rest)" part rest] part "2.prems"(2) by blast
  qed (use 2 in blast)+
qed simp

lemmas norm_loop_safe = norm_loop_all[where P = safe_part]

end
