(* ===== verification/WfdePathFacts.thy ===== *)
theory WfdePathFacts
  imports WfdePath
begin

text \<open>
  What the virtual-path functions of \<open>src/wfde/WfdePath.cpp\<close> guarantee: the normaliser yields
  only safe parts, agrees with a reference resolution of \<open>.\<close> and \<open>..\<close>, and is idempotent; the
  permission bits and their names are exact; sub-paths extend both sides of a path alike.
\<close>

section \<open>The normaliser against a reference resolution\<close>

text \<open>The reference: walk the segments, drop \<open>.\<close>, let \<open>..\<close> remove the last part.\<close>

fun resolve :: "string list \<Rightarrow> string list \<Rightarrow> exn + string list" where
  "resolve parts [] = Inr parts"
| "resolve parts (seg # segs) =
     (if seg = [dot] then resolve parts segs
      else if seg = [dot, dot] then
        (if parts = [] then Inl ExceptionAccessDenied else resolve (butlast parts) segs)
      else resolve (parts @ [seg]) segs)"

definition firm_part :: "string \<Rightarrow> bool" where
  "firm_part p \<longleftrightarrow> safe_part p \<and> last p \<noteq> dot"

definition plain_seg :: "string \<Rightarrow> bool" where
  "plain_seg seg \<longleftrightarrow> seg = [dot] \<or> seg = [dot, dot] \<or> firm_part seg"

definition seg_end :: "string \<Rightarrow> bool" where
  "seg_end rest \<longleftrightarrow> rest = [] \<or> hd rest = slash"

lemma scan_part_whole:
  assumes "slash \<notin> set seg" "backslash \<notin> set seg" "\<not> sublist [dot, dot] seg"
    and "seg_end rest" and "seg \<noteq> []" "last seg = dot \<Longrightarrow> rest = []"
  shows "scan_part first (seg @ rest) = Some (seg, rest)"
  using assms
proof (induction seg arbitrary: first)
  case (Cons c cs)
  show ?case
  proof (cases cs)
    case Nil
    then show ?thesis using Cons.prems by (cases rest) (auto simp: seg_end_def)
  next
    case (Cons d ds)
    have "scan_part False (cs @ rest) = Some (cs, rest)"
      using Cons.IH[of False] Cons.prems Cons by (auto simp: sublist_two_Cons)
    moreover have "c = dot \<Longrightarrow> d \<noteq> dot \<and> d \<noteq> slash"
      using Cons.prems Cons by (auto simp: sublist_two_Cons)
    ultimately show ?thesis using Cons.prems Cons by auto
  qed
qed simp

lemma norm_loop_name:
  assumes "safe_part seg" and "seg_end rest" and "last seg = dot \<Longrightarrow> rest = []"
  shows "norm_loop parts (seg @ rest) = norm_loop (parts @ [seg]) rest"
proof -
  from assms(1) obtain c cs where seg: "seg = c # cs"
    by (cases seg) (auto simp: safe_part_def)
  have scan: "scan_part True (c # (cs @ rest)) = Some (c # cs, rest)"
    using scan_part_whole[of seg rest True] assms seg by (auto simp: safe_part_def)
  have "c \<noteq> slash" using assms(1) seg by (auto simp: safe_part_def)
  moreover have "c = dot \<Longrightarrow> cs \<noteq> [] \<and> hd cs \<noteq> slash \<and> hd cs \<noteq> dot"
    using assms(1) seg by (cases cs) (auto simp: safe_part_def sublist_two_Cons)
  ultimately show ?thesis using scan seg by (auto simp del: scan_part.simps)
qed

lemma norm_loop_dot: "seg_end rest \<Longrightarrow> norm_loop parts ([dot] @ rest) = norm_loop parts rest"
  by (cases rest) (auto simp: seg_end_def)

lemma norm_loop_up:
  "seg_end rest \<Longrightarrow> norm_loop parts ([dot, dot] @ rest) =
     (if parts = [] then Inl ExceptionAccessDenied else norm_loop (butlast parts) rest)"
  by (cases rest) (auto simp: seg_end_def)

lemma norm_loop_plain:
  "(\<forall>seg \<in> set (do_split ch s). plain_seg seg) \<Longrightarrow> ch = slash \<Longrightarrow>
     norm_loop parts s = resolve parts (do_split ch s)"
proof (induction ch s arbitrary: parts rule: do_split.induct)
  case (2 ch c cs)
  show ?case
  proof (cases "c = slash")
    case True
    then show ?thesis using 2 by simp
  next
    case False
    define seg where "seg = takeWhile (\<lambda>x. x \<noteq> slash) (c # cs)"
    define rest where "rest = dropWhile (\<lambda>x. x \<noteq> slash) (c # cs)"
    have s: "c # cs = seg @ rest" by (simp add: seg_def rest_def)
    have end_seg: "seg_end rest"
      using hd_dropWhile[of "\<lambda>x. x \<noteq> slash" "c # cs"] by (auto simp: seg_end_def rest_def)
    have split: "do_split slash (c # cs) = seg # do_split slash rest"
      using False by (simp add: seg_def rest_def)
    have ih: "norm_loop ps rest = resolve ps (do_split slash rest)" for ps
      using "2.IH"(2) False "2.prems" split by (simp add: rest_def)
    have "plain_seg seg" using "2.prems" split by simp
    then consider "seg = [dot]" | "seg = [dot, dot]" | "firm_part seg" by (auto simp: plain_seg_def)
    then have "norm_loop parts (seg @ rest) = resolve parts (seg # do_split slash rest)"
    proof cases
      case 1
      then show ?thesis using norm_loop_dot[OF end_seg] ih by simp
    next
      case 2
      then show ?thesis using norm_loop_up[OF end_seg] ih by simp
    next
      case 3
      then have "seg \<noteq> [dot]" "seg \<noteq> [dot, dot]" "safe_part seg" "last seg \<noteq> dot"
        by (auto simp: firm_part_def)
      then show ?thesis using norm_loop_name[OF \<open>safe_part seg\<close> end_seg] ih by simp
    qed
    then show ?thesis using s split "2.prems"(2) by simp
  qed
qed simp

section \<open>Canonical results\<close>

text \<open>Only the last part of a normalised absolute path may end in a dot.\<close>

definition canonical :: "string list \<Rightarrow> bool" where
  "canonical ps \<longleftrightarrow> safe_parts ps \<and> (\<forall>p \<in> set (butlast ps). last p \<noteq> dot)"

lemma scan_part_rest:
  "scan_part False s = Some (part, rest) \<Longrightarrow> rest \<noteq> [] \<Longrightarrow> part \<noteq> [] \<Longrightarrow> last part \<noteq> dot"
proof (induction s arbitrary: part)
  case (Cons c cs)
  then obtain part' where p: "part = c # part'" "scan_part False cs = Some (part', rest)"
    and g: "c = dot \<longrightarrow> peek cs \<noteq> dot \<and> peek cs \<noteq> slash"
    by (auto split: if_splits option.splits)
  show ?case
  proof (cases "part' = []")
    case True
    then have "cs = rest" using scan_part_split[OF p(2)] by simp
    moreover from p(2) True Cons.prems(2) \<open>cs = rest\<close> have "hd rest = slash \<or> hd rest = dot"
      by (cases rest) (auto split: if_splits option.splits)
    ultimately show ?thesis using g p True Cons.prems(2) by (cases rest) auto
  next
    case False
    then show ?thesis using Cons.IH[OF p(2)] Cons.prems p by simp
  qed
qed simp

lemma scan_part_firm:
  assumes "scan_part True (c # cs) = Some (part, rest)" and "c \<noteq> slash"
    and "c = dot \<Longrightarrow> cs \<noteq> [] \<and> hd cs \<noteq> slash \<and> hd cs \<noteq> dot" and "rest \<noteq> []"
  shows "firm_part part"
proof -
  have safe: "safe_part part" using assms(1-3) by (rule scan_part_safe)
  from assms(1,2) obtain part' where p: "part = c # part'" "scan_part False cs = Some (part', rest)"
    by (auto split: if_splits option.splits)
  have "last part \<noteq> dot"
  proof (cases "part' = []")
    case True
    then show ?thesis using safe p by (auto simp: safe_part_def)
  next
    case False
    then show ?thesis using scan_part_rest[OF p(2) assms(4)] p by simp
  qed
  with safe show ?thesis by (simp add: firm_part_def)
qed

lemma norm_loop_canonical:
  "norm_loop parts s = Inr r \<Longrightarrow> \<forall>p \<in> set parts. firm_part p \<Longrightarrow> canonical r"
proof (induction parts s rule: norm_loop.induct)
  case (1 parts)
  then show ?case by (auto simp: canonical_def firm_part_def dest: in_set_butlastD)
next
  case (2 parts c cs)
  from "2.prems"(1) show ?case
  proof (cases rule: norm_loop_cases)
    case up
    have "\<forall>p \<in> set (butlast parts). firm_part p" using "2.prems"(2) by (meson in_set_butlastD)
    with up show ?thesis using "2.IH"(4) by blast
  next
    case (part part rest)
    have g: "\<not> (c = dot \<and> cs = [])" "\<not> (c = dot \<and> hd cs = slash)" "\<not> (c = dot \<and> hd cs = dot)"
      using part(2) by auto
    show ?thesis
    proof (cases "rest = []")
      case True
      then have "r = parts @ [part]" using part(4) by simp
      moreover have "safe_part part" using part(3,1,2) by (rule scan_part_safe)
      ultimately show ?thesis using "2.prems"(2) by (auto simp: canonical_def firm_part_def)
    next
      case False
      have "firm_part part" using part(3,1,2) False by (rule scan_part_firm)
      then have "\<forall>p \<in> set (parts @ [part]). firm_part p" using "2.prems"(2) by simp
      then show ?thesis using "2.IH"(5)[of "(part, rest)" part rest] part g by blast
    qed
  qed (use 2 in blast)+
qed

lemma norm_loop_join: "canonical ps \<Longrightarrow> norm_loop parts (join_parts ps) = Inr (parts @ ps)"
proof (induction ps arbitrary: parts rule: join_parts.induct)
  case (2 p)
  then have "norm_loop parts (p @ []) = norm_loop (parts @ [p]) []"
    by (intro norm_loop_name) (auto simp: canonical_def seg_end_def)
  then show ?case by simp
next
  case (3 p q ps)
  then have "safe_part p" "last p \<noteq> dot" and can: "canonical (q # ps)" by (auto simp: canonical_def)
  then have "norm_loop parts (p @ slash # join_parts (q # ps))
      = norm_loop (parts @ [p]) (slash # join_parts (q # ps))"
    by (intro norm_loop_name) (auto simp: seg_end_def)
  also have "\<dots> = norm_loop (parts @ [p]) (join_parts (q # ps))" by simp
  also have "\<dots> = Inr (parts @ p # q # ps)" using "3.IH"[OF can, of "parts @ [p]"] by simp
  finally show ?case by simp
qed simp

lemma norm_loop_to_vpath: "canonical ps \<Longrightarrow> norm_loop [] (to_vpath ps True) = Inr ps"
  using norm_loop_join[of ps "[]"] by (simp add: to_vpath_def)

lemma normalize_to_vpath: "canonical ps \<Longrightarrow> normalize (to_vpath ps True) cwd = Inr (to_vpath ps True)"
  using norm_loop_to_vpath[of ps]
  by (simp add: normalize_def normalize_and_split_def) (simp add: to_vpath_def)

section \<open>Normalisation: the properties\<close>

lemma normalize_cases:
  assumes "normalize vpath cwd = Inr r"
  obtains parts where "normalize_and_split vpath cwd = Inr parts" and "r = to_vpath parts True"
  using assms by (auto simp: normalize_def)

lemma normalize_and_split_safe:
  assumes "normalize_and_split vpath cwd = Inr ps" and "safe_parts (split_path cwd)"
  shows "safe_parts ps"
  using assms by (auto simp: normalize_and_split_def split: if_splits dest!: norm_loop_safe)

lemma normalize_safe_ex:
  assumes "normalize vpath cwd = Inr r" and "safe_parts (split_path cwd)"
  obtains ps where "r = to_vpath ps True" and "safe_parts ps" and "split_path r = ps"
proof -
  from assms(1) obtain ps where ps: "normalize_and_split vpath cwd = Inr ps" "r = to_vpath ps True"
    by (rule normalize_cases)
  from ps(1) assms(2) have "safe_parts ps" by (rule normalize_and_split_safe)
  with ps that show ?thesis by (simp add: split_to_vpath)
qed

lemma split_path_Nil [simp]: "split_path [] = []"
  by (simp add: split_path_def)

lemma split_path_chars: "p \<in> set (split_path s) \<Longrightarrow> set p \<subseteq> set s"
  unfolding split_path_def by (rule do_split_chars)

text \<open>C16: normalisation is safe. Whatever the client sends and whatever the (safe) current
  directory is, a successful \<open>Path::Normalize\<close> returns an absolute path whose parts, as
  \<open>Split\<close> finds them again, are non-empty, hold no slash and no back-slash, are not \<open>.\<close> and
  contain no \<open>..\<close>; and the path is exactly these parts joined by single slashes.\<close>
theorem normalize_result_safe:
  assumes "normalize vpath cwd = Inr r" and "safe_parts (split_path cwd)"
  shows "hd r = slash \<and> safe_parts (split_path r) \<and> r = to_vpath (split_path r) True"
  using assms by (elim normalize_safe_ex) (auto simp: to_vpath_def)

theorem normalize_result_safe_witness:
  "hd ''/a/b/d'' = slash \<and> ''/a/b/d'' = to_vpath (split_path ''/a/b/d'') True"
proof -
  have 1: "normalize ''/a/./b/c/..//d'' ''/'' = Inr ''/a/b/d''" by code_simp
  have 2: "safe_parts (split_path ''/'')" by code_simp
  show ?thesis using normalize_result_safe[OF 1 2] by blast
qed

text \<open>C15: functional correctness of normalisation. When every segment of a non-empty path is
  \<open>.\<close>, \<open>..\<close> or a name without back-slash and without \<open>..\<close> that does not end in a dot, \<open>Normalize\<close>
  computes what the reference resolution of these segments gives, started from the root for an
  absolute path and from the current directory for a relative one. In particular it reports
  \<open>ExceptionAccessDenied\<close> exactly when a \<open>..\<close> would climb above the root.\<close>
theorem normalize_resolves:
  assumes "vpath \<noteq> []" and "\<forall>seg \<in> set (split_path vpath). plain_seg seg"
  shows "normalize vpath cwd =
    bindE (resolve (if hd vpath = slash then [] else split_path cwd) (split_path vpath))
      (\<lambda>ps. Inr (to_vpath ps True))"
  using assms norm_loop_plain[of slash vpath]
  by (simp add: normalize_def normalize_and_split_def split_path_def)

theorem normalize_resolves_witness:
  "normalize ''../x/./y'' ''/a/b'' = Inr ''/a/x/y''"
proof -
  have 1: "''../x/./y'' \<noteq> []" by simp
  have 2: "\<forall>seg \<in> set (split_path ''../x/./y''). plain_seg seg" by code_simp
  have 3: "bindE (resolve (if hd ''../x/./y'' = slash then [] else split_path ''/a/b'')
      (split_path ''../x/./y'')) (\<lambda>ps. Inr (to_vpath ps True)) = Inr ''/a/x/y''" by code_simp
  show ?thesis using normalize_resolves[OF 1 2, of "''/a/b''"] 3 by (rule trans)
qed

text \<open>Normalisation is idempotent. The result of normalising an absolute path is left
  unchanged by a second normalisation, from any current directory.\<close>
theorem normalize_idempotent:
  assumes "normalize vpath cwd = Inr r" and "vpath \<noteq> []" and "hd vpath = slash"
  shows "normalize r cwd' = Inr r"
proof -
  from assms(1) obtain ps where ps: "normalize_and_split vpath cwd = Inr ps" "r = to_vpath ps True"
    by (rule normalize_cases)
  from ps(1) assms(2,3) have "norm_loop [] vpath = Inr ps" by (simp add: normalize_and_split_def)
  then have "canonical ps" by (rule norm_loop_canonical) simp
  then show ?thesis unfolding ps(2) by (rule normalize_to_vpath)
qed

theorem normalize_idempotent_witness:
  "normalize ''/a/b'' ''/q'' = Inr ''/a/b''"
proof -
  have 1: "normalize ''//a/./b/c/..'' ''/z'' = Inr ''/a/b''" by code_simp
  show ?thesis by (rule normalize_idempotent[OF 1]) simp_all
qed

lemma norm_loop_no_backslash: "norm_loop parts s = Inr r \<Longrightarrow> backslash \<notin> set s"
proof (induction parts s rule: norm_loop.induct)
  case (2 parts c cs)
  from "2.prems" show ?case
  proof (cases rule: norm_loop_cases)
    case skip
    then show ?thesis using "2.IH"(1) by simp
  next
    case dot_end
    then show ?thesis by simp
  next
    case dot_slash
    then have "backslash \<notin> set (tl cs)" using "2.IH"(3) by blast
    with dot_slash show ?thesis by (cases cs) auto
  next
    case up
    then have "backslash \<notin> set (if tl cs = [] then [] else tl (tl cs))" using "2.IH"(4) by blast
    with up(2,3,5,6) show ?thesis by (cases cs; cases "tl cs") auto
  next
    case (part part rest)
    have "\<not> (c = dot \<and> cs = [])" "\<not> (c = dot \<and> hd cs = slash)" "\<not> (c = dot \<and> hd cs = dot)"
      using part(2) by auto
    then have "backslash \<notin> set rest"
      using "2.IH"(5)[of "(part, rest)" part rest] part by blast
    then show ?thesis
      using scan_part_split[OF part(3)] scan_part_chars[OF part(3)] by (metis Un_iff set_append)
  qed
qed simp

text \<open>A back-slash never survives. A path that contains a back-slash is never normalised
  successfully, wherever it stands and whatever precedes it.\<close>
theorem normalize_rejects_backslash:
  assumes "backslash \<in> set vpath"
  shows "\<not> (\<exists>r. normalize vpath cwd = Inr r)"
  using assms
  by (auto simp: normalize_def normalize_and_split_def dest: norm_loop_no_backslash
      simp del: norm_loop.simps split: if_splits)

theorem normalize_rejects_backslash_witness:
  "\<not> (\<exists>r. normalize (''/a/'' @ [backslash] @ ''/..'') ''/'' = Inr r)"
  by (rule normalize_rejects_backslash) simp


section \<open>Permission bits\<close>

lemma bit_index_less [simp]: "bit_index b < 32"
  by (cases b) auto

lemma bit_index_inject [simp]: "bit_index a = bit_index b \<longleftrightarrow> a = b"
  by (cases a; cases b) auto

lemma bit_perm_mask: "bit (perm_mask b) n \<longleftrightarrow> n = bit_index b"
  using bit_index_less[of b] by (auto simp: perm_mask_def push_bit_eq_mult bit_exp_iff)

lemma perm_mask_AND: "perm_mask b AND w \<noteq> 0 \<longleftrightarrow> bit w (bit_index b)"
proof
  assume "perm_mask b AND w \<noteq> 0"
  then obtain n where "bit (perm_mask b AND w) n" by (auto simp: bit_eq_iff)
  then show "bit w (bit_index b)" by (auto simp: bit_and_iff bit_perm_mask)
next
  assume "bit w (bit_index b)"
  then have "bit (perm_mask b AND w) (bit_index b)" by (simp add: bit_and_iff bit_perm_mask)
  then show "perm_mask b AND w \<noteq> 0" by auto
qed

lemma perm_mask_AND': "w AND perm_mask b \<noteq> 0 \<longleftrightarrow> bit w (bit_index b)"
  using perm_mask_AND[of b w] by (simp add: and.commute)

definition has_perm :: "permbits \<Rightarrow> perm_bit \<Rightarrow> bool" where
  "has_perm w b \<longleftrightarrow> bit w (bit_index b)"

lemmas accessor_defs =
  can_read_def can_write_def can_execute_def can_enter_def can_list_def can_create_dir_def
  can_create_file_def can_delete_file_def can_delete_dir_def can_see_hidden_files_def
  can_see_hidden_dirs_def can_create_hidden_file_def can_create_hidden_dir_def
  can_set_timestamp_def can_set_permissions_def can_rename_def is_recursive_def
  is_shared_upload_dir_def

lemma has_perm_OR [simp]: "has_perm (v OR w) b \<longleftrightarrow> has_perm v b \<or> has_perm w b"
  by (simp add: has_perm_def bit_or_iff)

lemma has_perm_mask [simp]: "has_perm (perm_mask a) b \<longleftrightarrow> a = b"
  by (auto simp: has_perm_def bit_perm_mask)

lemma has_perm_0 [simp]: "\<not> has_perm 0 b"
  by (simp add: has_perm_def)

lemma accessors_has_perm:
  "can_read p = has_perm (p_permbits p) CAN_READ"
  "can_write p = has_perm (p_permbits p) CAN_WRITE"
  "can_execute p = has_perm (p_permbits p) CAN_EXECUTE"
  "can_enter p = has_perm (p_permbits p) CAN_ENTER"
  "can_list p = has_perm (p_permbits p) CAN_LIST"
  "can_create_dir p = has_perm (p_permbits p) CAN_CREATE_DIR"
  "can_create_file p = has_perm (p_permbits p) CAN_CREATE_FILE"
  "can_delete_file p = has_perm (p_permbits p) CAN_DELETE_FILE"
  "can_delete_dir p = has_perm (p_permbits p) CAN_DELETE_DIR"
  "can_see_hidden_files p = has_perm (p_permbits p) CAN_SEE_HIDDEN_FILES"
  "can_see_hidden_dirs p = has_perm (p_permbits p) CAN_SEE_HIDDEN_DIRS"
  "can_create_hidden_file p = has_perm (p_permbits p) CAN_CREATE_HIDDEN_FILES"
  "can_create_hidden_dir p = has_perm (p_permbits p) CAN_CREATE_HIDDEN_DIRS"
  "can_set_timestamp p = has_perm (p_permbits p) CAN_SET_TIMESTAMP"
  "can_set_permissions p = has_perm (p_permbits p) CAN_SET_PERMISSIONS"
  "can_rename p = has_perm (p_permbits p) CAN_RENAME"
  "is_recursive p = has_perm (p_permbits p) IS_RECURSIVE"
  "is_shared_upload_dir p = has_perm (p_permbits p) IS_SHARED_UPLOAD_DIR"
  unfolding accessor_defs perm_mask_AND has_perm_def by (rule refl)+

lemma has_perm_fold: "has_perm (fold (\<lambda>b rval. rval OR perm_mask b) bs r) b \<longleftrightarrow> has_perm r b \<or> b \<in> set bs"
  by (induction bs arbitrary: r) auto

lemma fold_OR_start:
  fixes r :: permbits
  shows "fold (\<lambda>b rval. rval OR perm_mask b) bs r = r OR fold (\<lambda>b rval. rval OR perm_mask b) bs 0"
proof (induction bs arbitrary: r)
  case (Cons a bs)
  show ?case using Cons[of "r OR perm_mask a"] Cons[of "perm_mask a"] by (simp add: or.assoc)
qed simp

text \<open>The permission set built from a list of enumerators. Exactly the listed rights are
  granted by the accessors, and the bits above the eighteen known ones stay clear.\<close>
theorem to_perm_bits_exact:
  "has_perm (to_perm_bits bs) b = (b \<in> set bs) \<and> (n \<ge> 18 \<longrightarrow> \<not> bit (to_perm_bits bs) n)"
proof -
  have "\<not> bit (fold (\<lambda>b rval. rval OR perm_mask b) bs r) n" if "\<not> bit r n" "n \<ge> 18" for r
    using that
  proof (induction bs arbitrary: r)
    case (Cons a bs)
    have "bit_index a < 18" by (cases a) auto
    then have "\<not> bit (r OR perm_mask a) n" using Cons.prems by (auto simp: bit_or_iff bit_perm_mask)
    then show ?case using Cons by simp
  qed simp
  then show ?thesis by (simp add: to_perm_bits_def has_perm_fold)
qed

theorem to_perm_bits_exact_witness: "\<not> bit (to_perm_bits [CAN_READ, CAN_LIST]) 20"
  using to_perm_bits_exact[of "[CAN_READ, CAN_LIST]" CAN_READ 20] by simp

section \<open>Permission names\<close>

definition perm_of_name :: "string \<Rightarrow> perm_bit option" where
  "perm_of_name name = map_of perm_names name"

lemma to_perm_bit_loop_map_of:
  "to_perm_bit_loop ps name =
     (case map_of ps name of None \<Rightarrow> Inl ExceptionNotFound | Some b \<Rightarrow> Inr (perm_mask b))"
  by (induction ps) (auto split: option.splits)

lemma to_perm_bit_spec:
  "to_perm_bit name =
     (case perm_of_name name of None \<Rightarrow> Inl ExceptionNotFound | Some b \<Rightarrow> Inr (perm_mask b))"
  by (simp add: to_perm_bit_def to_perm_bit_loop_map_of perm_of_name_def)

lemma to_perm_bits_loop_spec:
  "to_perm_bits_loop names r =
     (if \<forall>n \<in> set names. perm_of_name n \<noteq> None
      then Inr (r OR to_perm_bits (List.map_filter perm_of_name names)) else Inl ExceptionNotFound)"
proof (induction names arbitrary: r)
  case Nil
  then show ?case by (simp add: to_perm_bits_def map_filter_simps)
next
  case (Cons n names)
  show ?case
  proof (cases "perm_of_name n")
    case None
    then show ?thesis by (simp add: to_perm_bit_spec)
  next
    case (Some b)
    then show ?thesis using Cons[of "r OR perm_mask b"]
        fold_OR_start[of "List.map_filter perm_of_name names" "perm_mask b"]
      by (auto simp: to_perm_bit_spec to_perm_bits_def map_filter_simps or.assoc)
  qed
qed

text \<open>Parsing a comma-separated permission list. \<open>Path::ToPermBits\<close> succeeds exactly when
  every non-empty item is a known name and then returns the set of the named rights; otherwise it
  throws \<open>ExceptionNotFound\<close>. Spaces are not skipped: they belong to the item.\<close>
theorem to_perm_bits_str_spec:
  "to_perm_bits_str s =
     (if list_all (\<lambda>n. perm_of_name n \<noteq> None) (do_split comma s)
      then Inr (to_perm_bits (List.map_filter perm_of_name (do_split comma s)))
      else Inl ExceptionNotFound)"
  by (simp add: to_perm_bits_str_def to_perm_bits_loop_spec list_all_iff)

text \<open>The rights \<open>ToPermNames\<close> lists: the known ones that are set, in the order of the table.\<close>

definition granted :: "permbits \<Rightarrow> (string \<times> perm_bit) list" where
  "granted perms = filter (\<lambda>nb. has_perm perms (snd nb)) perm_names"

lemma to_perm_names_loop_False:
  "to_perm_names_loop ps perms False
     = concat (map (\<lambda>nb. fst nb @ '', '') (filter (\<lambda>nb. has_perm perms (snd nb)) ps))"
  by (induction ps)
     (auto simp: pad_def Let_def perm_mask_AND' has_perm_def)

lemma to_perm_names_loop_True:
  "to_perm_names_loop ps perms True
     = (case filter (\<lambda>nb. has_perm perms (snd nb)) ps of
          [] \<Rightarrow> []
        | nb # nbs \<Rightarrow> fst nb @ concat (map (\<lambda>nb. fst nb @ '', '') nbs))"
  by (induction ps) (auto simp: pad_def Let_def perm_mask_AND' has_perm_def to_perm_names_loop_False)

lemma perm_names_no_comma: "n \<in> fst ` set perm_names \<Longrightarrow> comma \<notin> set n \<and> n \<noteq> []"
  by (auto simp: perm_names_def)

lemma perm_names_prefix:
  "list_all (\<lambda>n. (prefix ''CAN_'' n \<or> prefix ''IS_'' n)
     \<and> \<not> sublist ''CAN_'' (tl n) \<and> \<not> sublist ''IS_'' (tl n)) (map fst perm_names)"
  by code_simp

lemma two_perm_names_unknown:
  assumes "m \<in> fst ` set perm_names" and "n \<in> fst ` set perm_names"
  shows "perm_of_name (m @ n) = None"
proof (rule ccontr)
  assume "perm_of_name (m @ n) \<noteq> None"
  then have "m @ n \<in> fst ` set perm_names"
    by (auto simp: perm_of_name_def map_of_eq_None_iff)
  then have no: "\<not> sublist ''CAN_'' (tl (m @ n))" "\<not> sublist ''IS_'' (tl (m @ n))"
    using perm_names_prefix by (auto simp: list_all_iff)
  have "m \<noteq> []" using assms(1) perm_names_no_comma by blast
  then have tl: "tl (m @ n) = tl m @ n" by simp
  have "prefix ''CAN_'' n \<or> prefix ''IS_'' n"
    using assms(2) perm_names_prefix by (auto simp: list_all_iff)
  then obtain z where "n = ''CAN_'' @ z \<or> n = ''IS_'' @ z" by (auto elim: prefixE)
  then have "sublist ''CAN_'' (tl m @ n) \<or> sublist ''IS_'' (tl m @ n)"
    by (metis sublist_appendI)
  with no tl show False by simp
qed

lemma perm_names_distinct: "distinct (map fst perm_names)"
  by (simp add: perm_names_def)

lemma perm_of_name_known: "(n, b) \<in> set perm_names \<Longrightarrow> perm_of_name n = Some b"
  unfolding perm_of_name_def by (rule map_of_is_SomeI[OF perm_names_distinct])

lemma granted_known: "nb \<in> set (granted perms) \<Longrightarrow> nb \<in> set perm_names"
  by (auto simp: granted_def)

text \<open>Writing a permission set and reading it back. \<open>ToPermBits\<close> understands the output of
  \<open>ToPermNames\<close> exactly when at most one known right is set (it then gives that right back); with
  two or more the two first names are run together and reading fails with
  \<open>ExceptionNotFound\<close>.\<close>
theorem to_perm_names_roundtrip:
  "to_perm_bits_str (to_perm_names perms) =
     (case granted perms of
        [] \<Rightarrow> Inr 0
      | [nb] \<Rightarrow> Inr (perm_mask (snd nb))
      | _ \<Rightarrow> Inl ExceptionNotFound)"
proof -
  have render: "to_perm_names perms = (case granted perms of [] \<Rightarrow> []
      | nb # nbs \<Rightarrow> fst nb @ concat (map (\<lambda>nb. fst nb @ '', '') nbs))"
    by (simp add: to_perm_names_def to_perm_names_loop_True granted_def)
  consider "granted perms = []" | nb where "granted perms = [nb]"
    | nb nb' nbs where "granted perms = nb # nb' # nbs"
    by (metis neq_Nil_conv)
  then show ?thesis
  proof cases
    case 1
    then show ?thesis using render by (simp add: to_perm_bits_str_def)
  next
    case 2
    then have mem: "(fst nb, snd nb) \<in> set perm_names" using granted_known[of nb perms] by simp
    then have "do_split comma (fst nb) = [fst nb]"
      using perm_names_no_comma[of "fst nb"] by (intro do_split_no_sep) (auto simp: rev_image_eqI)
    then show ?thesis using 2 render perm_of_name_known[OF mem]
      by (simp add: to_perm_bits_str_def to_perm_bit_spec)
  next
    case 3
    then have mem: "fst nb \<in> fst ` set perm_names" "fst nb' \<in> fst ` set perm_names"
      using granted_known[of _ perms] by auto
    then have "do_split comma (to_perm_names perms)
        = (fst nb @ fst nb') # do_split comma (space # concat (map (\<lambda>nb. fst nb @ '', '') nbs))"
      using 3 render perm_names_no_comma
        do_split_part_sep[of comma "fst nb @ fst nb'" "space # concat (map (\<lambda>nb. fst nb @ '', '') nbs)"]
      by simp
    moreover have "perm_of_name (fst nb @ fst nb') = None"
      using mem by (intro two_perm_names_unknown)
    ultimately show ?thesis using 3 by (simp add: to_perm_bits_str_def to_perm_bit_spec)
  qed
qed

section \<open>Sub-paths\<close>

lemma subpath_loop_fst: "fst (subpath_loop fs pp vp ps) = fold (\<lambda>n q. fs_append fs q n) ps pp"
  by (induction ps arbitrary: pp vp) auto

lemma subpath_loop_snd:
  assumes "slash_free ps" and "slash_free qs"
  shows "snd (subpath_loop fs pp (to_vpath qs True) ps) = to_vpath (qs @ ps) True"
  using assms
proof (induction ps arbitrary: pp qs)
  case (Cons p ps)
  have step: "(if length (to_vpath qs True) > 1 then to_vpath qs True @ [slash] else to_vpath qs True) @ p
      = to_vpath (qs @ [p]) True"
    using Cons.prems by (auto simp: to_vpath_def join_snoc)
  show ?case using Cons.IH[of "qs @ [p]"] Cons.prems step by simp
qed simp

text \<open>A sub-path extends the virtual and the physical side alike. For a path whose virtual
  side is in normal form, \<open>CreateSubpath\<close> appends the same parts, in the same order, to both
  sides, and keeps the permissions.\<close>
theorem create_subpath_parallel:
  assumes "p_vpath p = to_vpath qs True" and "slash_free qs"
  shows "create_subpath fs p sub ty =
     \<lparr>p_ppath = fold (\<lambda>n q. fs_append fs q n) (split_path sub) (p_ppath p),
      p_vpath = to_vpath (qs @ split_path sub) True,
      p_permbits = p_permbits p, p_type = ty\<rparr>"
proof -
  have "snd (subpath_loop fs (p_ppath p) (p_vpath p) (split_path sub)) = to_vpath (qs @ split_path sub) True"
    using assms subpath_loop_snd[of "split_path sub" qs] by simp
  then show ?thesis
    using subpath_loop_fst[of fs "p_ppath p" "p_vpath p" "split_path sub"]
    by (simp add: create_subpath_def case_prod_beta mk_path_def make_valid_def to_vpath_def)
qed

theorem create_subpath_parallel_witness:
  "p_ppath (create_subpath demo_fs (mk_path ''/home'' [''srv'', ''home''] 0 DIRECTORY) ''bob/x'' FILE)
     = [''srv'', ''home'', ''bob'', ''x'']"
proof -
  have 1: "p_vpath (mk_path ''/home'' [''srv'', ''home''] 0 DIRECTORY) = to_vpath [''home''] True"
    by code_simp
  have 2: "slash_free [''home'']" by simp
  have 3: "split_path ''bob/x'' = [''bob'', ''x'']" by code_simp
  show ?thesis using create_subpath_parallel[OF 1 2, of demo_fs "''bob/x''" FILE] 3
    by (simp add: demo_fs_def mk_path_def)
qed

lemma never_same_parent_dir: "\<not> is_same_parent_dir self path"
  by (simp add: is_same_parent_dir_def Let_def)

text \<open>\<open>IsSameParentDir\<close> compares a path with itself over ranges whose lengths differ by one,
  so it answers no for every pair of paths, also for two files in the same directory.\<close>
theorem is_same_parent_dir_false: "\<not> is_same_parent_dir self path"
  by (simp add: is_same_parent_dir_def Let_def)

section \<open>Strings that cannot climb\<close>

definition no_climb :: "string \<Rightarrow> bool" where
  "no_climb s \<longleftrightarrow> \<not> sublist [dot, dot] s \<and> backslash \<notin> set s"

lemma no_climb_sublist: "no_climb s \<Longrightarrow> sublist t s \<Longrightarrow> no_climb t"
  unfolding no_climb_def by (meson set_mono_sublist sublist_order.order.trans subsetD)

lemma do_split_sublist: "p \<in> set (do_split ch s) \<Longrightarrow> sublist p s"
proof (induction ch s rule: do_split.induct)
  case (2 ch c cs)
  show ?case
  proof (cases "c = ch")
    case True
    then show ?thesis using 2 by (simp add: sublist_Cons_right)
  next
    case False
    let ?t = "takeWhile (\<lambda>x. x \<noteq> ch) (c # cs)" and ?d = "dropWhile (\<lambda>x. x \<noteq> ch) (c # cs)"
    have "sublist ?t (c # cs)" "sublist ?d (c # cs)"
      by (metis sublist_append_rightI takeWhile_dropWhile_id)
        (metis sublist_append_leftI takeWhile_dropWhile_id)
    moreover have "p = ?t \<or> p \<in> set (do_split ch ?d)" using False "2.prems" by auto
    ultimately show ?thesis using "2.IH"(2)[OF False] by (meson sublist_order.order.trans)
  qed
qed simp

lemma dotdot_slash_append:
  "sublist [dot, dot] (p @ slash # q) \<longleftrightarrow> sublist [dot, dot] p \<or> sublist [dot, dot] q"
proof (induction p)
  case (Cons x p)
  then show ?case by (cases p) (auto simp: sublist_two_Cons)
qed (simp add: sublist_two_Cons)

lemma join_no_climb: "safe_parts ps \<Longrightarrow> no_climb (join_parts ps)"
  by (induction ps rule: join_parts.induct)
     (auto simp: no_climb_def safe_part_def dotdot_slash_append)

lemma to_vpath_no_climb: "safe_parts ps \<Longrightarrow> no_climb (to_vpath ps True)"
  using join_no_climb[of ps] by (auto simp: to_vpath_def no_climb_def sublist_two_Cons)

text \<open>A part that cannot leave the directory it is appended to.\<close>

definition inner_part :: "string \<Rightarrow> bool" where
  "inner_part p \<longleftrightarrow> p \<noteq> [] \<and> slash \<notin> set p \<and> no_climb p"

lemma split_inner: "no_climb s \<Longrightarrow> list_all inner_part (split_path s)"
  unfolding list_all_iff inner_part_def split_path_def
  using do_split_parts do_split_sublist no_climb_sublist by blast

lemma join_no_climb_inner: "list_all inner_part ps \<Longrightarrow> no_climb (join_parts ps)"
  by (induction ps rule: join_parts.induct)
     (auto simp: no_climb_def inner_part_def dotdot_slash_append)

lemma to_vpath_no_climb_inner: "list_all inner_part ps \<Longrightarrow> no_climb (to_vpath ps True)"
  using join_no_climb_inner[of ps] by (auto simp: to_vpath_def no_climb_def sublist_two_Cons)

lemma safe_inner: "safe_part p \<Longrightarrow> inner_part p"
  by (simp add: safe_part_def inner_part_def no_climb_def)

text \<open>Seen from a directory that cannot climb, every normalised path cannot climb either.\<close>

lemma normalize_no_climb:
  assumes "normalize vpath cwd = Inr r" and "no_climb cwd"
  shows "no_climb r" and "hd r = slash" and "r \<noteq> []"
proof -
  from assms(1) obtain ps where ps: "normalize_and_split vpath cwd = Inr ps" "r = to_vpath ps True"
    by (rule normalize_cases)
  have "list_all inner_part (split_path cwd)" using assms(2) by (rule split_inner)
  then have "list_all inner_part ps"
    using ps(1) norm_loop_all[of _ vpath ps inner_part] safe_inner
    by (auto simp: normalize_and_split_def list_all_iff split: if_splits)
  then show "no_climb r" using ps(2) by (simp add: to_vpath_no_climb_inner)
  show "hd r = slash" "r \<noteq> []" using ps(2) by (auto simp: to_vpath_def)
qed

lemma no_climb_slash: "no_climb (p @ slash # q) \<longleftrightarrow> no_climb p \<and> no_climb q"
  by (auto simp: no_climb_def dotdot_slash_append)

lemma subpath_loop_no_climb:
  assumes "no_climb vp" and "list_all inner_part ps" and "vp \<noteq> []" and "hd vp = slash"
  shows "no_climb (snd (subpath_loop fs pp vp ps)) \<and> snd (subpath_loop fs pp vp ps) \<noteq> []
    \<and> hd (snd (subpath_loop fs pp vp ps)) = slash"
  using assms
proof (induction ps arbitrary: pp vp)
  case (Cons p ps)
  let ?vp = "(if length vp > 1 then vp @ [slash] else vp) @ p"
  have p: "inner_part p" using Cons.prems(2) by simp
  have "no_climb ?vp"
  proof (cases "length vp > 1")
    case True
    then show ?thesis using no_climb_slash[of vp p] Cons.prems(1) p by (simp add: inner_part_def)
  next
    case False
    then have "vp = [slash]" using Cons.prems(3,4) by (cases vp) auto
    then show ?thesis using no_climb_slash[of "[]" p] p by (simp add: inner_part_def no_climb_def)
  qed
  then show ?case using Cons.IH[of ?vp] Cons.prems by simp
qed simp

lemma create_subpath_vpath:
  "p_vpath (create_subpath fs p sub ty) = make_valid (snd (subpath_loop fs (p_ppath p) (p_vpath p) (split_path sub)))"
  "p_ppath (create_subpath fs p sub ty) = fold (\<lambda>n q. fs_append fs q n) (split_path sub) (p_ppath p)"
  "p_permbits (create_subpath fs p sub ty) = p_permbits p"
  "p_type (create_subpath fs p sub ty) = ty"
  using subpath_loop_fst[of fs "p_ppath p" "p_vpath p" "split_path sub"]
  by (simp_all add: create_subpath_def case_prod_beta mk_path_def)

lemma create_subpath_no_climb:
  assumes "no_climb (p_vpath p)" and "p_vpath p \<noteq> []" and "hd (p_vpath p) = slash" and "no_climb sub"
  shows "no_climb (p_vpath (create_subpath fs p sub ty))"
  using subpath_loop_no_climb[OF assms(1) split_inner[OF assms(4)] assms(2,3), of fs "p_ppath p"]
  by (simp add: create_subpath_vpath make_valid_def)

end
