(* ===== verification/Configuration.thy ===== *)
theory Configuration
  imports Prelude
begin

text \<open>
  The configuration: the interface \<open>Configuration\<close> of \<open>include/wfde/wfde.h\<close> as a record of its
  virtual functions, and its two implementations in
  \<open>src/wfde/WfdeConfigurationPropertyTree.{h,cpp}\<close>: the property tree itself and \<open>SubConfig\<close>, a
  view of the tree below a path. \<open>boost::property_tree\<close> is not part of the repository: its
  operations are the record \<open>ptree_ops\<close>, an argument of the model.
\<close>

section \<open>The interface\<close>

record 'c config_ops =
  cf_get_value :: "'c \<Rightarrow> string \<Rightarrow> string option \<Rightarrow> string"
  cf_have_value :: "'c \<Rightarrow> string \<Rightarrow> bool"
  cf_can_write :: "'c \<Rightarrow> string option \<Rightarrow> bool"
  cf_set_value :: "'c \<Rightarrow> string \<Rightarrow> string \<Rightarrow> 'c"
  cf_enum_nodes :: "'c \<Rightarrow> string \<Rightarrow> string list"

text \<open>
  The operations of \<open>boost::property_tree\<close> the code calls: \<open>path(s, '/')\<close>, \<open>get(path, default)\<close>,
  \<open>get_child_optional\<close>, \<open>put\<close>, the names of the children (\<open>None\<close> is \<open>ptree_bad_path\<close>) and
  \<open>read_info\<close>.
\<close>

record ('t, 'k) ptree_ops =
  pt_path :: "string \<Rightarrow> 'k"
  pt_get :: "'t \<Rightarrow> 'k \<Rightarrow> string \<Rightarrow> string"
  pt_has_child :: "'t \<Rightarrow> 'k \<Rightarrow> bool"
  pt_put :: "'t \<Rightarrow> 'k \<Rightarrow> string \<Rightarrow> 't"
  pt_children :: "'t \<Rightarrow> 'k \<Rightarrow> string list option"
  pt_file_exists :: "string \<Rightarrow> bool"
  pt_read_info :: "string \<Rightarrow> exn + 't"

section \<open>The property tree\<close>

text \<open>The constructor reads the file, or throws when it does not exist.\<close>

definition ptree_create :: "('t, 'k) ptree_ops \<Rightarrow> string \<Rightarrow> exn + 't" where
  "ptree_create pt path =
     (if pt_file_exists pt path then pt_read_info pt path else Inl ExceptionNotFound)"

definition to_path :: "('t, 'k) ptree_ops \<Rightarrow> string \<Rightarrow> 'k" where
  "to_path pt path = pt_path pt (if peek path = slash then tl path else path)"

definition ptree_get_value :: "('t, 'k) ptree_ops \<Rightarrow> 't \<Rightarrow> string \<Rightarrow> string option \<Rightarrow> string" where
  "ptree_get_value pt data path def =
     pt_get pt data (to_path pt path) (case def of Some d \<Rightarrow> d | None \<Rightarrow> [])"

definition ptree_have_value :: "('t, 'k) ptree_ops \<Rightarrow> 't \<Rightarrow> string \<Rightarrow> bool" where
  "ptree_have_value pt data path = pt_has_child pt data (to_path pt path)"

definition ptree_can_write :: "'t \<Rightarrow> string option \<Rightarrow> bool" where
  "ptree_can_write data path = True"

definition ptree_set_value :: "('t, 'k) ptree_ops \<Rightarrow> 't \<Rightarrow> string \<Rightarrow> string \<Rightarrow> 't" where
  "ptree_set_value pt data path val = pt_put pt data (to_path pt path) val"

definition ptree_enum_nodes :: "('t, 'k) ptree_ops \<Rightarrow> 't \<Rightarrow> string \<Rightarrow> string list" where
  "ptree_enum_nodes pt data path =
     (case pt_children pt data (to_path pt path) of None \<Rightarrow> [] | Some names \<Rightarrow> names)"

definition ptree_config :: "('t, 'k) ptree_ops \<Rightarrow> 't config_ops" where
  "ptree_config pt =
     \<lparr>cf_get_value = ptree_get_value pt, cf_have_value = ptree_have_value pt,
      cf_can_write = ptree_can_write, cf_set_value = ptree_set_value pt,
      cf_enum_nodes = ptree_enum_nodes pt\<rparr>"

section \<open>The view below a path\<close>

record 'c sub_config =
  root_path :: string
  sub_conf :: 'c

definition sep :: "string \<Rightarrow> string" where
  "sep path = (if peek path = slash then [] else [slash])"

text \<open>\<open>WfdeConfigurationPropertyTree::GetConfigForPath\<close> and \<open>SubConfig::GetConfigForPath\<close>.\<close>

definition get_config_for_path :: "'c \<Rightarrow> string \<Rightarrow> 'c sub_config" where
  "get_config_for_path c path = \<lparr>root_path = path, sub_conf = c\<rparr>"

definition sub_get_config_for_path :: "'c sub_config \<Rightarrow> string \<Rightarrow> 'c sub_config" where
  "sub_get_config_for_path sc path =
     \<lparr>root_path = root_path sc @ sep path @ path, sub_conf = sub_conf sc\<rparr>"

definition sub_get_value ::
    "'c config_ops \<Rightarrow> 'c sub_config \<Rightarrow> string \<Rightarrow> string option \<Rightarrow> string" where
  "sub_get_value ops sc path def =
     cf_get_value ops (sub_conf sc) (root_path sc @ sep path @ path) def"

definition sub_have_value :: "'c config_ops \<Rightarrow> 'c sub_config \<Rightarrow> string \<Rightarrow> bool" where
  "sub_have_value ops sc path = cf_have_value ops (sub_conf sc) path"

definition sub_can_write :: "'c config_ops \<Rightarrow> 'c sub_config \<Rightarrow> string option \<Rightarrow> bool" where
  "sub_can_write ops sc path = cf_can_write ops (sub_conf sc) None"

definition sub_set_value ::
    "'c config_ops \<Rightarrow> 'c sub_config \<Rightarrow> string \<Rightarrow> string \<Rightarrow> 'c sub_config" where
  "sub_set_value ops sc path val =
     sc\<lparr>sub_conf := cf_set_value ops (sub_conf sc) (root_path sc @ sep path @ path) val\<rparr>"

definition sub_enum_nodes :: "'c config_ops \<Rightarrow> 'c sub_config \<Rightarrow> string \<Rightarrow> string list" where
  "sub_enum_nodes ops sc path =
     cf_enum_nodes ops (sub_conf sc) (root_path sc @ sep path @ path)"

definition sub_config_ops :: "'c config_ops \<Rightarrow> 'c sub_config config_ops" where
  "sub_config_ops ops =
     \<lparr>cf_get_value = sub_get_value ops, cf_have_value = sub_have_value ops,
      cf_can_write = sub_can_write ops, cf_set_value = sub_set_value ops,
      cf_enum_nodes = sub_enum_nodes ops\<rparr>"

lemmas sub_config_defs =
  sub_get_value_def sub_have_value_def sub_can_write_def sub_set_value_def sub_enum_nodes_def
  sub_get_config_for_path_def get_config_for_path_def sub_config_ops_def

section \<open>Views compose\<close>

text \<open>A path that starts with a slash, or none: both spellings name the same node of a view.\<close>

lemma sep_slash: "sep (slash # p) @ slash # p = slash # p" and
  sep_plain: "peek p \<noteq> slash \<Longrightarrow> sep p @ p = slash # p"
  by (auto simp: sep_def)

lemma peek_append: "peek (p @ q) = (if p = [] then peek q else peek p)"
  by (cases p) auto

text \<open>A view of a view is the view below the joined path. Reading, writing and enumerating
  through \<open>SubConfig\<close>s nested with \<open>GetConfigForPath\<close> reach the node that the concatenation of
  the paths names.\<close>
theorem nested_config_get:
  "sub_get_value ops (sub_get_config_for_path (get_config_for_path c a) b) p def
     = cf_get_value ops c (a @ sep b @ b @ sep p @ p) def
   \<and> sub_conf (sub_set_value ops (sub_get_config_for_path (get_config_for_path c a) b) p v)
     = cf_set_value ops c (a @ sep b @ b @ sep p @ p) v
   \<and> sub_enum_nodes ops (sub_get_config_for_path (get_config_for_path c a) b) p
     = cf_enum_nodes ops c (a @ sep b @ b @ sep p @ p)"
  by (simp add: sub_config_defs)

text \<open>\<open>SubConfig::HaveValue\<close> forgets the root of the view. Two views of the same
  configuration below different paths give the same answer, and the answer is that of the path
  taken from the root of the configuration, while reading goes below the view's root.\<close>
theorem sub_have_value_ignores_root:
  "sub_have_value ops (get_config_for_path c a) p = sub_have_value ops (get_config_for_path c b) p
   \<and> sub_have_value ops (get_config_for_path c a) p = cf_have_value ops c p
   \<and> sub_get_value ops (get_config_for_path c a) p def = cf_get_value ops c (a @ sep p @ p) def"
  by (simp add: sub_config_defs)

end
