(* ===== verification/WfdePermissions.thy ===== *)
theory WfdePermissions
  imports WfdePathFacts Configuration "HOL-Library.List_Lexorder" "HOL-Library.Char_ord"
begin

text \<open>
  The mounts of a user: \<open>src/wfde/WfdePermissions.cpp\<close> and the container of
  \<open>include/wfde/multipaths.h\<close>. A container is the list of its paths in the order of its
  sequenced index; the two ordered indices are unique, so \<open>push_back\<close> refuses an element whose
  virtual or physical path is present, and iterating the virtual-path index is iterating the list
  sorted by virtual path (\<open>std::string\<close> compares bytes as unsigned numbers).
\<close>

section \<open>The container\<close>

type_synonym 'p paths = "'p wpath list"

definition mpaths_push_back :: "'p paths \<Rightarrow> 'p wpath \<Rightarrow> 'p paths" where
  "mpaths_push_back ps p =
     (if p_vpath p \<in> set (map p_vpath ps) \<or> p_ppath p \<in> set (map p_ppath ps) then ps
      else ps @ [p])"

definition mpaths_by_vpath :: "'p paths \<Rightarrow> 'p paths" where
  "mpaths_by_vpath ps = sort_key p_vpath ps"

section \<open>WfdePermissions\<close>

definition permissions_copy :: "'p paths \<Rightarrow> 'p paths" where
  "permissions_copy v = fold (\<lambda>p ps. mpaths_push_back ps (copy_path p)) v []"

text \<open>
  The stepping loop of \<open>GetPath\<close>: the entry's path and the sought path are compared
  character by character; what is left of both is returned. The sought string reads NUL at its
  end.
\<close>

fun match_vpath :: "string \<Rightarrow> string \<Rightarrow> string \<times> string" where
  "match_vpath [] pp = ([], pp)"
| "match_vpath (c # p) pp =
     (if c = peek pp then match_vpath p (tl pp) else (c # p, pp))"

text \<open>
  The loop of \<open>GetPath\<close> over the virtual-path index. The last argument is the value the caller's
  \<open>remaining\<close> has before the call: a full match leaves it alone (\<open>remaining->empty()\<close> is a test,
  not an assignment).
\<close>

fun get_path_loop ::
    "'p paths \<Rightarrow> string \<Rightarrow> ('p wpath \<times> string) option \<Rightarrow> string \<Rightarrow> exn + 'p wpath \<times> string" where
  "get_path_loop [] vpath best remaining =
     (case best of
        None \<Rightarrow> Inl ExceptionAccessDenied
      | Some (p, rest) \<Rightarrow> Inr (p, rest))"
| "get_path_loop (p # ps) vpath best remaining =
     (case match_vpath (p_vpath p) vpath of
        (left, pp) \<Rightarrow>
          if left = [] then
            if pp = [] then Inr (p, remaining)
            else if length pp \<noteq> length vpath then
              (if is_recursive p
               then get_path_loop ps vpath (Some (p, dropWhile (\<lambda>c. c = slash) pp)) remaining
               else get_path_loop ps vpath None remaining)
            else get_path_loop ps vpath best remaining
          else get_path_loop ps vpath best remaining)"

definition permissions_get_path :: "'p paths \<Rightarrow> string \<Rightarrow> string \<Rightarrow> exn + 'p wpath \<times> string" where
  "permissions_get_path ps vpath remaining =
     get_path_loop (mpaths_by_vpath ps) vpath None remaining"

definition permissions_add_path :: "'p paths \<Rightarrow> 'p wpath \<Rightarrow> exn + 'p paths" where
  "permissions_add_path ps p =
     (if p_vpath p \<in> set (map p_vpath ps) then Inl ExceptionAlreadyExist
      else if p_ppath p \<in> set (map p_ppath ps) then Inl ExceptionAlreadyExist
      else Inr (mpaths_push_back ps p))"

definition permissions_get_paths :: "'p paths \<Rightarrow> 'p wpath list" where
  "permissions_get_paths ps = map (\<lambda>p. p) ps"

fun merge_loop :: "'p paths \<Rightarrow> 'p wpath list \<Rightarrow> 'p paths" where
  "merge_loop ps [] = ps"
| "merge_loop ps (p # theirs) =
     (if p_vpath p \<in> set (map p_vpath ps) then merge_loop ps theirs
      else if p_ppath p \<in> set (map p_ppath ps) then merge_loop ps theirs
      else merge_loop (mpaths_push_back ps (copy_path p)) theirs)"

definition permissions_merge :: "'p paths \<Rightarrow> 'p paths \<Rightarrow> 'p paths" where
  "permissions_merge ps perms = merge_loop ps (permissions_get_paths perms)"

text \<open>\<open>CreatePermissions\<close>: one mount per node of the configuration, in its order.\<close>

fun create_permissions_loop ::
    "('p, 'w) fs_ops \<Rightarrow> 'c config_ops \<Rightarrow> 'c \<Rightarrow> string list \<Rightarrow> 'p paths \<Rightarrow> exn + 'p paths" where
  "create_permissions_loop fs ops conf [] ps = Inr ps"
| "create_permissions_loop fs ops conf (name # names) ps =
     (let vpath = cf_get_value ops conf (slash # name @ ''/Name'') None;
          ppath = cf_get_value ops conf (slash # name @ ''/Path'') None;
          perms = cf_get_value ops conf (slash # name @ ''/Perms'') None
      in bindE (to_perm_bits_str perms) (\<lambda>bits.
         bindE (permissions_add_path ps (mk_path vpath (fs_path fs ppath) bits DIRECTORY))
           (create_permissions_loop fs ops conf names)))"

definition create_permissions ::
    "('p, 'w) fs_ops \<Rightarrow> 'c config_ops \<Rightarrow> 'c \<Rightarrow> exn + 'p paths" where
  "create_permissions fs ops conf =
     create_permissions_loop fs ops conf (cf_enum_nodes ops conf []) []"

section \<open>The container invariant\<close>

definition paths_ok :: "'p paths \<Rightarrow> bool" where
  "paths_ok ps \<longleftrightarrow> distinct (map p_vpath ps) \<and> distinct (map p_ppath ps)"

lemma paths_ok_Nil [simp]: "paths_ok []"
  by (simp add: paths_ok_def)

lemma copy_path_id [simp]: "copy_path p = p"
  by (simp add: copy_path_def)

lemma push_back_ok [simp]: "paths_ok ps \<Longrightarrow> paths_ok (mpaths_push_back ps p)"
  by (auto simp: paths_ok_def mpaths_push_back_def)

lemma push_back_fresh:
  "p_vpath p \<notin> set (map p_vpath ps) \<Longrightarrow> p_ppath p \<notin> set (map p_ppath ps) \<Longrightarrow>
     mpaths_push_back ps p = ps @ [p]"
  by (simp add: mpaths_push_back_def)

lemma set_by_vpath [simp]: "set (mpaths_by_vpath ps) = set ps"
  by (simp add: mpaths_by_vpath_def)

lemma copy_fold: "paths_ok (qs @ v) \<Longrightarrow> fold (\<lambda>p ps. mpaths_push_back ps (copy_path p)) v qs = qs @ v"
proof (induction v arbitrary: qs)
  case (Cons p v)
  then have "mpaths_push_back qs p = qs @ [p]"
    by (intro push_back_fresh) (auto simp: paths_ok_def)
  with Cons show ?case by simp
qed simp

lemma permissions_copy_id: "paths_ok ps \<Longrightarrow> permissions_copy ps = ps"
  using copy_fold[of "[]" ps] by (simp add: permissions_copy_def)

lemma merge_loop_ok: "paths_ok ps \<Longrightarrow> paths_ok (merge_loop ps theirs)"
  by (induction ps theirs rule: merge_loop.induct) auto

section \<open>Lookup\<close>

text \<open>Mounts as the constructors make them from a configured name: virtual paths start with a
  slash and hold no NUL.\<close>

definition mount_ok :: "'p wpath \<Rightarrow> bool" where
  "mount_ok p \<longleftrightarrow> p_vpath p \<noteq> [] \<and> hd (p_vpath p) = slash \<and> nul \<notin> set (p_vpath p)"

definition mounts_ok :: "'p paths \<Rightarrow> bool" where
  "mounts_ok ps \<longleftrightarrow> paths_ok ps \<and> list_all mount_ok ps"

lemma mounts_okD: "mounts_ok ps \<Longrightarrow> p \<in> set ps \<Longrightarrow> mount_ok p"
  by (auto simp: mounts_ok_def list_all_iff)

lemma match_vpath_prefix: "match_vpath p (p @ v) = ([], v)"
  by (induction p) auto

lemma match_vpath_Nil:
  "match_vpath p v = ([], r) \<Longrightarrow> nul \<notin> set p \<Longrightarrow> v = p @ r"
proof (induction p v arbitrary: r rule: match_vpath.induct)
  case (2 c p v)
  then have "c = peek v" "match_vpath p (tl v) = ([], r)" by (auto split: if_splits)
  moreover from this 2 have "v \<noteq> []" by (cases v) auto
  ultimately show ?case using 2 by (cases v) auto
qed simp

lemma match_vpath_iff:
  assumes "nul \<notin> set p"
  shows "fst (match_vpath p v) = [] \<longleftrightarrow> prefix p v"
  using assms match_vpath_Nil[of p v "snd (match_vpath p v)"]
  by (auto simp: prefix_def match_vpath_prefix prod_eq_iff)

text \<open>What the lookup answers once the longest matching mount is known.\<close>

definition verdict :: "string \<Rightarrow> string \<Rightarrow> 'p wpath \<Rightarrow> exn + 'p wpath \<times> string" where
  "verdict v remaining p =
     (if p_vpath p = v then Inr (p, remaining)
      else if is_recursive p then Inr (p, dropWhile (\<lambda>c. c = slash) (drop (length (p_vpath p)) v))
      else Inl ExceptionAccessDenied)"

abbreviation matching :: "string \<Rightarrow> 'p paths \<Rightarrow> 'p paths" where
  "matching v ps \<equiv> filter (\<lambda>p. prefix (p_vpath p) v) ps"

lemma get_path_loop_skip:
  assumes "mount_ok p" and "\<not> prefix (p_vpath p) v"
  shows "get_path_loop (p # ps) v best remaining = get_path_loop ps v best remaining"
  using assms match_vpath_iff[of "p_vpath p" v]
  by (cases "match_vpath (p_vpath p) v") (auto simp: mount_ok_def)

lemma get_path_loop_match:
  assumes "mount_ok p" and "prefix (p_vpath p) v"
  shows "get_path_loop (p # ps) v best remaining =
    (if p_vpath p = v then Inr (p, remaining)
     else get_path_loop ps v
       (if is_recursive p then Some (p, dropWhile (\<lambda>c. c = slash) (drop (length (p_vpath p)) v)) else None)
       remaining)"
proof -
  from assms(2) obtain r where v: "v = p_vpath p @ r" by (auto simp: prefix_def)
  then show ?thesis using assms(1) match_vpath_prefix[of "p_vpath p" r] by (auto simp: mount_ok_def)
qed

lemma get_path_loop_spec:
  assumes "list_all mount_ok ps"
    and "\<forall>p \<in> set (butlast (matching v ps)). p_vpath p \<noteq> v"
  shows "get_path_loop ps v best remaining =
    (if matching v ps = [] then
       (case best of None \<Rightarrow> Inl ExceptionAccessDenied | Some (p, rest) \<Rightarrow> Inr (p, rest))
     else verdict v remaining (last (matching v ps)))"
  using assms
proof (induction ps arbitrary: best)
  case (Cons p ps)
  show ?case
  proof (cases "prefix (p_vpath p) v")
    case False
    then show ?thesis using Cons get_path_loop_skip[of p v] by simp
  next
    case True
    have ne: "matching v ps \<noteq> [] \<Longrightarrow> p_vpath p \<noteq> v" using Cons.prems(2) True by auto
    have "\<forall>p \<in> set (butlast (matching v ps)). p_vpath p \<noteq> v"
      using Cons.prems(2) True by (auto split: if_splits)
    note ih = Cons.IH[OF _ this]
    show ?thesis using Cons.prems(1) True ne
      by (auto simp: get_path_loop_match ih verdict_def simp del: get_path_loop.simps)
  qed
qed simp

lemma le_append: "a \<le> a @ (b :: string)"
  by (induction a) auto

lemma prefix_le: "prefix a (b :: string) \<Longrightarrow> a \<le> b"
  by (auto simp: prefix_def le_append)

definition longest_match :: "'p paths \<Rightarrow> string \<Rightarrow> 'p wpath \<Rightarrow> bool" where
  "longest_match ps v p \<longleftrightarrow>
     p \<in> set (matching v ps) \<and>
     (\<forall>q \<in> set (matching v ps). length (p_vpath q) \<le> length (p_vpath p))"

lemma longest_match_unique:
  assumes "paths_ok ps" and "longest_match ps v p" and "longest_match ps v q"
  shows "p = q"
proof -
  have "prefix (p_vpath p) v" "prefix (p_vpath q) v" "length (p_vpath p) = length (p_vpath q)"
    using assms(2,3) by (auto simp: longest_match_def intro: antisym)
  then have "p_vpath p = p_vpath q" by (metis append_eq_append_conv prefix_def)
  with assms show ?thesis by (auto simp: paths_ok_def longest_match_def distinct_map dest: inj_onD)
qed

lemma sorted_last_max:
  assumes "sorted (map f xs)" and "x \<in> set xs"
  shows "f x \<le> (f (last xs) :: 'b :: linorder)"
  using assms by (induction xs) (auto split: if_splits)

lemma last_not_in_butlast: "distinct (map f xs) \<Longrightarrow> x \<in> set (butlast xs) \<Longrightarrow> f x \<noteq> f (last xs)"
  by (induction xs) (auto split: if_splits)

lemma sorted_matching: "sorted (map p_vpath (matching v (mpaths_by_vpath ps)))"
  unfolding mpaths_by_vpath_def by (intro sorted_filter) simp

lemma distinct_by_vpath: "paths_ok ps \<Longrightarrow> distinct (map p_vpath (mpaths_by_vpath ps))"
proof -
  assume "paths_ok ps"
  then have "inj_on p_vpath (set ps)" "distinct ps" by (auto simp: paths_ok_def distinct_map)
  then show ?thesis by (simp add: mpaths_by_vpath_def distinct_map)
qed

lemma distinct_matching:
  "paths_ok ps \<Longrightarrow> distinct (map p_vpath (matching v (mpaths_by_vpath ps)))"
  using distinct_by_vpath[of ps] by (auto simp: distinct_map intro: inj_on_subset)

lemma last_matching_longest:
  assumes "matching v (mpaths_by_vpath ps) \<noteq> []"
  shows "longest_match ps v (last (matching v (mpaths_by_vpath ps)))"
proof -
  let ?m = "matching v (mpaths_by_vpath ps)"
  have last_mem: "last ?m \<in> set ?m" using assms by (rule last_in_set)
  have "length (p_vpath q) \<le> length (p_vpath (last ?m))" if q: "q \<in> set ?m" for q
  proof -
    have le: "p_vpath q \<le> p_vpath (last ?m)" by (rule sorted_last_max[OF sorted_matching q])
    have "prefix (p_vpath q) v" "prefix (p_vpath (last ?m)) v" using q last_mem by auto
    then have "prefix (p_vpath q) (p_vpath (last ?m)) \<or> prefix (p_vpath (last ?m)) (p_vpath q)"
      by (rule prefix_same_cases)
    then show ?thesis using le prefix_le by (metis antisym order_refl prefix_length_le)
  qed
  then show ?thesis using last_mem by (auto simp: longest_match_def)
qed

lemma longest_match_mem: "longest_match ps v p \<Longrightarrow> p \<in> set ps \<and> prefix (p_vpath p) v"
  by (auto simp: longest_match_def)

lemma get_path_verdict:
  assumes "mounts_ok ps"
  shows "permissions_get_path ps v remaining =
    (if matching v (mpaths_by_vpath ps) = [] then Inl ExceptionAccessDenied
     else verdict v remaining (last (matching v (mpaths_by_vpath ps))))"
proof -
  let ?m = "matching v (mpaths_by_vpath ps)"
  have ok: "list_all mount_ok (mpaths_by_vpath ps)" "paths_ok ps"
    using assms by (auto simp: mounts_ok_def list_all_iff)
  have "p_vpath p \<noteq> v" if p: "p \<in> set (butlast ?m)" for p
  proof
    assume v: "p_vpath p = v"
    have ne: "?m \<noteq> []" and pm: "p \<in> set ?m" using p by (auto dest: in_set_butlastD)
    have "v \<le> p_vpath (last ?m)" using sorted_last_max[OF sorted_matching pm] v by simp
    moreover have "p_vpath (last ?m) \<le> v" using last_in_set[OF ne] by (auto intro: prefix_le)
    ultimately have "p_vpath p = p_vpath (last ?m)" using v by simp
    then show False using last_not_in_butlast[OF distinct_matching[OF ok(2)] p] by simp
  qed
  then show ?thesis
    using get_path_loop_spec[OF ok(1), of v None remaining] by (simp add: permissions_get_path_def)
qed

lemma verdict_Inr: "verdict v remaining p = Inr (q, r) \<Longrightarrow> q = p"
  by (auto simp: verdict_def split: if_splits)

lemma get_path_Inr_iff:
  assumes "mounts_ok ps"
  shows "permissions_get_path ps v remaining = Inr (p, r) \<longleftrightarrow>
    longest_match ps v p \<and> verdict v remaining p = Inr (p, r)"
proof (cases "matching v (mpaths_by_vpath ps) = []")
  case True
  then have "\<not> longest_match ps v p" by (auto simp: longest_match_def filter_empty_conv)
  then show ?thesis using get_path_verdict[OF assms, of v remaining] True by auto
next
  case False
  let ?q = "last (matching v (mpaths_by_vpath ps))"
  have q: "longest_match ps v ?q" by (rule last_matching_longest[OF False])
  have "longest_match ps v p \<longleftrightarrow> p = ?q"
    using q longest_match_unique[of ps v] assms by (auto simp: mounts_ok_def)
  moreover have "permissions_get_path ps v remaining = verdict v remaining ?q"
    using get_path_verdict[OF assms, of v remaining] False by simp
  ultimately show ?thesis by (auto dest: verdict_Inr simp: verdict_def split: if_splits)
qed

lemma get_path_error:
  assumes "mounts_ok ps" and "permissions_get_path ps v remaining = Inl e"
  shows "e = ExceptionAccessDenied"
  using get_path_verdict[OF assms(1), of v remaining] assms(2)
  by (auto simp: verdict_def split: if_splits)

text \<open>C17: \<open>WfdePermissions::GetPath\<close> implements longest-prefix lookup. On well-formed mounts it
  answers with a mount exactly when that mount has the longest virtual path that is a prefix of
  the sought path, and either equals it (the caller's \<open>remaining\<close> is then left as it was) or is
  recursive (\<open>remaining\<close> is then the rest without its leading slashes). In every other case, a
  longest match that is not recursive included, it throws \<open>ExceptionAccessDenied\<close>.\<close>
theorem get_path_longest_prefix:
  assumes "mounts_ok ps"
  shows "(permissions_get_path ps v remaining = Inr (p, r) \<longleftrightarrow>
            longest_match ps v p \<and> verdict v remaining p = Inr (p, r))
       \<and> (permissions_get_path ps v remaining = Inl e \<longrightarrow> e = ExceptionAccessDenied)"
  using get_path_Inr_iff[OF assms] get_path_error[OF assms] by blast

lemma get_path_sound:
  assumes "mounts_ok ps" and "permissions_get_path ps v remaining = Inr (p, r)"
  shows "p \<in> set ps \<and> (v = p_vpath p \<and> r = remaining
           \<or> is_recursive p \<and> (\<exists>s. s \<noteq> [] \<and> v = p_vpath p @ s \<and> r = dropWhile (\<lambda>c. c = slash) s))"
proof -
  have "longest_match ps v p" and vd: "verdict v remaining p = Inr (p, r)"
    using get_path_Inr_iff[OF assms(1)] assms(2) by blast+
  then have "p \<in> set ps" and "prefix (p_vpath p) v" by (auto dest: longest_match_mem)
  then obtain s where v: "v = p_vpath p @ s" by (auto simp: prefix_def)
  then have "drop (length (p_vpath p)) v = s" by simp
  with \<open>p \<in> set ps\<close> vd v show ?thesis by (auto simp: verdict_def split: if_splits)
qed

lemma get_path_exact:
  assumes "mounts_ok ps" and "p \<in> set ps"
  shows "permissions_get_path ps (p_vpath p) remaining = Inr (p, remaining)"
proof -
  have "longest_match ps (p_vpath p) p"
    using assms(2) by (auto simp: longest_match_def prefix_length_le)
  then show ?thesis
    using get_path_Inr_iff[OF assms(1)] by (simp add: verdict_def)
qed

section \<open>Adding, copying and merging\<close>

lemma add_path_Inr:
  "permissions_add_path ps p = Inr ps' \<longleftrightarrow>
     p_vpath p \<notin> set (map p_vpath ps) \<and> p_ppath p \<notin> set (map p_ppath ps) \<and> ps' = ps @ [p]"
  by (auto simp: permissions_add_path_def mpaths_push_back_def)

lemma add_path_mounts_ok:
  "mounts_ok ps \<Longrightarrow> mount_ok p \<Longrightarrow> permissions_add_path ps p = Inr ps' \<Longrightarrow> mounts_ok ps'"
  by (auto simp: add_path_Inr mounts_ok_def paths_ok_def)

lemma merge_loop_step:
  "merge_loop ps (p # theirs) = merge_loop (mpaths_push_back ps p) theirs"
  by (simp add: mpaths_push_back_def)

lemma merge_loop_prefix: "prefix ps (merge_loop ps theirs)"
proof (induction theirs arbitrary: ps)
  case (Cons p theirs)
  have "prefix ps (mpaths_push_back ps p)" by (simp add: mpaths_push_back_def)
  then show ?case unfolding merge_loop_step using Cons by (blast intro: prefix_order.trans)
qed simp

lemma merge_loop_mounts_ok: "mounts_ok ps \<Longrightarrow> list_all mount_ok theirs \<Longrightarrow> mounts_ok (merge_loop ps theirs)"
proof (induction theirs arbitrary: ps)
  case (Cons p theirs)
  have "mounts_ok (mpaths_push_back ps p)"
    using Cons.prems by (auto simp: mounts_ok_def mpaths_push_back_def paths_ok_def)
  then show ?case unfolding merge_loop_step using Cons by simp
qed simp

lemma merge_mounts_ok: "mounts_ok ps \<Longrightarrow> mounts_ok qs \<Longrightarrow> mounts_ok (permissions_merge ps qs)"
  using merge_loop_mounts_ok[of ps qs]
  by (auto simp: permissions_merge_def permissions_get_paths_def mounts_ok_def)

lemma merge_loop_from: "q \<in> set (merge_loop ps theirs) \<Longrightarrow> q \<in> set ps \<or> q \<in> set theirs"
proof (induction theirs arbitrary: ps)
  case (Cons p theirs)
  have "set (mpaths_push_back ps p) \<subseteq> insert p (set ps)" by (auto simp: mpaths_push_back_def)
  then show ?case using Cons.IH[of "mpaths_push_back ps p"] Cons.prems
    unfolding merge_loop_step by auto
qed simp

lemma merge_loop_covers:
  "q \<in> set theirs \<Longrightarrow> p_vpath q \<in> p_vpath ` set (merge_loop ps theirs)
     \<or> p_ppath q \<in> p_ppath ` set (merge_loop ps theirs)"
proof (induction theirs arbitrary: ps)
  case (Cons p theirs)
  show ?case
  proof (cases "q = p")
    case True
    have "p_vpath p \<in> p_vpath ` set (mpaths_push_back ps p) \<or> p_ppath p \<in> p_ppath ` set (mpaths_push_back ps p)"
      by (auto simp: mpaths_push_back_def)
    moreover have "set (mpaths_push_back ps p) \<subseteq> set (merge_loop (mpaths_push_back ps p) theirs)"
      by (intro set_mono_prefix merge_loop_prefix)
    ultimately show ?thesis unfolding merge_loop_step True by blast
  next
    case False
    then show ?thesis unfolding merge_loop_step using Cons by simp
  qed
qed simp

text \<open>Merging keeps the precedence of the object's own mounts. The own mounts come first,
  unchanged and in their order; every added mount is one of the other object's; every mount of
  the other object is present or conflicts, by virtual or by physical path, with one that is; and
  both indices stay unique.\<close>
lemma merge_precedence:
  assumes "mounts_ok ps" and "mounts_ok perms"
  shows "prefix ps (permissions_merge ps perms)
    \<and> set (permissions_merge ps perms) \<subseteq> set ps \<union> set perms
    \<and> list_all (\<lambda>q. p_vpath q \<in> p_vpath ` set (permissions_merge ps perms)
         \<or> p_ppath q \<in> p_ppath ` set (permissions_merge ps perms)) perms
    \<and> mounts_ok (permissions_merge ps perms)"
  using assms merge_loop_prefix[of ps perms] merge_loop_mounts_ok[of ps perms]
    merge_loop_from[of _ ps perms] merge_loop_covers[of _ perms ps]
  by (auto simp: permissions_merge_def permissions_get_paths_def list_all_iff mounts_ok_def)

section \<open>The interface\<close>

text \<open>
  What a session relies on when it asks the class \<open>Permissions\<close> of \<open>include/wfde/wfde.h\<close>: lookups
  are sound, a mount is found under its own virtual path, errors are access errors, and adding
  and merging keep what was there.
\<close>

locale permission_provider =
  fixes lookup :: "'perms \<Rightarrow> string \<Rightarrow> string \<Rightarrow> exn + 'p wpath \<times> string"
    and add :: "'perms \<Rightarrow> 'p wpath \<Rightarrow> exn + 'perms"
    and merge :: "'perms \<Rightarrow> 'perms \<Rightarrow> 'perms"
    and mounts :: "'perms \<Rightarrow> 'p wpath list"
    and ok :: "'perms \<Rightarrow> bool"
  assumes lookup_sound: "ok perms \<Longrightarrow> lookup perms v remaining = Inr (p, r) \<Longrightarrow>
      p \<in> set (mounts perms) \<and> (v = p_vpath p \<and> r = remaining
        \<or> is_recursive p \<and> (\<exists>s. s \<noteq> [] \<and> v = p_vpath p @ s \<and> r = dropWhile (\<lambda>c. c = slash) s))"
    and lookup_exact: "ok perms \<Longrightarrow> p \<in> set (mounts perms) \<Longrightarrow>
      lookup perms (p_vpath p) remaining = Inr (p, remaining)"
    and lookup_error: "ok perms \<Longrightarrow> lookup perms v remaining = Inl e \<Longrightarrow> e = ExceptionAccessDenied"
    and add_mounts: "add perms p = Inr perms' \<Longrightarrow> mounts perms' = mounts perms @ [p]"
    and add_ok: "ok perms \<Longrightarrow> mount_ok p \<Longrightarrow> add perms p = Inr perms' \<Longrightarrow> ok perms'"
    and merge_ok: "ok perms \<Longrightarrow> ok perms2 \<Longrightarrow> ok (merge perms perms2)"
    and merge_mounts: "prefix (mounts perms) (mounts (merge perms perms2))"
begin

lemma added_found:
  "ok perms \<Longrightarrow> mount_ok p \<Longrightarrow> add perms p = Inr perms' \<Longrightarrow>
     lookup perms' (p_vpath p) remaining = Inr (p, remaining)"
  using add_mounts add_ok lookup_exact by simp

lemma merged_found:
  assumes "ok perms" and "ok perms2" and "p \<in> set (mounts perms)"
  shows "lookup (merge perms perms2) (p_vpath p) remaining = Inr (p, remaining)"
proof -
  have "p \<in> set (mounts (merge perms perms2))"
    using assms(3) set_mono_prefix[OF merge_mounts] by blast
  then show ?thesis using lookup_exact merge_ok[OF assms(1,2)] by blast
qed

text \<open>The rest of a lookup can only be appended below the mount: it holds no \<open>..\<close>.\<close>

lemma remaining_inner:
  assumes "ok perms" and "lookup perms v [] = Inr (p, r)" and "no_climb v"
  shows "list_all inner_part (split_path r)"
proof -
  from lookup_sound[OF assms(1,2)] have "sublist r v"
    by (metis sublist_Nil_left sublist_append_leftI sublist_dropWhile sublist_order.order.trans)
  then show ?thesis using assms(3) no_climb_sublist split_inner by blast
qed

lemma resolved_below_mount:
  assumes "ok perms" and "lookup perms v [] = Inr (p, r)" and "no_climb v"
  shows "\<exists>m \<in> set (mounts perms). \<exists>parts. list_all inner_part parts
     \<and> p_ppath (create_subpath fs p r ty) = fold (\<lambda>n q. fs_append fs q n) parts (p_ppath m)
     \<and> p_permbits (create_subpath fs p r ty) = p_permbits m"
proof (intro bexI exI conjI)
  show "p \<in> set (mounts perms)" using lookup_sound[OF assms(1,2)] by blast
  show "list_all inner_part (split_path r)" by (rule remaining_inner[OF assms])
  show "p_ppath (create_subpath fs p r ty) = fold (\<lambda>n q. fs_append fs q n) (split_path r) (p_ppath p)"
    using subpath_loop_fst[of fs "p_ppath p" "p_vpath p" "split_path r"]
    by (simp add: create_subpath_def case_prod_beta mk_path_def)
  show "p_permbits (create_subpath fs p r ty) = p_permbits p"
    by (simp add: create_subpath_def case_prod_beta mk_path_def)
qed

end

interpretation wp: permission_provider permissions_get_path permissions_add_path permissions_merge
  permissions_get_paths mounts_ok
proof (unfold_locales, goal_cases)
  case 1
  then show ?case using get_path_sound by (simp add: permissions_get_paths_def)
next
  case 2
  then show ?case using get_path_exact by (simp add: permissions_get_paths_def)
next
  case 3
  then show ?case by (rule get_path_error)
next
  case 4
  then show ?case by (simp add: add_path_Inr permissions_get_paths_def)
next
  case 5
  then show ?case by (auto intro: add_path_mounts_ok)
next
  case 6
  then show ?case by (rule merge_mounts_ok)
next
  case 7
  show ?case by (simp add: permissions_merge_def permissions_get_paths_def merge_loop_prefix)
qed

text \<open>A mount that was added is found under its own path with its own rights, whatever other
  mounts cover that path, and it is still found after merging in the permissions of a parent
  entity.\<close>
theorem added_mount_found:
  assumes "mounts_ok ps" and "mount_ok p" and "permissions_add_path ps p = Inr ps'" and "mounts_ok qs"
  shows "permissions_get_path ps' (p_vpath p) rem = Inr (p, rem)
    \<and> permissions_get_path (permissions_merge ps' qs) (p_vpath p) rem = Inr (p, rem)"
proof -
  have ok: "mounts_ok ps'" using wp.add_ok[OF assms(1-3)] .
  have "p \<in> set (permissions_get_paths ps')" using wp.add_mounts[OF assms(3)] by simp
  then show ?thesis using wp.lookup_exact[OF ok] wp.merged_found[OF ok assms(4)] by blast
qed

text \<open>A mount boundary is not looked at. When a recursive mount is the longest match of a path
  that goes on after it without a slash, the lookup answers with this mount, exactly as for the
  path with a slash in between: \<open>/pubx\<close> is served as \<open>/pub/x\<close>.\<close>
theorem get_path_ignores_boundary:
  assumes "mounts_ok ps" and "is_recursive p" and "s \<noteq> []" and "hd s \<noteq> slash"
    and "longest_match ps (p_vpath p @ s) p" and "longest_match ps (p_vpath p @ slash # s) p"
  shows "permissions_get_path ps (p_vpath p @ s) rem = Inr (p, s)
    \<and> permissions_get_path ps (p_vpath p @ slash # s) rem = Inr (p, s)"
proof -
  have "dropWhile (\<lambda>c. c = slash) s = s" using assms(3,4) by (cases s) auto
  then have "verdict (p_vpath p @ s) rem p = Inr (p, s)" "verdict (p_vpath p @ slash # s) rem p = Inr (p, s)"
    using assms(2,3) by (auto simp: verdict_def)
  then show ?thesis using get_path_Inr_iff[OF assms(1)] assms(5,6) by blast
qed

lemma create_permissions_loop_spec:
  assumes "create_permissions_loop fs ops conf names ps = Inr ps'" and "paths_ok ps"
  shows "paths_ok ps' \<and> prefix ps ps' \<and> length ps' = length ps + length names"
  using assms
proof (induction names arbitrary: ps)
  case (Cons name names)
  then obtain bits qs where
    "permissions_add_path ps (mk_path (cf_get_value ops conf (slash # name @ ''/Name'') None)
       (fs_path fs (cf_get_value ops conf (slash # name @ ''/Path'') None)) bits DIRECTORY) = Inr qs"
    "create_permissions_loop fs ops conf names qs = Inr ps'"
    by (auto simp: Let_def)
  moreover from this Cons.prems(2) have "paths_ok qs" "prefix ps qs" "length qs = Suc (length ps)"
    by (auto simp: add_path_Inr paths_ok_def)
  ultimately show ?case using Cons.IH[of qs] by (auto intro: prefix_order.trans)
qed simp

lemma create_permissions_paths_ok: "create_permissions fs ops conf = Inr ps \<Longrightarrow> paths_ok ps"
  using create_permissions_loop_spec[of fs ops conf _ "[]" ps] by (auto simp: create_permissions_def)

text \<open>Permissions read from the configuration are well-formed. When \<open>CreatePermissions\<close>
  succeeds, it made one mount for each configured node and no two share a virtual or a physical
  path.\<close>
theorem create_permissions_ok:
  assumes "create_permissions fs ops conf = Inr ps"
  shows "paths_ok ps \<and> length ps = length (cf_enum_nodes ops conf [])"
  using assms create_permissions_loop_spec[of fs ops conf _ "[]" ps]
  by (auto simp: create_permissions_def)

section \<open>Mounts for the witnesses\<close>

text \<open>Some of the mounts of \<open>tests/test_WfdePermissions.cpp\<close>, and a configuration of two.\<close>

definition demo_mounts :: "demo_path paths" where
  "demo_mounts =
     [mk_path ''/'' [''tmp''] (to_perm_bits [CAN_ENTER, CAN_LIST, CAN_READ, IS_RECURSIVE]) DIRECTORY,
      mk_path ''/pub'' [''pubfiles''] (to_perm_bits [CAN_ENTER, CAN_LIST, CAN_READ, IS_RECURSIVE]) DIRECTORY,
      mk_path ''/pub/src'' [''src''] (to_perm_bits [CAN_ENTER, CAN_LIST]) DIRECTORY]"

definition demo_config :: "(string \<times> string) list config_ops" where
  "demo_config =
     \<lparr>cf_get_value = (\<lambda>c p d. case map_of c p of Some v \<Rightarrow> v | None \<Rightarrow> (case d of Some x \<Rightarrow> x | None \<Rightarrow> [])),
      cf_have_value = (\<lambda>c p. map_of c p \<noteq> None),
      cf_can_write = (\<lambda>c p. True),
      cf_set_value = (\<lambda>c p v. (p, v) # c),
      cf_enum_nodes = (\<lambda>c p. [''a'', ''b''])\<rparr>"

definition demo_config_data :: "(string \<times> string) list" where
  "demo_config_data =
     [(''/a/Name'', ''/''), (''/a/Path'', ''/srv''), (''/a/Perms'', ''CAN_LIST,IS_RECURSIVE''),
      (''/b/Name'', ''/up''), (''/b/Path'', ''/up''), (''/b/Perms'', ''CAN_CREATE_FILE'')]"

lemma demo_mounts_ok: "mounts_ok demo_mounts"
  by (simp add: mounts_ok_def paths_ok_def demo_mounts_def mk_path_def make_valid_def mount_ok_def)

theorem get_path_longest_prefix_witness:
  "permissions_get_path demo_mounts ''/pub/src/whid'' [] \<noteq> Inr (hd demo_mounts, ''pub/src/whid'')"
proof -
  have "\<not> longest_match demo_mounts ''/pub/src/whid'' (hd demo_mounts)"
    by (simp add: longest_match_def demo_mounts_def mk_path_def make_valid_def)
  then show ?thesis using get_path_longest_prefix[OF demo_mounts_ok] by blast
qed

lemma merge_precedence_demo:
  "prefix demo_mounts (permissions_merge demo_mounts demo_mounts)"
  using merge_precedence[OF demo_mounts_ok demo_mounts_ok] by blast

theorem added_mount_found_witness:
  "permissions_get_path (demo_mounts @ [mk_path ''/home'' [''home''] 0 DIRECTORY]) ''/home'' []
     = Inr (mk_path ''/home'' [''home''] 0 DIRECTORY, [])"
proof -
  let ?p = "mk_path ''/home'' [''home''] 0 DIRECTORY"
  have 1: "mount_ok ?p" by (simp add: mount_ok_def mk_path_def make_valid_def)
  have 2: "permissions_add_path demo_mounts ?p = Inr (demo_mounts @ [?p])"
    by (simp add: add_path_Inr demo_mounts_def mk_path_def make_valid_def)
  show ?thesis using added_mount_found[OF demo_mounts_ok 1 2 demo_mounts_ok, of "[]"]
    by (simp add: mk_path_def make_valid_def)
qed

theorem get_path_ignores_boundary_witness:
  "permissions_get_path demo_mounts ''/pubx'' [] = Inr (demo_mounts ! 1, ''x'')"
proof -
  let ?p = "demo_mounts ! 1"
  have 1: "is_recursive ?p"
    by (simp add: demo_mounts_def mk_path_def accessors_has_perm to_perm_bits_def)
  have 2: "longest_match demo_mounts (p_vpath ?p @ ''x'') ?p" "longest_match demo_mounts (p_vpath ?p @ slash # ''x'') ?p"
    by (simp_all add: longest_match_def demo_mounts_def mk_path_def make_valid_def)
  show ?thesis using get_path_ignores_boundary[OF demo_mounts_ok 1 _ _ 2, of "[]"]
    by (simp add: demo_mounts_def mk_path_def make_valid_def)
qed

theorem create_permissions_ok_witness:
  "\<exists>ps. create_permissions demo_fs demo_config demo_config_data = Inr ps \<and> length ps = 2"
proof -
  have "\<not> isl (create_permissions demo_fs demo_config demo_config_data)" by code_simp
  then obtain ps where ps: "create_permissions demo_fs demo_config demo_config_data = Inr ps"
    by (cases "create_permissions demo_fs demo_config demo_config_data") auto
  show ?thesis using create_permissions_ok[OF ps] ps by (simp add: demo_config_def)
qed

end
