(* ===== verification/AuthManager.thy ===== *)
theory AuthManager
  imports WfdePermissions
begin

text \<open>
  Authentication: the interface \<open>AuthManager\<close> of \<open>include/wfde/wfde.h\<close> as the record \<open>auth_ops\<close>
  with the locale \<open>authenticator\<close> for its contract, and the implementation of the daemon,
  \<open>src/wfded/AuthManager.h\<close>. The map of the users, ordered by \<open>strcasecmp\<close>, is an association
  list whose keys differ by more than case; its values are shared pointers, so they are indices
  into the list of the client objects (an alias shares the object). The random uuid of a client,
  which is only printed, is left out.
\<close>

section \<open>The interface\<close>

record ('am, 'cl, 'p) auth_ops =
  au_login :: "'am \<Rightarrow> string \<Rightarrow> string \<Rightarrow> (exn + 'cl) \<times> 'am"
  au_get_permissions :: "'am \<Rightarrow> 'cl \<Rightarrow> 'p paths option"
  au_get_login_name :: "'am \<Rightarrow> 'cl \<Rightarrow> string"

section \<open>The daemon's authentication manager\<close>

text \<open>\<open>strcasecmp(a.c_str(), b.c_str()) == 0\<close> in the C locale.\<close>

definition ascii_lower :: "char \<Rightarrow> char" where
  "ascii_lower c = (if CHR ''A'' \<le> c \<and> c \<le> CHR ''Z'' then char_of (of_char c + 32 :: nat) else c)"

definition ci_key :: "string \<Rightarrow> string" where
  "ci_key s = map ascii_lower (takeWhile (\<lambda>c. c \<noteq> nul) s)"

record 'p client_impl =
  ci_name :: string
  ci_pwd :: string
  ci_instance_count :: int
  ci_permissions :: "'p paths"

record 'p auth_manager =
  am_clients :: "(string \<times> nat) list"
  am_impls :: "'p client_impl list"

text \<open>\<open>std::map::find\<close> and \<open>operator[] =\<close> under the case-insensitive order.\<close>

fun clients_find :: "(string \<times> nat) list \<Rightarrow> string \<Rightarrow> nat option" where
  "clients_find [] name = None"
| "clients_find ((k, v) # cs) name = (if ci_key k = ci_key name then Some v else clients_find cs name)"

fun clients_set :: "(string \<times> nat) list \<Rightarrow> string \<Rightarrow> nat \<Rightarrow> (string \<times> nat) list" where
  "clients_set [] name v = [(name, v)]"
| "clients_set ((k, u) # cs) name v =
     (if ci_key k = ci_key name then (k, v) # cs else (k, u) # clients_set cs name v)"

text \<open>
  \<open>ClientImpl::ClientImpl\<close> does not initialise the instance counter, so its first value is an
  argument of the model; \<open>ClientProxy\<close>'s constructor and destructor count the sessions.
\<close>

definition client_impl_new :: "int \<Rightarrow> string \<Rightarrow> string \<Rightarrow> 'p paths \<Rightarrow> 'p client_impl" where
  "client_impl_new garbage name pwd perms =
     \<lparr>ci_name = name, ci_pwd = pwd, ci_instance_count = garbage, ci_permissions = perms\<rparr>"

definition inc_instance_counter :: "'p client_impl \<Rightarrow> 'p client_impl" where
  "inc_instance_counter c = c\<lparr>ci_instance_count := ci_instance_count c + 1\<rparr>"

definition dec_instance_counter :: "'p client_impl \<Rightarrow> 'p client_impl" where
  "dec_instance_counter c = c\<lparr>ci_instance_count := ci_instance_count c - 1\<rparr>"

definition client_proxy_new :: "'p auth_manager \<Rightarrow> nat \<Rightarrow> 'p auth_manager" where
  "client_proxy_new am i = am\<lparr>am_impls := (am_impls am)[i := inc_instance_counter (am_impls am ! i)]\<rparr>"

definition client_proxy_delete :: "'p auth_manager \<Rightarrow> nat \<Rightarrow> 'p auth_manager" where
  "client_proxy_delete am i = am\<lparr>am_impls := (am_impls am)[i := dec_instance_counter (am_impls am ! i)]\<rparr>"

text \<open>
  \<open>AuthManagerImpl::AuthManagerImpl\<close>: one entry per node of the configuration. A node with a
  value is an alias of a user that was read before it.
\<close>

definition auth_manager_add ::
    "('p, 'w) fs_ops \<Rightarrow> 'c config_ops \<Rightarrow> 'c \<Rightarrow> int \<Rightarrow> string \<Rightarrow> 'p auth_manager \<Rightarrow> exn + 'p auth_manager" where
  "auth_manager_add fs ops conf garbage node am =
     (let links_to = cf_get_value ops conf node (Some [])
      in if links_to \<noteq> [] then
           (case clients_find (am_clients am) links_to of
              None \<Rightarrow> Inl ExceptionNotFound
            | Some i \<Rightarrow> Inr (am\<lparr>am_clients := clients_set (am_clients am) node i\<rparr>))
         else
           bindE (create_permissions fs (sub_config_ops ops) (get_config_for_path conf (node @ ''/Paths'')))
             (\<lambda>perms.
                let pwd = cf_get_value ops conf (node @ ''/Passwd'') (Some [])
                in Inr (am\<lparr>am_clients := clients_set (am_clients am) node (length (am_impls am)),
                           am_impls := am_impls am @ [client_impl_new garbage node pwd perms]\<rparr>)))"

fun auth_manager_load ::
    "('p, 'w) fs_ops \<Rightarrow> 'c config_ops \<Rightarrow> 'c \<Rightarrow> int \<Rightarrow> string list \<Rightarrow> 'p auth_manager \<Rightarrow> exn + 'p auth_manager" where
  "auth_manager_load fs ops conf garbage [] am = Inr am"
| "auth_manager_load fs ops conf garbage (node # nodes) am =
     bindE (auth_manager_add fs ops conf garbage node am)
       (auth_manager_load fs ops conf garbage nodes)"

definition auth_manager_new ::
    "('p, 'w) fs_ops \<Rightarrow> 'c config_ops \<Rightarrow> 'c \<Rightarrow> int \<Rightarrow> exn + 'p auth_manager" where
  "auth_manager_new fs ops conf garbage =
     auth_manager_load fs ops conf garbage (cf_enum_nodes ops conf [])
       \<lparr>am_clients = [], am_impls = []\<rparr>"

text \<open>\<open>AuthManagerImpl::Login\<close>.\<close>

definition auth_login ::
    "'p auth_manager \<Rightarrow> string \<Rightarrow> string \<Rightarrow> (exn + nat) \<times> 'p auth_manager" where
  "auth_login am name pwd =
     (case clients_find (am_clients am) name of
        None \<Rightarrow> (Inl ExceptionNotFound, am)
      | Some i \<Rightarrow>
          let cli_pwd = ci_pwd (am_impls am ! i)
          in if cli_pwd \<noteq> [] \<and> pwd = [] then (Inl ExceptionNeedPasswd, am)
             else if cli_pwd \<noteq> pwd then (Inl ExceptionBadCredentials, am)
             else (Inr i, client_proxy_new am i))"

definition auth_get_permissions :: "'p auth_manager \<Rightarrow> nat \<Rightarrow> 'p paths option" where
  "auth_get_permissions am i = Some (ci_permissions (am_impls am ! i))"

definition auth_get_login_name :: "'p auth_manager \<Rightarrow> nat \<Rightarrow> string" where
  "auth_get_login_name am i = ci_name (am_impls am ! i)"

definition wfded_auth :: "('p auth_manager, nat, 'p) auth_ops" where
  "wfded_auth =
     \<lparr>au_login = auth_login, au_get_permissions = auth_get_permissions,
      au_get_login_name = auth_get_login_name\<rparr>"

section \<open>The invariant of the user cache\<close>

abbreviation client_keys :: "(string \<times> nat) list \<Rightarrow> string list" where
  "client_keys cs \<equiv> map (\<lambda>kv. ci_key (fst kv)) cs"

definition am_ok :: "'p auth_manager \<Rightarrow> bool" where
  "am_ok am \<longleftrightarrow> distinct (client_keys (am_clients am))
     \<and> list_all (\<lambda>(k, i). i < length (am_impls am)) (am_clients am)
     \<and> list_all (\<lambda>c. paths_ok (ci_permissions c)) (am_impls am)"

lemma clients_find_set:
  "clients_find (clients_set cs name v) n = (if ci_key name = ci_key n then Some v else clients_find cs n)"
  by (induction cs) auto

lemma clients_set_keys:
  "client_keys (clients_set cs name v) =
     (if ci_key name \<in> set (client_keys cs) then client_keys cs else client_keys cs @ [ci_key name])"
proof (induction cs)
  case (Cons kv cs)
  then show ?case by (cases kv; cases "ci_key name \<in> set (client_keys cs)") auto
qed simp

lemma clients_set_values:
  "list_all (\<lambda>(k, i). P i) cs \<Longrightarrow> P v \<Longrightarrow> list_all (\<lambda>(k, i). P i) (clients_set cs name v)"
  by (induction cs) auto

lemma clients_find_mem: "clients_find cs name = Some i \<Longrightarrow> \<exists>k. (k, i) \<in> set cs \<and> ci_key k = ci_key name"
  by (induction cs) (auto split: if_splits)

lemma clients_find_ci: "ci_key a = ci_key b \<Longrightarrow> clients_find cs a = clients_find cs b"
  by (induction cs) auto

lemma clients_find_bound: "am_ok am \<Longrightarrow> clients_find (am_clients am) name = Some i \<Longrightarrow> i < length (am_impls am)"
  using clients_find_mem[of "am_clients am" name i] by (auto simp: am_ok_def list_all_iff)

lemma am_ok_add:
  assumes "am_ok am" and "auth_manager_add fs ops conf garbage node am = Inr am'"
  shows "am_ok am'"
proof (cases "cf_get_value ops conf node (Some []) = []")
  case True
  with assms(2) obtain perms where
    perms: "create_permissions fs (sub_config_ops ops) (get_config_for_path conf (node @ ''/Paths'')) = Inr perms"
    and am': "am' = am\<lparr>am_clients := clients_set (am_clients am) node (length (am_impls am)),
        am_impls := am_impls am @ [client_impl_new garbage node (cf_get_value ops conf (node @ ''/Passwd'') (Some [])) perms]\<rparr>"
    by (auto simp: auth_manager_add_def Let_def)
  have "paths_ok perms" using create_permissions_paths_ok[OF perms] .
  moreover have "list_all (\<lambda>(k, i). i < Suc (length (am_impls am))) (am_clients am)"
    using assms(1) by (auto simp: am_ok_def list_all_iff)
  ultimately show ?thesis using assms(1) clients_set_values[of "\<lambda>i. i < Suc (length (am_impls am))"]
    by (simp add: am' am_ok_def clients_set_keys client_impl_new_def)
next
  case False
  with assms(2) obtain i where i: "clients_find (am_clients am) (cf_get_value ops conf node (Some [])) = Some i"
    and am': "am' = am\<lparr>am_clients := clients_set (am_clients am) node i\<rparr>"
    by (auto simp: auth_manager_add_def Let_def split: option.splits)
  show ?thesis using assms(1) clients_find_bound[OF assms(1) i]
      clients_set_values[of "\<lambda>i. i < length (am_impls am)"]
    by (simp add: am' am_ok_def clients_set_keys)
qed

lemma am_ok_load:
  "am_ok am \<Longrightarrow> auth_manager_load fs ops conf garbage nodes am = Inr am' \<Longrightarrow> am_ok am'"
  by (induction nodes arbitrary: am) (auto dest: am_ok_add)

text \<open>The password on file of the user a name denotes, aliases and letter case resolved.\<close>

definition password_of :: "'p auth_manager \<Rightarrow> string \<Rightarrow> string option" where
  "password_of am name = map_option (\<lambda>i. ci_pwd (am_impls am ! i)) (clients_find (am_clients am) name)"

lemma auth_login_Inr:
  "fst (auth_login am name pwd) = Inr i \<longleftrightarrow>
     clients_find (am_clients am) name = Some i \<and> ci_pwd (am_impls am ! i) = pwd"
  by (auto simp: auth_login_def Let_def split: option.splits)

lemma am_ok_proxy: "am_ok am \<Longrightarrow> am_ok (client_proxy_new am i)"
  by (auto simp: am_ok_def client_proxy_new_def inc_instance_counter_def list_all_length nth_update_apply)

lemma am_ok_login: "am_ok am \<Longrightarrow> am_ok (snd (auth_login am name pwd))"
  by (auto simp: auth_login_def Let_def am_ok_proxy split: option.splits)

lemma password_of_proxy: "am_ok am \<Longrightarrow> password_of (client_proxy_new am i) name = password_of am name"
  using clients_find_bound[of am name]
  by (cases "clients_find (am_clients am) name")
     (auto simp: password_of_def client_proxy_new_def inc_instance_counter_def nth_update_apply)

section \<open>The contract of an authentication manager\<close>

text \<open>
  What a session relies on: a login succeeds exactly with the password on file, the errors tell an
  unknown user, a missing password and a wrong one apart, and logging in changes no password.
\<close>

locale authenticator =
  fixes login :: "'am \<Rightarrow> string \<Rightarrow> string \<Rightarrow> (exn + 'cl) \<times> 'am"
    and on_file :: "'am \<Rightarrow> string \<Rightarrow> string option"
    and ok :: "'am \<Rightarrow> bool"
  assumes login_ok: "ok am \<Longrightarrow> ok (snd (login am name pwd))"
    and login_keeps: "ok am \<Longrightarrow> on_file (snd (login am name pwd)) n = on_file am n"
    and login_success: "ok am \<Longrightarrow> (\<exists>c. fst (login am name pwd) = Inr c) \<longleftrightarrow> on_file am name = Some pwd"
    and login_unknown: "ok am \<Longrightarrow> on_file am name = None \<Longrightarrow> fst (login am name pwd) = Inl ExceptionNotFound"
    and login_need: "ok am \<Longrightarrow> on_file am name = Some p \<Longrightarrow> p \<noteq> [] \<Longrightarrow>
      fst (login am name []) = Inl ExceptionNeedPasswd"
    and login_bad: "ok am \<Longrightarrow> on_file am name = Some p \<Longrightarrow> p \<noteq> pwd \<Longrightarrow> p = [] \<or> pwd \<noteq> [] \<Longrightarrow>
      fst (login am name pwd) = Inl ExceptionBadCredentials"
begin

lemma login_answer:
  assumes "ok am"
  shows "case fst (login am name pwd) of
      Inr c \<Rightarrow> on_file am name = Some pwd
    | Inl e \<Rightarrow> on_file am name \<noteq> Some pwd
        \<and> e = (if on_file am name = None then ExceptionNotFound
               else if pwd = [] then ExceptionNeedPasswd else ExceptionBadCredentials)"
proof (cases "on_file am name")
  case None
  then show ?thesis using login_unknown[OF assms] by simp
next
  case (Some p)
  then show ?thesis
    using login_success[OF assms, of name pwd] login_need[OF assms, of name p]
      login_bad[OF assms, of name p pwd]
    by (cases "fst (login am name pwd)") auto
qed

lemma guesses_do_not_help:
  assumes "ok am"
  shows "ok (foldl (\<lambda>a (n, p). snd (login a n p)) am guesses)
    \<and> on_file (foldl (\<lambda>a (n, p). snd (login a n p)) am guesses) name = on_file am name"
  using assms
proof (induction guesses arbitrary: am)
  case (Cons g guesses)
  then show ?case using login_ok login_keeps by (cases g) simp
qed simp

end

interpretation wfded: authenticator auth_login password_of am_ok
proof (unfold_locales, goal_cases)
  case 1
  then show ?case by (rule am_ok_login)
next
  case (2 am name pwd n)
  then show ?case by (auto simp: auth_login_def Let_def password_of_proxy split: option.splits)
next
  case 3
  then show ?case by (auto simp: auth_login_Inr password_of_def)
qed (auto simp: auth_login_def password_of_def Let_def)

text \<open>
  What a session relies on for its mounts: those of a user who has just logged in are well-formed, and
  a login keeps the authentication manager in such a state.
\<close>

locale mount_provider =
  fixes au :: "('am, 'cl, 'p) auth_ops"
    and ok :: "'am \<Rightarrow> bool"
  assumes login_keeps_ok: "ok am \<Longrightarrow> ok (snd (au_login au am name pwd))"
    and user_mounts: "ok am \<Longrightarrow> fst (au_login au am name pwd) = Inr c \<Longrightarrow>
      au_get_permissions au (snd (au_login au am name pwd)) c = Some perms \<Longrightarrow> mounts_ok perms"

text \<open>The daemon is one, as long as its users have mounts with absolute virtual paths.\<close>

definition am_served :: "'p auth_manager \<Rightarrow> bool" where
  "am_served am \<longleftrightarrow> am_ok am \<and> list_all (\<lambda>c. mounts_ok (ci_permissions c)) (am_impls am)"

lemma am_served_login: "am_served am \<Longrightarrow> am_served (snd (auth_login am name pwd))"
  by (auto simp: am_served_def am_ok_login)
     (auto simp: auth_login_def Let_def client_proxy_new_def inc_instance_counter_def list_all_length
       nth_update_apply split: option.splits)

interpretation daemon: mount_provider wfded_auth am_served
proof (unfold_locales, goal_cases)
  case (1 am name pwd)
  then show ?case by (simp add: wfded_auth_def am_served_login)
next
  case (2 am name pwd c perms)
  have *: "am_served (snd (auth_login am name pwd))" using 2(1) by (rule am_served_login)
  have "clients_find (am_clients am) name = Some c" "am_ok am"
    using 2 by (simp_all add: wfded_auth_def auth_login_Inr am_served_def)
  then have "c < length (am_impls (snd (auth_login am name pwd)))"
    using clients_find_bound by (auto simp: auth_login_def Let_def client_proxy_new_def)
  then show ?case using 2(3) *
    by (auto simp: wfded_auth_def auth_get_permissions_def am_served_def list_all_length)
qed

text \<open>C26: the daemon authenticates with the password on file only. On a well-formed user cache,
  \<open>Login\<close> succeeds exactly when the user exists and the given password is the one on file; an
  unknown user, a missing password and a wrong one (any password for an anonymous account
  included) are told apart; and no sequence of earlier attempts changes the answer.\<close>
theorem login_only_with_password:
  assumes "am_ok am"
  shows "case fst (auth_login (foldl (\<lambda>a (n, p). snd (auth_login a n p)) am guesses) name pwd) of
      Inr c \<Rightarrow> password_of am name = Some pwd
    | Inl e \<Rightarrow> password_of am name \<noteq> Some pwd
        \<and> e = (if password_of am name = None then ExceptionNotFound
               else if pwd = [] then ExceptionNeedPasswd else ExceptionBadCredentials)"
  using wfded.login_answer[OF conjunct1[OF wfded.guesses_do_not_help[OF assms, of guesses name]], of name pwd]
  unfolding conjunct2[OF wfded.guesses_do_not_help[OF assms, of guesses name]] .

text \<open>User names are not case-sensitive. Two spellings of a name that differ in ASCII case only
  get the same answer, the same client object and leave the same user cache.\<close>
theorem login_case_insensitive:
  assumes "map ascii_lower a = map ascii_lower b" and "nul \<notin> set a" and "nul \<notin> set b"
  shows "auth_login am a pwd = auth_login am b pwd"
proof -
  have "ci_key a = ci_key b" using assms by (simp add: ci_key_def takeWhile_no)
  then have "clients_find (am_clients am) a = clients_find (am_clients am) b" by (rule clients_find_ci)
  then show ?thesis by (simp add: auth_login_def)
qed

text \<open>The user cache is well-formed after start-up. When the constructor succeeds, no two
  entries differ in letter case only, every entry (aliases included) refers to an existing client
  object, and each client's mounts have unique virtual and physical paths.\<close>
lemma auth_manager_new_ok:
  assumes "auth_manager_new fs ops conf garbage = Inr am"
  shows "am_ok am"
  using am_ok_load[OF _ assms[unfolded auth_manager_new_def]] by (simp add: am_ok_def)

section \<open>A user cache for the witnesses\<close>

definition demo_auth :: "demo_path auth_manager" where
  "demo_auth =
     \<lparr>am_clients = [(''anonymous'', 0), (''alice'', 1), (''ftp'', 0)],
      am_impls = [client_impl_new 0 ''anonymous'' [] demo_mounts,
                  client_impl_new 0 ''alice'' ''secret'' demo_mounts]\<rparr>"

lemma demo_auth_ok: "am_ok demo_auth"
proof -
  have "distinct (client_keys (am_clients demo_auth))" by code_simp
  moreover have "paths_ok demo_mounts" using demo_mounts_ok by (simp add: mounts_ok_def)
  ultimately show ?thesis by (simp add: am_ok_def demo_auth_def client_impl_new_def)
qed

theorem login_only_with_password_witness: "password_of demo_auth ''ALICE'' = Some ''secret''"
proof -
  have "fst (auth_login (foldl (\<lambda>a (n, p). snd (auth_login a n p)) demo_auth [(''alice'', ''guess'')])
      ''ALICE'' ''secret'') = Inr 1" by code_simp
  then show ?thesis
    using login_only_with_password[OF demo_auth_ok, where guesses = "[(''alice'', ''guess'')]"
        and name = "''ALICE''" and pwd = "''secret''"]
    by simp
qed

theorem login_case_insensitive_witness:
  "auth_login demo_auth ''Alice'' ''secret'' = auth_login demo_auth ''aLICE'' ''secret''"
proof -
  have "map ascii_lower ''Alice'' = map ascii_lower ''aLICE''" by code_simp
  then show ?thesis by (rule login_case_insensitive) simp_all
qed

text \<open>A configuration with one user, who has one mount, and an alias.\<close>

definition demo_users_ops :: "(string \<times> string) list config_ops" where
  "demo_users_ops = demo_config
     \<lparr>cf_enum_nodes := (\<lambda>c p. if p = [] then [''bob'', ''Robert''] else [''home''])\<rparr>"

definition demo_users :: "(string \<times> string) list" where
  "demo_users =
     [(''bob/Passwd'', ''pw''), (''Robert'', ''BOB''),
      (''bob/Paths/home/Name'', ''/''), (''bob/Paths/home/Path'', ''/home/bob''),
      (''bob/Paths/home/Perms'', ''CAN_READ,IS_RECURSIVE'')]"

lemma auth_manager_new_ok_demo:
  "\<exists>am. auth_manager_new demo_fs demo_users_ops demo_users 0 = Inr am \<and> am_ok am
     \<and> fst (auth_login am ''robert'' ''pw'') = Inr 0"
proof -
  have "\<not> isl (auth_manager_new demo_fs demo_users_ops demo_users 0)"
    and l: "bindE (auth_manager_new demo_fs demo_users_ops demo_users 0)
        (\<lambda>am. fst (auth_login am ''robert'' ''pw'')) = Inr 0"
    by code_simp+
  then obtain am where am: "auth_manager_new demo_fs demo_users_ops demo_users 0 = Inr am"
    by (cases "auth_manager_new demo_fs demo_users_ops demo_users 0") auto
  show ?thesis using auth_manager_new_ok[OF am] am l by simp
qed

end
