(* ===== verification/WfdeSession.thy ===== *)
theory WfdeSession
  imports AuthManager WfdeFile "HOL-Library.Signed_Division"
begin

text \<open>
  A session: \<open>src/wfde/WfdeSession.{h,cpp}\<close>. The state is the record \<open>session\<close>; the disk (\<open>'w\<close>) and
  the authentication manager (\<open>'am\<close>) are threaded beside it. The steady clock is a number of
  nanoseconds, an argument of the operations that read it. The mutex, the socket, the protocol, the
  uuid and the owned data are left out; \<open>page\<close> is the page size of the system.
\<close>

section \<open>State\<close>

record ('p, 'cl) session =
  ses_client :: "'cl option"
  ses_login_time :: int
  ses_last_activity :: int
  ses_last_activity_cached :: int
  ses_cached_idle :: "64 word"
  ses_closed :: bool
  ses_cwd :: string
  ses_permissions :: "'p paths"
  ses_time_out_secs :: "32 word"

text \<open>\<open>duration_cast<seconds>\<close> truncates towards zero.\<close>

definition duration_secs :: "int \<Rightarrow> int" where
  "duration_secs ns = ns sdiv 1000000000"

definition session_touch :: "int \<Rightarrow> ('p, 'cl) session \<Rightarrow> ('p, 'cl) session" where
  "session_touch now s =
     (let cached_duration = now - ses_last_activity_cached s;
          s = s\<lparr>ses_last_activity := now\<rparr>
      in if duration_secs cached_duration \<noteq> 0
         then s\<lparr>ses_last_activity_cached := now, ses_cached_idle := 0\<rparr> else s)"

text \<open>
  The constructor. The login times are never set, so they are the epoch of the clock; the cached
  idle time has no initial value, which is the argument \<open>garbage\<close>. The protocol sets the
  permissions next (\<open>SetPermissions\<close>).
\<close>

definition wfde_session_new ::
    "64 word \<Rightarrow> int \<Rightarrow> 'cl option \<Rightarrow> 32 word \<Rightarrow> ('p, 'cl) session" where
  "wfde_session_new garbage now client time_out =
     session_touch now
       \<lparr>ses_client = client, ses_login_time = 0, ses_last_activity = 0,
        ses_last_activity_cached = 0, ses_cached_idle = garbage, ses_closed = False,
        ses_cwd = ''/'', ses_permissions = [], ses_time_out_secs = time_out\<rparr>"

definition session_set_permissions :: "('p, 'cl) session \<Rightarrow> 'p paths \<Rightarrow> ('p, 'cl) session" where
  "session_set_permissions s perms = s\<lparr>ses_permissions := perms\<rparr>"

definition session_get_elapsed_time :: "int \<Rightarrow> ('p, 'cl) session \<Rightarrow> int" where
  "session_get_elapsed_time now s = now - ses_login_time s"

definition session_get_idle_time :: "int \<Rightarrow> ('p, 'cl) session \<Rightarrow> int" where
  "session_get_idle_time now s = now - ses_login_time s"

text \<open>The seconds pass through \<open>int\<close> on their way into \<open>uint_fast32_t\<close> (64 bits wide).\<close>

definition session_update_idle_time :: "int \<Rightarrow> ('p, 'cl) session \<Rightarrow> ('p, 'cl) session" where
  "session_update_idle_time now s =
     s\<lparr>ses_cached_idle :=
         word_of_int (sint (word_of_int (duration_secs (now - ses_last_activity s)) :: 32 word))\<rparr>"

definition session_on_housekeeping :: "int \<Rightarrow> ('p, 'cl) session \<Rightarrow> bool \<times> ('p, 'cl) session" where
  "session_on_housekeeping now s =
     (let s = session_update_idle_time now s
      in if ses_cached_idle s > ucast (ses_time_out_secs s) then (False, s) else (True, s))"

definition session_close :: "('p, 'cl) session \<Rightarrow> ('p, 'cl) session" where
  "session_close s = (if \<not> ses_closed s then s\<lparr>ses_closed := True\<rparr> else s)"

section \<open>Authentication\<close>

definition authenticate_with_passwd ::
    "('am, 'cl, 'p) auth_ops \<Rightarrow> string \<Rightarrow> string \<Rightarrow> 'am \<times> ('p, 'cl) session \<Rightarrow>
     (exn + bool) \<times> 'am \<times> ('p, 'cl) session" where
  "authenticate_with_passwd au name pwd ams =
     (let (am, s) = ams
      in if ses_client s \<noteq> None then (Inl ExceptionAlreadyLoggedIn, am, s)
         else (case au_login au am name pwd of
             (Inr client, am) \<Rightarrow>
               let s = (case au_get_permissions au am client of
                          None \<Rightarrow> s
                        | Some perms \<Rightarrow>
                            session_set_permissions s
                              (permissions_merge (permissions_copy perms) (ses_permissions s)))
               in (Inr True, am, s\<lparr>ses_client := Some client\<rparr>)
           | (Inl e, am) \<Rightarrow>
               if e \<in> {ExceptionBadCredentials, ExceptionNeedPasswd, ExceptionNotFound}
               then (Inr False, am, s) else (Inl e, am, s)))"

section \<open>Paths\<close>

definition session_get_path ::
    "('p, 'w) fs_ops \<Rightarrow> ('p, 'cl) session \<Rightarrow> string \<Rightarrow> path_type \<Rightarrow> exn + 'p wpath" where
  "session_get_path fs s vpath ty =
     bindE (normalize vpath (ses_cwd s)) (\<lambda>v.
       bindE (permissions_get_path (ses_permissions s) v []) (\<lambda>(best_match, remaining).
         Inr (create_subpath fs best_match remaining ty)))"

definition session_get_cwd :: "('p, 'cl) session \<Rightarrow> string" where
  "session_get_cwd s = ses_cwd s"

definition session_set_cwd ::
    "('p, 'w) fs_ops \<Rightarrow> 'w \<Rightarrow> string \<Rightarrow> ('p, 'cl) session \<Rightarrow> (exn + unit) \<times> ('p, 'cl) session" where
  "session_set_cwd fs w path s =
     bindS (session_get_path fs s path DIRECTORY, s) (\<lambda>dir s.
       if \<not> can_enter dir then (Inl ExceptionAccessDenied, s)
       else bindS (path_exists fs w dir, s) (\<lambda>ex s.
         if \<not> ex then (Inl ExceptionAccessDenied, s)
         else (Inr (), s\<lparr>ses_cwd := p_vpath dir\<rparr>)))"

definition session_get_path_for_listing ::
    "('p, 'w) fs_ops \<Rightarrow> 'w \<Rightarrow> ('p, 'cl) session \<Rightarrow> string \<Rightarrow> exn + 'p wpath" where
  "session_get_path_for_listing fs w s vpath =
     bindE (session_get_path fs s vpath DIRECTORY) (\<lambda>path.
       bindE (path_exists fs w path) (\<lambda>ex.
         if \<not> ex then Inl ExceptionNotFound
         else if \<not> can_list path then Inl ExceptionAccessDenied
         else Inr path))"

text \<open>The loop of \<open>GetVpaths\<close>; \<open>haves\<close> are the names that were added.\<close>

fun get_vpaths_loop :: "string \<Rightarrow> 'p wpath list \<Rightarrow> string list \<Rightarrow> string list" where
  "get_vpaths_loop path [] rval = rval"
| "get_vpaths_loop path (p # ps) rval =
     (let vpath = p_vpath p
      in if length vpath \<le> length path then get_vpaths_loop path ps rval
         else if take (length path) vpath \<noteq> path then get_vpaths_loop path ps rval
         else if vpath ! (length path - 1) \<noteq> slash then get_vpaths_loop path ps rval
         else
           let rest = drop (length path) vpath;
               name = take 1 rest @ takeWhile (\<lambda>c. c \<noteq> slash) (drop 1 rest)
           in if name \<in> set rval then get_vpaths_loop path ps rval
              else get_vpaths_loop path ps (rval @ [name]))"

definition session_get_vpaths :: "('p, 'cl) session \<Rightarrow> string \<Rightarrow> string list" where
  "session_get_vpaths s path = get_vpaths_loop path (permissions_get_paths (ses_permissions s)) []"

section \<open>File operations\<close>

text \<open>The authorization \<open>switch\<close> of \<open>OpenFile\<close>, with its fall-through.\<close>

definition open_file_authorized :: "'p wpath \<Rightarrow> file_operation \<Rightarrow> bool" where
  "open_file_authorized p operation =
     (case operation of
        APPEND \<Rightarrow> can_write p
      | READ \<Rightarrow> can_read p
      | WRITE_NEW \<Rightarrow> can_create_file p \<and> can_write p
      | WRITE \<Rightarrow> can_write p)"

definition session_open_file ::
    "('p, 'w) fs_ops \<Rightarrow> nat \<Rightarrow> ('p, 'cl) session \<Rightarrow> string \<Rightarrow> file_operation \<Rightarrow> 'w \<Rightarrow>
     (exn + 'p wfde_file) \<times> 'w" where
  "session_open_file fs page s path operation w =
     bindS (session_get_path fs s path FILE, w) (\<lambda>file_path w.
       if \<not> open_file_authorized file_path operation then (Inl ExceptionAccessDenied, w)
       else wfde_file_new fs page w (p_ppath file_path) operation)"

definition session_delete_file ::
    "('p, 'w) fs_ops \<Rightarrow> ('p, 'cl) session \<Rightarrow> string \<Rightarrow> 'w \<Rightarrow> (exn + unit) \<times> 'w" where
  "session_delete_file fs s path w =
     bindS (session_get_path fs s path FILE, w) (\<lambda>file_path w.
       if \<not> can_delete_file file_path then (Inl ExceptionAccessDenied, w)
       else bindS (path_exists fs w file_path, w) (\<lambda>ex w.
         if \<not> ex then (Inl ExceptionNotFound, w)
         else (case fs_remove fs w (p_ppath file_path) of
                 (w, ec) \<Rightarrow> if ec then (Inl ExceptionAccessDenied, w) else (Inr (), w))))"

definition session_create_directory ::
    "('p, 'w) fs_ops \<Rightarrow> ('p, 'cl) session \<Rightarrow> string \<Rightarrow> 'w \<Rightarrow> (exn + unit) \<times> 'w" where
  "session_create_directory fs s path w =
     bindS (session_get_path fs s path DIRECTORY, w) (\<lambda>dir_path w.
       if \<not> can_create_dir dir_path then (Inl ExceptionAccessDenied, w)
       else bindS (path_exists fs w dir_path, w) (\<lambda>ex w.
         if ex then (Inl ExceptionAlreadyExist, w)
         else (case fs_create_directory fs w (p_ppath dir_path) of
                 (w, ec) \<Rightarrow> if ec then (Inl ExceptionAccessDenied, w) else (Inr (), w))))"

definition session_delete_directory ::
    "('p, 'w) fs_ops \<Rightarrow> ('p, 'cl) session \<Rightarrow> string \<Rightarrow> 'w \<Rightarrow> (exn + unit) \<times> 'w" where
  "session_delete_directory fs s path w =
     bindS (session_get_path fs s path DIRECTORY, w) (\<lambda>dir_path w.
       if \<not> can_delete_dir dir_path then (Inl ExceptionAccessDenied, w)
       else bindS (path_exists fs w dir_path, w) (\<lambda>ex w.
         if \<not> ex then (Inl ExceptionNotFound, w)
         else (case fs_remove fs w (p_ppath dir_path) of
                 (w, ec) \<Rightarrow> if ec then (Inl ExceptionAccessDenied, w) else (Inr (), w))))"

definition session_rename ::
    "('p, 'w) fs_ops \<Rightarrow> ('p, 'cl) session \<Rightarrow> string \<Rightarrow> string \<Rightarrow> 'w \<Rightarrow> (exn + unit) \<times> 'w" where
  "session_rename fs s from_v to_v w =
     bindS (session_get_path fs s from_v ANY, w) (\<lambda>from_path w.
     bindS (session_get_path fs s to_v ANY, w) (\<lambda>to_path w.
       if \<not> can_rename from_path then (Inl ExceptionAccessDenied, w)
       else bindS (path_exists fs w from_path, w) (\<lambda>from_exists w.
         if \<not> from_exists then (Inl ExceptionNotFound, w)
         else bindS (path_exists fs w to_path, w) (\<lambda>to_exists w.
           if to_exists then (Inl ExceptionAlreadyExist, w)
           else bindS
             (if \<not> is_same_parent_dir from_path to_path then
                bindS (fs_is_directory fs w (p_ppath from_path), w) (\<lambda>is_dir w.
                  if is_dir \<and> \<not> can_create_dir to_path then (Inl ExceptionAccessDenied, w)
                  else if \<not> is_dir \<and> \<not> can_create_file to_path then (Inl ExceptionAccessDenied, w)
                  else (Inr (), w))
              else (Inr (), w))
             (\<lambda>_ w.
               (case fs_rename fs w (p_ppath from_path) (p_ppath to_path) of
                  (w, ec) \<Rightarrow> if ec then (Inl ExceptionAccessDenied, w) else (Inr (), w)))))))"

definition session_get_file_len ::
    "('p, 'w) fs_ops \<Rightarrow> 'w \<Rightarrow> ('p, 'cl) session \<Rightarrow> string \<Rightarrow> exn + nat" where
  "session_get_file_len fs w s path =
     bindE (session_get_path fs s path FILE) (\<lambda>file_path.
       if \<not> can_list file_path \<and> \<not> can_read file_path then Inl ExceptionAccessDenied
       else (case fs_file_size fs w (p_ppath file_path) of
               None \<Rightarrow> Inl ExceptionNotFound
             | Some n \<Rightarrow> Inr n))"

section \<open>The invariant of a session\<close>

text \<open>The mounts are well-formed, and the current directory is absolute and cannot climb.\<close>

definition session_ok :: "('p, 'cl) session \<Rightarrow> bool" where
  "session_ok s \<longleftrightarrow> mounts_ok (ses_permissions s) \<and> no_climb (ses_cwd s)"

text \<open>The physical path is a mount's, extended by parts that cannot leave it, with its rights.\<close>

definition below_mount :: "('p, 'w) fs_ops \<Rightarrow> 'p paths \<Rightarrow> 'p wpath \<Rightarrow> bool" where
  "below_mount fs perms p \<longleftrightarrow>
     (\<exists>m parts. m \<in> set perms \<and> list_all inner_part parts
        \<and> p_ppath p = fold (\<lambda>n q. fs_append fs q n) parts (p_ppath m)
        \<and> p_permbits p = p_permbits m)"

lemma session_get_path_InrE:
  assumes "session_get_path fs s vpath ty = Inr p"
  obtains v m r where "normalize vpath (ses_cwd s) = Inr v"
    and "permissions_get_path (ses_permissions s) v [] = Inr (m, r)"
    and "p = create_subpath fs m r ty"
  using assms by (auto simp: session_get_path_def)

lemma session_get_path_below:
  assumes "session_ok s" and "session_get_path fs s vpath ty = Inr p"
  shows "below_mount fs (ses_permissions s) p" and "no_climb (p_vpath p)" and "p_type p = ty"
proof -
  from assms(2) obtain v m r where
    v: "normalize vpath (ses_cwd s) = Inr v"
    and m: "permissions_get_path (ses_permissions s) v [] = Inr (m, r)"
    and p: "p = create_subpath fs m r ty" by (rule session_get_path_InrE)
  have ok: "mounts_ok (ses_permissions s)" and "no_climb (ses_cwd s)"
    using assms(1) by (auto simp: session_ok_def)
  from v this(2) have nc: "no_climb v" by (rule normalize_no_climb)
  from wp.resolved_below_mount[OF ok m nc, of fs ty] show "below_mount fs (ses_permissions s) p"
    by (auto simp: below_mount_def p permissions_get_paths_def)
  from wp.lookup_sound[OF ok m] have mem: "m \<in> set (ses_permissions s)"
    and "sublist (p_vpath m) v" "sublist r v"
    by (auto simp: permissions_get_paths_def
        intro: sublist_order.order.trans[OF sublist_dropWhile sublist_append_leftI])
  then have "no_climb (p_vpath m)" "no_climb r" using nc no_climb_sublist by blast+
  moreover have "p_vpath m \<noteq> []" "hd (p_vpath m) = slash"
    using mounts_okD[OF ok mem] by (auto simp: mount_ok_def)
  ultimately show "no_climb (p_vpath p)" unfolding p by (intro create_subpath_no_climb)
  show "p_type p = ty" by (simp add: p create_subpath_vpath)
qed

lemma session_set_cwd_ok:
  assumes "session_ok s"
  shows "session_ok (snd (session_set_cwd fs w path s))"
proof (cases "session_get_path fs s path DIRECTORY")
  case (Inr dir)
  have "no_climb (p_vpath dir)" using session_get_path_below[OF assms Inr] by blast
  then show ?thesis using assms
    by (cases "path_exists fs w dir") (auto simp: session_set_cwd_def Inr session_ok_def)
qed (use assms in \<open>simp add: session_set_cwd_def\<close>)

text \<open>A session whose users come from a provider of mounts stays well-formed.\<close>

context mount_provider begin

lemma authenticate_session_ok:
  assumes "session_ok s" and "ok am" and "authenticate_with_passwd au name pwd (am, s) = (r, am', s')"
  shows "session_ok s'" and "ok am'"
proof -
  obtain l a where l: "au_login au am name pwd = (l, a)" by fastforce
  then have a: "ok a" using login_keeps_ok[OF assms(2), of name pwd] by simp
  have "mounts_ok (permissions_merge (permissions_copy perms) (ses_permissions s))"
    if "l = Inr c" and "au_get_permissions au a c = Some perms" for c perms
  proof -
    have ok: "mounts_ok perms" by (rule user_mounts[OF assms(2), of name pwd c]) (simp_all add: l that)
    then have "permissions_copy perms = perms" by (intro permissions_copy_id) (simp add: mounts_ok_def)
    then show ?thesis using merge_mounts_ok[OF ok] assms(1) by (simp add: session_ok_def)
  qed
  then show "session_ok s'" using assms(1,3) l
    by (auto simp: authenticate_with_passwd_def session_ok_def session_set_permissions_def Let_def
        split: if_splits prod.splits sum.splits option.splits)
  show "ok am'" using assms(2,3) l a
    by (auto simp: authenticate_with_passwd_def Let_def split: if_splits sum.splits)
qed

end

section \<open>What a request may do to the disk\<close>

text \<open>The operations a client can ask for that may change the disk, and the right each needs.\<close>

datatype disk_request =
    Req_open string file_operation
  | Req_delete string
  | Req_mkdir string
  | Req_rmdir string
  | Req_rename string string

definition perform ::
    "('p, 'w) fs_ops \<Rightarrow> nat \<Rightarrow> ('p, 'cl) session \<Rightarrow> disk_request \<Rightarrow> 'w \<Rightarrow> 'w" where
  "perform fs page s req w =
     (case req of
        Req_open v operation \<Rightarrow> snd (session_open_file fs page s v operation w)
      | Req_delete v \<Rightarrow> snd (session_delete_file fs s v w)
      | Req_mkdir v \<Rightarrow> snd (session_create_directory fs s v w)
      | Req_rmdir v \<Rightarrow> snd (session_delete_directory fs s v w)
      | Req_rename v v' \<Rightarrow> snd (session_rename fs s v v' w))"

definition granted_path ::
    "('p, 'w) fs_ops \<Rightarrow> ('p, 'cl) session \<Rightarrow> string \<Rightarrow> path_type \<Rightarrow> perm_bit list \<Rightarrow> bool" where
  "granted_path fs s v ty rights \<longleftrightarrow>
     (\<exists>p. session_get_path fs s v ty = Inr p \<and> below_mount fs (ses_permissions s) p
        \<and> list_all (has_perm (p_permbits p)) rights)"

definition request_granted :: "('p, 'w) fs_ops \<Rightarrow> 'w \<Rightarrow> ('p, 'cl) session \<Rightarrow> disk_request \<Rightarrow> bool" where
  "request_granted fs w s req =
     (case req of
        Req_open v READ \<Rightarrow> False
      | Req_open v WRITE_NEW \<Rightarrow> granted_path fs s v FILE [CAN_CREATE_FILE, CAN_WRITE]
      | Req_open v _ \<Rightarrow> granted_path fs s v FILE [CAN_WRITE]
      | Req_delete v \<Rightarrow> granted_path fs s v FILE [CAN_DELETE_FILE]
      | Req_mkdir v \<Rightarrow> granted_path fs s v DIRECTORY [CAN_CREATE_DIR]
      | Req_rmdir v \<Rightarrow> granted_path fs s v DIRECTORY [CAN_DELETE_DIR]
      | Req_rename v v' \<Rightarrow> granted_path fs s v ANY [CAN_RENAME]
          \<and> (\<exists>p is_dir. session_get_path fs s v ANY = Inr p
               \<and> fs_is_directory fs w (p_ppath p) = Inr is_dir
               \<and> granted_path fs s v' ANY [if is_dir then CAN_CREATE_DIR else CAN_CREATE_FILE]))"

lemma granted_pathI:
  assumes "session_ok s" and "session_get_path fs s v ty = Inr p" and "list_all (has_perm (p_permbits p)) rights"
  shows "granted_path fs s v ty rights"
  using assms session_get_path_below[OF assms(1,2)] by (auto simp: granted_path_def)

lemma bindS_changed:
  assumes "snd (bindS (m, w) f) \<noteq> w"
  obtains x where "m = Inr x" and "snd (f x w) \<noteq> w"
  using assms by (cases m) auto

lemma open_read_keeps: "snd (wfde_file_new fs page w p READ) = w"
  by (cases "fs_status fs w p") (auto simp: wfde_file_new_def wf_prepare_def Let_def)

lemma open_changes:
  assumes "session_ok s" and "perform fs page s (Req_open v operation) w \<noteq> w"
  shows "request_granted fs w s (Req_open v operation)"
proof -
  from assms(2) obtain p where p: "session_get_path fs s v FILE = Inr p"
    and ch: "snd (if \<not> open_file_authorized p operation then (Inl ExceptionAccessDenied, w)
        else wfde_file_new fs page w (p_ppath p) operation) \<noteq> w"
    unfolding perform_def session_open_file_def by (auto elim: bindS_changed)
  then have "open_file_authorized p operation" "operation \<noteq> READ"
    by (auto simp: open_read_keeps split: if_splits)
  then show ?thesis using granted_pathI[OF assms(1) p]
    by (cases operation) (auto simp: request_granted_def open_file_authorized_def accessors_has_perm)
qed

lemma rename_changes:
  assumes "session_ok s" and "perform fs page s (Req_rename v v') w \<noteq> w"
  shows "request_granted fs w s (Req_rename v v')"
proof -
  from assms(2) obtain p q where p: "session_get_path fs s v ANY = Inr p"
    and q: "session_get_path fs s v' ANY = Inr q" and "can_rename p"
    and step: "snd (bindS
             (if \<not> is_same_parent_dir p q then
                bindS (fs_is_directory fs w (p_ppath p), w) (\<lambda>is_dir w.
                  if is_dir \<and> \<not> can_create_dir q then (Inl ExceptionAccessDenied, w)
                  else if \<not> is_dir \<and> \<not> can_create_file q then (Inl ExceptionAccessDenied, w)
                  else (Inr (), w))
              else (Inr (), w))
             (\<lambda>_ w.
               (case fs_rename fs w (p_ppath p) (p_ppath q) of
                  (w, ec) \<Rightarrow> if ec then (Inl ExceptionAccessDenied, w) else (Inr (), w)))) \<noteq> w"
    unfolding perform_def session_rename_def by (auto elim!: bindS_changed split: if_splits)
  from step have "\<exists>is_dir. fs_is_directory fs w (p_ppath p) = Inr is_dir
        \<and> (if is_dir then can_create_dir q else can_create_file q)"
    by (cases "fs_is_directory fs w (p_ppath p)") (auto simp: never_same_parent_dir split: if_splits)
  then obtain is_dir where dir: "fs_is_directory fs w (p_ppath p) = Inr is_dir"
    and "if is_dir then can_create_dir q else can_create_file q" by blast
  then have "granted_path fs s v' ANY [if is_dir then CAN_CREATE_DIR else CAN_CREATE_FILE]"
    by (intro granted_pathI[OF assms(1) q]) (simp add: accessors_has_perm split: if_splits)
  moreover have "granted_path fs s v ANY [CAN_RENAME]"
    using \<open>can_rename p\<close> by (intro granted_pathI[OF assms(1) p]) (simp add: accessors_has_perm)
  ultimately show ?thesis using p dir unfolding request_granted_def disk_request.case by blast
qed

lemma delete_changes:
  assumes "session_ok s" and "perform fs page s (Req_delete v) w \<noteq> w"
  shows "request_granted fs w s (Req_delete v)"
proof -
  from assms(2) obtain p where p: "session_get_path fs s v FILE = Inr p" "can_delete_file p"
    unfolding perform_def session_delete_file_def by (auto elim!: bindS_changed split: if_splits)
  then show ?thesis using granted_pathI[OF assms(1) p(1), of "[CAN_DELETE_FILE]"]
    by (simp add: request_granted_def accessors_has_perm)
qed

lemma mkdir_changes:
  assumes "session_ok s" and "perform fs page s (Req_mkdir v) w \<noteq> w"
  shows "request_granted fs w s (Req_mkdir v)"
proof -
  from assms(2) obtain p where p: "session_get_path fs s v DIRECTORY = Inr p" "can_create_dir p"
    unfolding perform_def session_create_directory_def by (auto elim!: bindS_changed split: if_splits)
  then show ?thesis using granted_pathI[OF assms(1) p(1), of "[CAN_CREATE_DIR]"]
    by (simp add: request_granted_def accessors_has_perm)
qed

lemma rmdir_changes:
  assumes "session_ok s" and "perform fs page s (Req_rmdir v) w \<noteq> w"
  shows "request_granted fs w s (Req_rmdir v)"
proof -
  from assms(2) obtain p where p: "session_get_path fs s v DIRECTORY = Inr p" "can_delete_dir p"
    unfolding perform_def session_delete_directory_def by (auto elim!: bindS_changed split: if_splits)
  then show ?thesis using granted_pathI[OF assms(1) p(1), of "[CAN_DELETE_DIR]"]
    by (simp add: request_granted_def accessors_has_perm)
qed

lemma perform_granted:
  assumes "session_ok s" and "perform fs page s req w \<noteq> w"
  shows "request_granted fs w s req"
  using assms
  by (cases req) (simp_all add: open_changes delete_changes mkdir_changes rmdir_changes rename_changes)

text \<open>
  What a request that changes the disk makes of it: one call of the file system on the resolved path,
  in the state the code has checked for. Opening creates a missing file or empties an existing one.
\<close>

definition request_effect ::
    "('p, 'w) fs_ops \<Rightarrow> 'w \<Rightarrow> ('p, 'cl) session \<Rightarrow> disk_request \<Rightarrow> 'w \<Rightarrow> bool" where
  "request_effect fs w s req w' =
     (case req of
        Req_open v operation \<Rightarrow> (\<exists>p. session_get_path fs s v FILE = Inr p
          \<and> (fs_status fs w (p_ppath p) = Inr File_not_found \<and> w' = fs_touch fs w (p_ppath p)
             \<or> operation = WRITE \<and> fs_exists fs w (p_ppath p) = Inr True \<and> w' = snd (fs_resize_file fs w (p_ppath p) 0)))
      | Req_delete v \<Rightarrow> (\<exists>p. session_get_path fs s v FILE = Inr p
          \<and> path_exists fs w p = Inr True \<and> w' = fst (fs_remove fs w (p_ppath p)))
      | Req_mkdir v \<Rightarrow> (\<exists>p. session_get_path fs s v DIRECTORY = Inr p
          \<and> path_exists fs w p = Inr False \<and> w' = fst (fs_create_directory fs w (p_ppath p)))
      | Req_rmdir v \<Rightarrow> (\<exists>p. session_get_path fs s v DIRECTORY = Inr p
          \<and> path_exists fs w p = Inr True \<and> w' = fst (fs_remove fs w (p_ppath p)))
      | Req_rename v v' \<Rightarrow> (\<exists>p q. session_get_path fs s v ANY = Inr p \<and> session_get_path fs s v' ANY = Inr q
          \<and> path_exists fs w p = Inr True \<and> path_exists fs w q = Inr False
          \<and> w' = fst (fs_rename fs w (p_ppath p) (p_ppath q))))"

lemma open_new_effect:
  assumes "snd (wfde_file_new fs page w path operation) \<noteq> w"
  shows "fs_status fs w path = Inr File_not_found \<and> snd (wfde_file_new fs page w path operation) = fs_touch fs w path
    \<or> operation = WRITE \<and> fs_exists fs w path = Inr True
      \<and> snd (wfde_file_new fs page w path operation) = snd (fs_resize_file fs w path 0)"
proof -
  obtain r w1 where r: "fs_resize_file fs w path 0 = (r, w1)" by fastforce
  show ?thesis
    using assms r by (cases operation; cases "fs_status fs w path"; cases r)
       (auto simp: wfde_file_new_def wf_prepare_def fs_exists_def Let_def split: if_splits)
qed

lemma perform_effect:
  assumes "perform fs page s req w \<noteq> w"
  shows "request_effect fs w s req (perform fs page s req w)"
proof (cases req)
  case (Req_open v operation)
  with assms obtain p where p: "session_get_path fs s v FILE = Inr p" "open_file_authorized p operation"
    by (auto simp: perform_def session_open_file_def elim!: bindS_changed split: if_splits)
  then have "perform fs page s req w = snd (wfde_file_new fs page w (p_ppath p) operation)"
    by (simp add: Req_open perform_def session_open_file_def)
  with open_new_effect[of fs page w "p_ppath p" operation] assms p(1) Req_open show ?thesis
    by (simp add: request_effect_def)
next
  case (Req_delete v)
  with assms show ?thesis
    by (auto simp: perform_def session_delete_file_def request_effect_def elim!: bindS_changed split: if_splits prod.splits)
next
  case (Req_mkdir v)
  with assms show ?thesis
    by (auto simp: perform_def session_create_directory_def request_effect_def elim!: bindS_changed
        split: if_splits prod.splits)
next
  case (Req_rmdir v)
  with assms show ?thesis
    by (auto simp: perform_def session_delete_directory_def request_effect_def elim!: bindS_changed
        split: if_splits prod.splits)
next
  case (Req_rename v v')
  with assms obtain p q where "session_get_path fs s v ANY = Inr p" "session_get_path fs s v' ANY = Inr q"
    "path_exists fs w p = Inr True" "path_exists fs w q = Inr False" "can_rename p"
    by (auto simp: perform_def session_rename_def elim!: bindS_changed split: if_splits)
  moreover have "perform fs page s req w = fst (fs_rename fs w (p_ppath p) (p_ppath q))"
    using assms calculation Req_rename
    by (cases "fs_is_directory fs w (p_ppath p)")
       (auto simp: perform_def session_rename_def never_same_parent_dir split: if_splits prod.splits)
  ultimately show ?thesis using Req_rename by (simp add: request_effect_def)
qed

text \<open>C2: no change of the disk without the right for it, and no other change than the one asked for. If
  any request of a session (opening a file, deleting, creating or removing a directory, renaming)
  changes the disk, then every virtual path it names resolves to a physical path that is a mount's
  path extended by parts without \<open>..\<close>, and that mount grants the right the request needs: opening
  for reading never changes the disk, writing needs \<open>CAN_WRITE\<close> (a new file \<open>CAN_CREATE_FILE\<close> too), renaming needs
  \<open>CAN_RENAME\<close> at the source and the right to create a file or a directory at the target. The new
  disk is the result of one call of the file system, with those physical paths and no other, in the
  state the request is meant for: a missing file is created or an existing one emptied for writing,
  an existing regular file or directory is removed, a directory is created where there is none, an existing source is
  renamed to a target that did not exist. The right at the target is needed within one directory too, where
  the documentation of \<open>Rename\<close> asks for \<open>CAN_RENAME\<close> only.\<close>
theorem disk_changes_granted:
  assumes "session_ok s" and "perform fs page s req w \<noteq> w"
  shows "request_granted fs w s req \<and> request_effect fs w s req (perform fs page s req w)"
  using perform_granted[OF assms] perform_effect[OF assms(2)] by (rule conjI)

section \<open>Mount points in a listing\<close>

text \<open>The first component of what follows a path, as \<open>GetVpaths\<close> cuts it out.\<close>

definition vpath_name :: "string \<Rightarrow> string" where
  "vpath_name rest = take 1 rest @ takeWhile (\<lambda>c. c \<noteq> slash) (drop 1 rest)"

definition listed_below :: "string \<Rightarrow> 'p wpath \<Rightarrow> string \<Rightarrow> bool" where
  "listed_below path p name \<longleftrightarrow>
     last path = slash \<and> (\<exists>rest. rest \<noteq> [] \<and> p_vpath p = path @ rest \<and> name = vpath_name rest)"

lemma get_vpaths_step:
  assumes "path \<noteq> []"
  shows "get_vpaths_loop path (p # ps) rval =
    (if strict_prefix path (p_vpath p) \<and> last path = slash
        \<and> vpath_name (drop (length path) (p_vpath p)) \<notin> set rval
     then get_vpaths_loop path ps (rval @ [vpath_name (drop (length path) (p_vpath p))])
     else get_vpaths_loop path ps rval)"
proof (cases "strict_prefix path (p_vpath p)")
  case True
  then obtain r where r: "p_vpath p = path @ r" "r \<noteq> []" by (auto simp: strict_prefix_def prefix_def)
  then have "p_vpath p ! (length path - 1) = last path"
    using assms by (simp add: nth_append last_conv_nth)
  then show ?thesis using r True by (simp add: Let_def vpath_name_def)
next
  case False
  have "length (p_vpath p) \<le> length path \<or> take (length path) (p_vpath p) \<noteq> path"
  proof (rule ccontr)
    assume "\<not> ?thesis"
    then have "path @ drop (length path) (p_vpath p) = p_vpath p" "length path < length (p_vpath p)"
      using append_take_drop_id[of "length path" "p_vpath p"] by auto
    then have "prefix path (p_vpath p)" "path \<noteq> p_vpath p" by (metis prefix_def) (use \<open>length path < _\<close> in auto)
    then show False using False by (simp add: strict_prefix_def)
  qed
  then show ?thesis using False by (auto simp: Let_def)
qed

lemma strict_prefix_below:
  "strict_prefix path (p_vpath p) \<and> last path = slash \<and> n = vpath_name (drop (length path) (p_vpath p))
     \<longleftrightarrow> listed_below path p n"
  by (auto simp: listed_below_def strict_prefix_def prefix_def)

lemma get_vpaths_loop_spec:
  assumes "path \<noteq> []" and "distinct rval"
  shows "distinct (get_vpaths_loop path ps rval)
    \<and> (n \<in> set (get_vpaths_loop path ps rval) \<longleftrightarrow> n \<in> set rval \<or> (\<exists>p \<in> set ps. listed_below path p n))"
  using assms(2)
proof (induction ps arbitrary: rval)
  case (Cons p ps)
  let ?n = "vpath_name (drop (length path) (p_vpath p))"
  have lb: "listed_below path p n \<longleftrightarrow> strict_prefix path (p_vpath p) \<and> last path = slash \<and> n = ?n"
    by (simp add: strict_prefix_below)
  show ?case
  proof (cases "strict_prefix path (p_vpath p) \<and> last path = slash \<and> ?n \<notin> set rval")
    case True
    then show ?thesis using Cons.IH[of "rval @ [?n]"] Cons.prems lb
      unfolding get_vpaths_step[OF assms(1)] by auto
  next
    case False
    then show ?thesis using Cons.IH[OF Cons.prems] lb
      unfolding get_vpaths_step[OF assms(1)] by auto
  qed
qed simp

text \<open>The mount points a listing adds. For a path that ends in a slash, \<open>GetVpaths\<close> returns,
  each once, the names directly below it under which mounts start. For a path that does not, and
  every directory but the root is such a path, it returns nothing: mounts below other
  directories are not listed.\<close>
theorem get_vpaths_spec:
  assumes "path \<noteq> []"
  shows "distinct (session_get_vpaths s path)
    \<and> (name \<in> set (session_get_vpaths s path) \<longleftrightarrow>
        (\<exists>p \<in> set (ses_permissions s). listed_below path p name))
    \<and> (last path \<noteq> slash \<longrightarrow> session_get_vpaths s path = [])"
proof -
  have *: "distinct (session_get_vpaths s path)
    \<and> (n \<in> set (session_get_vpaths s path) \<longleftrightarrow> (\<exists>p \<in> set (ses_permissions s). listed_below path p n))" for n
    using get_vpaths_loop_spec[OF assms, of "[]" "ses_permissions s" n]
    by (simp add: session_get_vpaths_def permissions_get_paths_def)
  moreover have "session_get_vpaths s path = []" if "last path \<noteq> slash"
  proof (rule ccontr)
    assume "session_get_vpaths s path \<noteq> []"
    then have "hd (session_get_vpaths s path) \<in> set (session_get_vpaths s path)" by simp
    with * that show False by (auto simp: listed_below_def)
  qed
  ultimately show ?thesis by blast
qed

section \<open>Idle time\<close>

lemma duration_secs_nonneg: "0 \<le> ns \<Longrightarrow> duration_secs ns = ns div 1000000000"
  by (cases "ns = 0") (simp_all add: duration_secs_def signed_divide_int_def)

text \<open>The idle time-out. For a session that was touched at a time \<open>t\<close>, as long as less than
  \<open>2 ^ 31\<close> seconds have gone by, housekeeping keeps the session exactly while the whole seconds
  since then do not exceed the configured time-out.\<close>
lemma housekeeping_timeout:
  assumes "t \<le> now" and "(now - t) div 1000000000 < 2 ^ 31"
  shows "fst (session_on_housekeeping now (session_touch t s)) \<longleftrightarrow>
    (now - t) div 1000000000 \<le> uint (ses_time_out_secs s)"
proof -
  let ?n = "(now - t) div 1000000000"
  have n: "0 \<le> ?n" using assms(1) by (simp add: pos_imp_zdiv_nonneg_iff)
  have "uint (word_of_int ?n :: 32 word) = ?n" using n assms(2) by (simp add: word_of_int_inverse take_bit_int_eq_self uint_word_of_int)
  moreover have "sint (word_of_int ?n :: 32 word) = ?n"
    using n assms(2) by (simp add: sint_uint signed_take_bit_int_eq_self uint_word_of_int take_bit_int_eq_self)
  moreover have "uint (word_of_int ?n :: 64 word) = ?n"
    using n assms(2) by (simp add: uint_word_of_int take_bit_int_eq_self)
  ultimately have "uint (scast (word_of_int ?n :: 32 word) :: 64 word) = ?n" by (simp only: scast_eq)
  moreover have "uint (ucast (ses_time_out_secs s) :: 64 word) = uint (ses_time_out_secs s)"
    using uint_bounded[of "ses_time_out_secs s"] by (simp add: unsigned_ucast_eq take_bit_int_eq_self)
  ultimately show ?thesis using assms(1)
    by (auto simp: session_on_housekeeping_def session_update_idle_time_def session_touch_def Let_def
        duration_secs_nonneg word_less_def not_less)
qed

section \<open>Sessions for the witnesses\<close>

definition demo_session :: "demo_path paths \<Rightarrow> (demo_path, nat) session" where
  "demo_session perms = session_set_permissions (wfde_session_new 0 5 None 60) perms"

definition upload_mounts :: "demo_path paths" where
  "upload_mounts =
     [mk_path ''/'' [''srv''] (to_perm_bits [CAN_LIST, CAN_ENTER, CAN_DELETE_FILE, CAN_RENAME, IS_RECURSIVE]) DIRECTORY,
      mk_path ''/in'' [''in''] (to_perm_bits [CAN_CREATE_FILE, CAN_WRITE, IS_RECURSIVE]) DIRECTORY]"

definition secret_mounts :: "demo_path paths" where
  "secret_mounts =
     [mk_path ''/pub'' [''srv'', ''pub''] (to_perm_bits [CAN_READ, CAN_LIST, CAN_ENTER, IS_RECURSIVE]) DIRECTORY,
      mk_path ''/pub/secret'' [''srv'', ''pub'', ''secret''] (to_perm_bits [IS_RECURSIVE]) DIRECTORY]"

definition secret_disk :: demo_disk where
  "secret_disk = [([''srv'', ''pub'', ''secret'', ''f''], Reg ''top secret'')]"

lemma session_ok_new:
  "mounts_ok perms \<Longrightarrow> session_ok (demo_session perms)"
  by (auto simp: session_ok_def demo_session_def session_set_permissions_def wfde_session_new_def
      session_touch_def Let_def no_climb_def sublist_two_Cons)

lemma upload_mounts_ok: "mounts_ok upload_mounts"
  by (simp add: mounts_ok_def paths_ok_def upload_mounts_def mk_path_def make_valid_def mount_ok_def)

theorem disk_changes_granted_witness:
  "request_granted demo_fs [([''srv'', ''f''], Reg ''x'')] (demo_session upload_mounts) (Req_delete ''f'')
   \<and> request_effect demo_fs [([''srv'', ''f''], Reg ''x'')] (demo_session upload_mounts) (Req_delete ''f'')
       (perform demo_fs 4 (demo_session upload_mounts) (Req_delete ''f'') [([''srv'', ''f''], Reg ''x'')])"
proof (rule disk_changes_granted[OF session_ok_new[OF upload_mounts_ok]])
  show "perform demo_fs 4 (demo_session upload_mounts) (Req_delete ''f'') [([''srv'', ''f''], Reg ''x'')]
      \<noteq> [([''srv'', ''f''], Reg ''x'')]" by code_simp
qed

theorem get_vpaths_spec_witness:
  "session_get_vpaths (demo_session secret_mounts) ''/pub'' = []"
  using get_vpaths_spec[of "''/pub''" "demo_session secret_mounts"] by simp

lemma housekeeping_timeout_demo:
  "\<not> fst (session_on_housekeeping 70000000000 (session_touch 5000000000 (demo_session secret_mounts)))"
proof -
  have "ses_time_out_secs (demo_session secret_mounts) = 60"
    by (simp add: demo_session_def session_set_permissions_def wfde_session_new_def session_touch_def Let_def)
  then show ?thesis
    using housekeeping_timeout[of 5000000000 70000000000 "demo_session secret_mounts"] by simp
qed

text \<open>The permissions of a mount can be walked around. With a readable mount \<open>/pub\<close> and a mount
  \<open>/pub/secret\<close> that grants nothing, opening \<open>/pub/secret/f\<close> for reading is denied, but opening
  \<open>/pubsecret/f\<close> succeeds, and the file object has the physical path of \<open>/pub/secret/f\<close>.\<close>
lemma mount_rights_bypassed:
  "fst (session_open_file demo_fs 4 (demo_session secret_mounts) ''/pub/secret/f'' READ secret_disk)
     = Inl ExceptionAccessDenied
   \<and> map_sum id wf_path (fst (session_open_file demo_fs 4 (demo_session secret_mounts) ''/pubsecret/f'' READ secret_disk))
     = Inr [''srv'', ''pub'', ''secret'', ''f'']
   \<and> map_sum id p_ppath (session_get_path demo_fs (demo_session secret_mounts) ''/pub/secret/f'' FILE)
     = Inr [''srv'', ''pub'', ''secret'', ''f'']"
  by code_simp

text \<open>C27: a session gets a client only by authentication, and only once. When no user is logged on,
  \<open>AuthenticateWithPasswd\<close> leaves the session without a client unless the authentication manager
  accepts the name and the password, and then the user's own mounts keep their precedence over
  those of the server; when a user is logged on, it throws and changes nothing.\<close>
theorem authenticate_sound:
  assumes "authenticate_with_passwd au name pwd (am, s) = (r, am', s')"
  shows "(ses_client s \<noteq> None \<longrightarrow> r = Inl ExceptionAlreadyLoggedIn \<and> am' = am \<and> s' = s)
    \<and> (ses_client s = None \<longrightarrow>
        (r = Inr True \<longleftrightarrow> ses_client s' \<noteq> None)
        \<and> (\<forall>c. ses_client s' = Some c \<longleftrightarrow> fst (au_login au am name pwd) = Inr c)
        \<and> (\<forall>perms c. ses_client s' = Some c \<and> au_get_permissions au am' c = Some perms \<and> paths_ok perms \<longrightarrow>
             prefix perms (ses_permissions s'))
        \<and> (ses_client s' = None \<longrightarrow> s' = s))
    \<and> ses_cwd s' = ses_cwd s"
proof (cases "ses_client s")
  case (Some c)
  then show ?thesis using assms by (simp add: authenticate_with_passwd_def)
next
  case None
  show ?thesis
  proof (cases "au_login au am name pwd")
    case (Pair res a)
    show ?thesis
    proof (cases res)
      case (Inl e)
      then show ?thesis using assms None Pair
        by (auto simp: authenticate_with_passwd_def split: if_splits)
    next
      case (Inr c)
      have "prefix perms (permissions_merge (permissions_copy perms) (ses_permissions s))"
        if "paths_ok perms" for perms
        using merge_loop_prefix[of perms "permissions_get_paths (ses_permissions s)"] that
        by (simp add: permissions_merge_def permissions_copy_id)
      then show ?thesis using assms None Pair Inr
        by (auto simp: authenticate_with_passwd_def Let_def session_set_permissions_def split: option.splits)
    qed
  qed
qed

theorem authenticate_sound_witness:
  "ses_client (snd (snd (authenticate_with_passwd wfded_auth ''alice'' ''guess'' (demo_auth, demo_session demo_mounts)))) = None"
proof -
  have n: "ses_client (demo_session demo_mounts) = None"
    by (simp add: demo_session_def session_set_permissions_def wfde_session_new_def session_touch_def Let_def)
  have l: "fst (au_login wfded_auth demo_auth ''alice'' ''guess'') = Inl ExceptionBadCredentials" by code_simp
  obtain r am' s' where
    r: "authenticate_with_passwd wfded_auth ''alice'' ''guess'' (demo_auth, demo_session demo_mounts) = (r, am', s')"
    by (metis prod.exhaust)
  show ?thesis using authenticate_sound[OF r] n l r by (cases "ses_client s'") auto
qed

end
