(* ===== verification/FtpProtocol.thy ===== *)
theory FtpProtocol
  imports Prelude
begin

text \<open>
  The data of the FTP protocol: \<open>include/wfde/ftp_protocol.h\<close> (reply codes, \<open>FtpReply\<close>, the facts of
  \<open>MLST\<close>, \<open>FtpState\<close>), \<open>src/wfde/ftp/WfdeReplyCodes.cpp\<close> and the tables at the top of
  \<open>src/wfde/ftp/wfde_ftp_commands.cpp\<close>. The build has TLS on, the default of \<open>CMakeLists.txt\<close>.
\<close>

section \<open>Reply codes\<close>

datatype ftp_reply_code =
    RC_RESTART_MARKER
  | RC_CONNECTION_OPEN_STARTING_XFER
  | RC_OPENING_CONNECTION
  | RC_OK
  | RC_STATUS_OK
  | RC_DIRECTORY_STATUS
  | RC_FILE_STATUS
  | RC_HELP
  | RC_NAME
  | RC_READY
  | RC_BYE
  | RC_DATA_CONNECTION_OPEN
  | RC_CLOSING_DATA_CONNECTION
  | RC_PASSIVE
  | RC_LOGGED_IN
  | RC_SECURITY_DATA_EXCHANGE_COMPLETE
  | RC_FILE_ACTION_OK
  | RC_PATHNAME_CREATED
  | RC_NEED_PASSWD
  | RC_FILE_ACTION_PENDING_INFO
  | RC_SERVICE_NOT_AVAILABLE
  | RC_CANT_OPEN_DATA_CONN
  | RC_TRANSFER_ABORTED
  | RC_ACTION_FAILED
  | RC_LOCAL_ERROR
  | RC_OUT_OF_DISKSPACE
  | RC_SYNTAX_ERROR
  | RC_SYNTAX_ERROR_IN_PARAMS
  | RC_COMMAND_NOT_IMPLEMENTED
  | RC_BAD_SEQUENCE_OF_COMMANDS
  | RC_PARAM_NOT_IMPLEMENTED
  | RC_NOT_LOGGED_ON
  | RC_REJECTED_FOR_POLICY_REASONS
  | RC_ACTION_NOT_TAKEN
  | RC_ILLEGAL_FILE_NAME

text \<open>The enumerators are ordered by their position, their underlying value.\<close>

fun reply_index :: "ftp_reply_code \<Rightarrow> nat" where
  "reply_index RC_RESTART_MARKER = 0"
| "reply_index RC_CONNECTION_OPEN_STARTING_XFER = 1"
| "reply_index RC_OPENING_CONNECTION = 2"
| "reply_index RC_OK = 3"
| "reply_index RC_STATUS_OK = 4"
| "reply_index RC_DIRECTORY_STATUS = 5"
| "reply_index RC_FILE_STATUS = 6"
| "reply_index RC_HELP = 7"
| "reply_index RC_NAME = 8"
| "reply_index RC_READY = 9"
| "reply_index RC_BYE = 10"
| "reply_index RC_DATA_CONNECTION_OPEN = 11"
| "reply_index RC_CLOSING_DATA_CONNECTION = 12"
| "reply_index RC_PASSIVE = 13"
| "reply_index RC_LOGGED_IN = 14"
| "reply_index RC_SECURITY_DATA_EXCHANGE_COMPLETE = 15"
| "reply_index RC_FILE_ACTION_OK = 16"
| "reply_index RC_PATHNAME_CREATED = 17"
| "reply_index RC_NEED_PASSWD = 18"
| "reply_index RC_FILE_ACTION_PENDING_INFO = 19"
| "reply_index RC_SERVICE_NOT_AVAILABLE = 20"
| "reply_index RC_CANT_OPEN_DATA_CONN = 21"
| "reply_index RC_TRANSFER_ABORTED = 22"
| "reply_index RC_ACTION_FAILED = 23"
| "reply_index RC_LOCAL_ERROR = 24"
| "reply_index RC_OUT_OF_DISKSPACE = 25"
| "reply_index RC_SYNTAX_ERROR = 26"
| "reply_index RC_SYNTAX_ERROR_IN_PARAMS = 27"
| "reply_index RC_COMMAND_NOT_IMPLEMENTED = 28"
| "reply_index RC_BAD_SEQUENCE_OF_COMMANDS = 29"
| "reply_index RC_PARAM_NOT_IMPLEMENTED = 30"
| "reply_index RC_NOT_LOGGED_ON = 31"
| "reply_index RC_REJECTED_FOR_POLICY_REASONS = 32"
| "reply_index RC_ACTION_NOT_TAKEN = 33"
| "reply_index RC_ILLEGAL_FILE_NAME = 34"

text \<open>The number given in the comment beside each enumerator.\<close>

fun documented_number :: "ftp_reply_code \<Rightarrow> nat" where
  "documented_number RC_RESTART_MARKER = 110"
| "documented_number RC_CONNECTION_OPEN_STARTING_XFER = 125"
| "documented_number RC_OPENING_CONNECTION = 150"
| "documented_number RC_OK = 200"
| "documented_number RC_STATUS_OK = 211"
| "documented_number RC_DIRECTORY_STATUS = 212"
| "documented_number RC_FILE_STATUS = 213"
| "documented_number RC_HELP = 214"
| "documented_number RC_NAME = 215"
| "documented_number RC_READY = 220"
| "documented_number RC_BYE = 221"
| "documented_number RC_DATA_CONNECTION_OPEN = 225"
| "documented_number RC_CLOSING_DATA_CONNECTION = 226"
| "documented_number RC_PASSIVE = 227"
| "documented_number RC_LOGGED_IN = 230"
| "documented_number RC_SECURITY_DATA_EXCHANGE_COMPLETE = 234"
| "documented_number RC_FILE_ACTION_OK = 250"
| "documented_number RC_PATHNAME_CREATED = 257"
| "documented_number RC_NEED_PASSWD = 331"
| "documented_number RC_FILE_ACTION_PENDING_INFO = 350"
| "documented_number RC_SERVICE_NOT_AVAILABLE = 421"
| "documented_number RC_CANT_OPEN_DATA_CONN = 425"
| "documented_number RC_TRANSFER_ABORTED = 426"
| "documented_number RC_ACTION_FAILED = 450"
| "documented_number RC_LOCAL_ERROR = 451"
| "documented_number RC_OUT_OF_DISKSPACE = 452"
| "documented_number RC_SYNTAX_ERROR = 500"
| "documented_number RC_SYNTAX_ERROR_IN_PARAMS = 501"
| "documented_number RC_COMMAND_NOT_IMPLEMENTED = 502"
| "documented_number RC_BAD_SEQUENCE_OF_COMMANDS = 503"
| "documented_number RC_PARAM_NOT_IMPLEMENTED = 504"
| "documented_number RC_NOT_LOGGED_ON = 530"
| "documented_number RC_REJECTED_FOR_POLICY_REASONS = 534"
| "documented_number RC_ACTION_NOT_TAKEN = 550"
| "documented_number RC_ILLEGAL_FILE_NAME = 553"

definition reply_messages :: "(nat \<times> string) list" where
  "reply_messages =
     [(110, ''Restart marker.''),
      (125, ''Data connection already open; transfer starting.''),
      (150, ''File status okay; about to open data connection.''),
      (200, ''Command okay.''),
      (211, ''Status okay.''),
      (212, ''Directory Status.''),
      (213, ''RC_FILE_STATUS''),
      (214, ''RC_HELP''),
      (215, ''RC_NAME''),
      (220, ''Service ready for new user.''),
      (221, ''Service closing control connection.''),
      (225, ''Data connection open; no transfer in progress.''),
      (226, ''Closing data connection.''),
      (227, ''RC_PASSIVE''),
      (230, ''User logged in, proceed.''),
      (234, ''Security data exchange complete.''),
      (250, ''Requested file action okay, completed.''),
      (257, ''RC_PATHNAME_CREATED''),
      (331, ''User name okay, need password.''),
      (350, ''Requested file action pending further information.''),
      (421, ''Service not available, closing control connection.''),
      (425, ''Can'' @ [CHR 0x27] @ ''t open data connection.''),
      (426, ''Connection closed; transfer aborted.''),
      (450, ''Requested file action not taken.''),
      (451, ''Requested action aborted: local error in processing.''),
      (452, ''Requested action not taken. Insufficient storage space in system.''),
      (500, ''Syntax error, command unrecognized.''),
      (501, ''Syntax error in parameters or arguments.''),
      (502, ''Command not implemented.''),
      (503, ''Bad sequence of commands.''),
      (504, ''Command not implemented for that parameter.''),
      (530, ''Not logged in.''),
      (354, ''Request denied for policy reasons''),
      (550, ''Requested action not taken. File is unavailable.''),
      (553, ''Requested action not taken. File name not allowed.'')]"

text \<open>\<open>Resolve\<close>.\<close>

definition resolve_code :: "ftp_reply_code \<Rightarrow> nat \<times> string" where
  "resolve_code code = reply_messages ! reply_index code"
text \<open>The text \<open>operator <<\<close> prints for a code.\<close>

definition show_code :: "ftp_reply_code \<Rightarrow> string" where
  "show_code code = dec (fst (resolve_code code)) @ [space] @ snd (resolve_code code)"

lemma reply_index_inj: "reply_index a = reply_index b \<Longrightarrow> a = b"
  by (cases a; cases b; simp)

lemma documented_number_mono: "reply_index a < reply_index b \<Longrightarrow> documented_number a < documented_number b"
  by (cases a; cases b; simp)

lemma resolve_code_number:
  "fst (resolve_code x) = (if x = RC_REJECTED_FOR_POLICY_REASONS then 354 else documented_number x)"
  by (cases x) (simp_all add: resolve_code_def reply_messages_def)

instantiation ftp_reply_code :: linorder
begin

definition less_eq_ftp_reply_code :: "ftp_reply_code \<Rightarrow> ftp_reply_code \<Rightarrow> bool" where
  "less_eq_ftp_reply_code a b \<longleftrightarrow> reply_index a \<le> reply_index b"

definition less_ftp_reply_code :: "ftp_reply_code \<Rightarrow> ftp_reply_code \<Rightarrow> bool" where
  "less_ftp_reply_code a b \<longleftrightarrow> reply_index a < reply_index b"

instance
proof
  fix a b c :: ftp_reply_code
  show "a = b" if "a \<le> b" "b \<le> a"
    by (rule reply_index_inj) (use that in \<open>simp add: less_eq_ftp_reply_code_def\<close>)
qed (auto simp: less_eq_ftp_reply_code_def less_ftp_reply_code_def)

end

section \<open>Replies\<close>

record ftp_reply =
  rp_message :: string
  rp_has_replied :: bool
  rp_code :: ftp_reply_code
  rp_do_end_session :: bool
  rp_have_reply :: bool
  rp_multi_line :: bool

definition ftp_reply_new :: ftp_reply where
  "ftp_reply_new =
     \<lparr>rp_message = [], rp_has_replied = False, rp_code = RC_SERVICE_NOT_AVAILABLE,
      rp_do_end_session = False, rp_have_reply = False, rp_multi_line = False\<rparr>"

text \<open>\<open>Reply\<close> and \<open>VerboseReply\<close>, with the text that is then written to the stream they return.\<close>

definition reply_end :: "ftp_reply_code \<Rightarrow> bool \<Rightarrow> string \<Rightarrow> ftp_reply \<Rightarrow> ftp_reply" where
  "reply_end code end_session text r =
     r\<lparr>rp_code := code, rp_do_end_session := end_session, rp_have_reply := True,
       rp_message := rp_message r @ text\<rparr>"

abbreviation reply_with :: "ftp_reply_code \<Rightarrow> string \<Rightarrow> ftp_reply \<Rightarrow> ftp_reply" where
  "reply_with code text \<equiv> reply_end code False text"

definition verbose_reply :: "ftp_reply_code \<Rightarrow> string \<Rightarrow> ftp_reply \<Rightarrow> ftp_reply" where
  "verbose_reply code text r =
     r\<lparr>rp_code := code, rp_have_reply := True, rp_multi_line := True,
       rp_message := rp_message r @ text\<rparr>"

definition get_reply :: "ftp_reply \<Rightarrow> (ftp_reply_code \<times> string) \<times> ftp_reply" where
  "get_reply r = ((rp_code r, rp_message r), r\<lparr>rp_has_replied := True\<rparr>)"

section \<open>Facts\<close>

datatype fact = F_SIZE | F_MODIFY | F_TYPE | F_UNIQUE | F_PERM

fun fact_index :: "fact \<Rightarrow> nat" where
  "fact_index F_SIZE = 0"
| "fact_index F_MODIFY = 1"
| "fact_index F_TYPE = 2"
| "fact_index F_UNIQUE = 3"
| "fact_index F_PERM = 4"

definition fact_names :: "string list" where
  "fact_names = [''Size'', ''Modify'', ''Type'', ''Unique'', ''Perm'']"

definition all_facts :: "fact list" where
  "all_facts = [F_SIZE, F_MODIFY, F_TYPE, F_UNIQUE, F_PERM]"

definition get_fact_name :: "fact \<Rightarrow> string" where
  "get_fact_name f = fact_names ! fact_index f"

text \<open>\<open>MdtxState\<close> is its one data member, the bitmap of the enabled facts.\<close>

type_synonym mdtx_state = "32 word"

definition mdtx_state_new :: mdtx_state where
  "mdtx_state_new = 0b0000000000010111"

definition fact_mask :: "fact \<Rightarrow> 32 word" where
  "fact_mask f = push_bit (fact_index f) 1"

definition is_enabled :: "mdtx_state \<Rightarrow> fact \<Rightarrow> bool" where
  "is_enabled bits f \<longleftrightarrow> and bits (fact_mask f) = 1"

definition enable_fact :: "string \<Rightarrow> mdtx_state \<Rightarrow> mdtx_state" where
  "enable_fact name bits =
     fold (\<lambda>f bits. if iequals (get_fact_name f) name then or bits (fact_mask f) else bits) all_facts bits"

definition disable_all :: "mdtx_state \<Rightarrow> mdtx_state" where
  "disable_all bits = 0"

definition get_fact_list :: "mdtx_state \<Rightarrow> string" where
  "get_fact_list bits =
     concat (map (\<lambda>f. get_fact_name f @ (if is_enabled bits f then ''*'' else []) @ '';'') all_facts)"

section \<open>The state of the protocol\<close>

datatype initiation = Init_none | Init_port | Init_pasv
datatype data_type = Type_ascii | Type_bin
datatype transfer = Transfer_none | Transfer_incoming | Transfer_outgoing

type_synonym ipv4 = "8 word \<times> 8 word \<times> 8 word \<times> 8 word"

text \<open>An address of the system: version 4, or another family, whose bytes do not matter here.\<close>

datatype address = V4 ipv4 | V6

type_synonym endpoint = "address \<times> 16 word"

text \<open>
  \<open>pasv\<close> is the acceptor: none, one that is not open, or an open one with its local endpoint, which is the
  unspecified one when binding it has failed.
  \<open>tasks\<close> counts the tasks that wait for the reply; the only such task is the switch to TLS.
\<close>

record ftp_state =
  st_is_logged_in :: bool
  st_transfer :: transfer
  st_initiation :: initiation
  st_ttype :: data_type
  st_requested_path :: string
  st_port_endpoint :: endpoint
  st_rest :: "64 word"
  st_allo :: "64 word"
  st_abort_pending :: bool
  st_rnfr :: string
  st_mdtx :: mdtx_state
  st_override_as_binary :: bool
  st_pasv :: "endpoint option option"
  st_list_hidden_files :: bool
  st_login_name :: string
  st_cc_is_encrypted :: bool
  st_encrypt_transfers :: bool
  st_tasks :: nat

definition ftp_state_new :: ftp_state where
  "ftp_state_new =
     \<lparr>st_is_logged_in = False, st_transfer = Transfer_none, st_initiation = Init_none,
      st_ttype = Type_ascii, st_requested_path = [], st_port_endpoint = (V4 (0, 0, 0, 0), 0),
      st_rest = 0, st_allo = 0, st_abort_pending = False, st_rnfr = [], st_mdtx = mdtx_state_new,
      st_override_as_binary = False, st_pasv = None, st_list_hidden_files = False,
      st_login_name = [], st_cc_is_encrypted = False, st_encrypt_transfers = False, st_tasks = 0\<rparr>"

definition is_in_transfer :: "ftp_state \<Rightarrow> bool" where
  "is_in_transfer s \<longleftrightarrow> st_transfer s \<noteq> Transfer_none"

definition set_port :: "endpoint \<Rightarrow> ftp_state \<Rightarrow> ftp_state" where
  "set_port endp s = s\<lparr>st_port_endpoint := endp, st_initiation := Init_port\<rparr>"

definition set_pasv :: "ftp_state \<Rightarrow> ftp_state" where
  "set_pasv s = s\<lparr>st_initiation := Init_pasv\<rparr>"

definition have_pasv_or_post :: "ftp_state \<Rightarrow> bool" where
  "have_pasv_or_post s \<longleftrightarrow> st_initiation s \<noteq> Init_none"

definition set_abort :: "ftp_state \<Rightarrow> ftp_state" where
  "set_abort s = s\<lparr>st_abort_pending := True\<rparr>"

definition get_port_endpoint :: "ftp_state \<Rightarrow> endpoint" where
  "get_port_endpoint s = st_port_endpoint s"

definition reset_transfer :: "ftp_state \<Rightarrow> ftp_state" where
  "reset_transfer s =
     s\<lparr>st_transfer := Transfer_none, st_initiation := Init_none, st_allo := 0, st_rest := 0,
       st_override_as_binary := False, st_pasv := None, st_list_hidden_files := False\<rparr>"

definition get_type :: "ftp_state \<Rightarrow> data_type" where
  "get_type s = (if st_override_as_binary s then Type_bin else st_ttype s)"

definition show_type :: "data_type \<Rightarrow> string" where
  "show_type t = (if t = Type_ascii then ''ASCII'' else ''Binary'')"

section \<open>Properties\<close>

text \<open>The table of reply codes. \<open>Resolve\<close> gives every code the number that its declaration
  documents, except that a request rejected for policy reasons is answered with 354 instead of
  534, an intermediate reply instead of a refusal; no two codes share a number, and apart from that
  one the numbers grow with the codes.\<close>
lemma resolve_documented:
  "fst (resolve_code c) =
     (if c = RC_REJECTED_FOR_POLICY_REASONS then 354 else documented_number c)
   \<and> (fst (resolve_code a) = fst (resolve_code b) \<longleftrightarrow> a = b)
   \<and> (documented_number a < documented_number b \<longleftrightarrow> a < b)"
proof -
  have mono: "documented_number x < documented_number y \<longleftrightarrow> x < y" for x y
    using documented_number_mono[of x y] documented_number_mono[of y x] reply_index_inj[of x y]
    unfolding less_ftp_reply_code_def
    by (cases "reply_index x" "reply_index y" rule: linorder_cases) auto
  have not_doc: "documented_number x \<noteq> 354" for x by (cases x) simp_all
  have "documented_number x = documented_number y \<longleftrightarrow> x = y" for x y
    using mono[of x y] mono[of y x] by (metis less_irrefl linorder_neqE)
  then show ?thesis using mono not_doc by (simp add: resolve_code_number)
qed

lemma bit_fact_mask: "bit (fact_mask f) n \<longleftrightarrow> n = fact_index f"
proof -
  have "fact_index f < 32" by (cases f) simp_all
  then show ?thesis by (auto simp: fact_mask_def bit_exp_iff possible_bit_def)
qed

lemma fact_index_inj: "fact_index f = fact_index g \<longleftrightarrow> f = g"
  by (cases f; cases g) simp_all

lemma enable_fact_bit:
  "bit (enable_fact name bits) (fact_index f) \<longleftrightarrow>
     bit bits (fact_index f) \<or> iequals (get_fact_name f) name"
proof -
  have "bit (fold (\<lambda>f bits. if iequals (get_fact_name f) name then or bits (fact_mask f) else bits) fs bits) (fact_index f)
      \<longleftrightarrow> bit bits (fact_index f) \<or> (f \<in> set fs \<and> iequals (get_fact_name f) name)" for fs
    by (induction fs arbitrary: bits) (auto simp: bit_or_iff bit_fact_mask fact_index_inj)
  moreover have "f \<in> set all_facts" by (cases f) (simp_all add: all_facts_def)
  ultimately show ?thesis by (simp add: enable_fact_def)
qed

lemma is_enabled_size: "is_enabled bits f \<longleftrightarrow> f = F_SIZE \<and> bit bits 0"
proof -
  have m: "and bits (fact_mask f) = (if bit bits (fact_index f) then fact_mask f else 0)"
    by (rule bit_word_eqI) (auto simp: bit_and_iff bit_fact_mask)
  have "fact_mask f = 1 \<longleftrightarrow> f = F_SIZE" by (cases f) (simp_all add: fact_mask_def push_bit_eq_mult)
  then show ?thesis by (auto simp: is_enabled_def m)
qed

text \<open>Which facts a client can switch on. Enabling a list of names on a cleared state sets
  exactly the bits of the facts that are named, in any letter case; but \<open>IsEnabled\<close> then answers
  yes for \<open>Size\<close> only, whatever was named, so no other fact is ever marked as enabled or
  listed.\<close>
theorem enabled_facts:
  "(bit (fold enable_fact names (disable_all bits)) (fact_index f) \<longleftrightarrow>
      (\<exists>name \<in> set names. iequals (get_fact_name f) name))
   \<and> (is_enabled (fold enable_fact names (disable_all bits)) f \<longleftrightarrow>
      f = F_SIZE \<and> (\<exists>name \<in> set names. iequals ''Size'' name))"
proof -
  have 1: "bit (fold enable_fact names b) (fact_index g) \<longleftrightarrow>
      bit b (fact_index g) \<or> (\<exists>name \<in> set names. iequals (get_fact_name g) name)" for b g
    by (induction names arbitrary: b) (auto simp: enable_fact_bit)
  have "get_fact_name F_SIZE = ''Size''" by (simp add: get_fact_name_def fact_names_def)
  then show ?thesis using 1[of 0 f] 1[of 0 F_SIZE] by (simp add: is_enabled_size disable_all_def)
qed

end
