(* ===== verification/FtpList.thy ===== *)
theory FtpList
  imports WfdeSession FtpProtocol
begin

text \<open>
  Directory listings: \<open>include/wfde/nix/FileListIterator.h\<close>, \<open>include/wfde/file_listing.h\<close> and
  \<open>src/wfde/ftp/WfdeFtpList.{h,cpp}\<close>. The calls of the operating system (\<open>opendir\<close> and
  \<open>readdir\<close>, \<open>stat\<close>, \<open>gmtime\<close>) are a record of functions. A directory stream is the list
  of the names it will still give and a flag whether it ends with an error. The name of a
  virtual path is taken as a reference to a string that is destroyed at once (\<open>vpaths_.pop_back()\<close>):
  what is read through such a reference, bytes as many as the name had, is a function of the
  record too, \<open>do_dangling\<close>.
\<close>

section \<open>The operating system\<close>

record file_stat =
  fst_is_dir :: bool
  fst_size :: nat
  fst_mtime :: int
  fst_dev :: "32 word"
  fst_ino :: "64 word"

record calendar =
  tm_year :: int
  tm_mon :: nat
  tm_mday :: nat
  tm_hour :: nat
  tm_min :: nat
  tm_sec :: nat

record ('p, 'w) dir_ops =
  do_readdir :: "'w \<Rightarrow> 'p \<Rightarrow> (string list \<times> bool) option"
  do_stat :: "'w \<Rightarrow> 'p \<Rightarrow> file_stat option"
  do_gmtime :: "int \<Rightarrow> calendar option"
  do_dangling :: "string \<Rightarrow> string"

definition zero_stat :: file_stat where
  "zero_stat = \<lparr>fst_is_dir = False, fst_size = 0, fst_mtime = 0, fst_dev = 0, fst_ino = 0\<rparr>"

text \<open>A zeroed calendar, its day set to 1, when the conversion fails.\<close>

definition calendar_of :: "('p, 'w) dir_ops \<Rightarrow> int \<Rightarrow> calendar" where
  "calendar_of ops t =
     (case do_gmtime ops t of
        Some tm \<Rightarrow> tm
      | None \<Rightarrow> \<lparr>tm_year = 0, tm_mon = 0, tm_mday = 1, tm_hour = 0, tm_min = 0, tm_sec = 0\<rparr>)"

section \<open>Formatted numbers\<close>

definition pad_left :: "char \<Rightarrow> nat \<Rightarrow> string \<Rightarrow> string" where
  "pad_left c n s = replicate (n - length s) c @ s"

definition dec_int :: "int \<Rightarrow> string" where
  "dec_int i = (if i < 0 then ''-'' @ dec (nat (- i)) else dec (nat i))"

text \<open>
  \<open>cur += snprintf(cur, 16, ...)\<close>: at most 15 characters and a NUL are written, but the result is
  the full length; what lies behind the NUL then are the old bytes of the buffer.
\<close>

definition snprintf16 :: "string \<Rightarrow> string \<Rightarrow> string" where
  "snprintf16 old s = (if length s \<le> 15 then s else take 15 s @ nul # take (length s - 16) (drop 16 old))"

text \<open>\<open>print_timeval\<close>: \<open>strftime\<close> writes nothing when the text does not fit in 16 bytes.\<close>

definition print_timeval :: "('p, 'w) dir_ops \<Rightarrow> int \<Rightarrow> string" where
  "print_timeval ops t =
     (let tm = calendar_of ops t;
          s = dec_int (tm_year tm + 1900) @ pad_left CHR ''0'' 2 (dec (tm_mon tm + 1))
            @ pad_left CHR ''0'' 2 (dec (tm_mday tm)) @ pad_left CHR ''0'' 2 (dec (tm_hour tm))
            @ pad_left CHR ''0'' 2 (dec (tm_min tm)) @ pad_left CHR ''0'' 2 (dec (tm_sec tm))
      in if length s < 16 then s else [])"

section \<open>The directory iterator\<close>

record 'p fli =
  fl_path :: "'p wpath option"
  fl_dir :: "(string list \<times> bool) option"
  fl_is_eof :: bool
  fl_have_vpath :: bool
  fl_st :: file_stat
  fl_name :: string
  fl_vpaths :: "(string \<times> file_stat) list"

definition is_fake :: "'p fli \<Rightarrow> bool" where
  "is_fake f \<longleftrightarrow> fl_dir f = None"

definition fli_next_name :: "('p, 'w) dir_ops \<Rightarrow> 'p fli \<Rightarrow> 'p fli" where
  "fli_next_name ops f =
     (if fl_vpaths f = [] then f\<lparr>fl_name := [], fl_have_vpath := False\<rparr>
      else f\<lparr>fl_name := do_dangling ops (fst (last (fl_vpaths f))), fl_st := snd (last (fl_vpaths f)),
             fl_vpaths := butlast (fl_vpaths f), fl_have_vpath := True\<rparr>)"

definition fli_advance :: "('p, 'w) dir_ops \<Rightarrow> 'p fli \<Rightarrow> (exn + unit) \<times> 'p fli" where
  "fli_advance ops f =
     (case fl_dir f of
        None \<Rightarrow> (Inr (), f\<lparr>fl_is_eof := True\<rparr>)
      | Some (names, failing) \<Rightarrow>
          if fl_is_eof f then (Inr (), fli_next_name ops f)
          else (case names of
                  n # ns \<Rightarrow> (Inr (), f\<lparr>fl_dir := Some (ns, failing), fl_name := n\<rparr>)
                | [] \<Rightarrow> if failing then (Inl ExceptionIoError, f)
                        else (Inr (), fli_next_name ops (f\<lparr>fl_is_eof := True\<rparr>))))"

text \<open>The three constructors: a directory, one entity, and a name with its status.\<close>

definition fli_open :: "('p, 'w) dir_ops \<Rightarrow> 'w \<Rightarrow> 'p wpath \<Rightarrow> exn + 'p fli" where
  "fli_open ops w path =
     (case do_readdir ops w (p_ppath path) of
        None \<Rightarrow> Inl ExceptionAccessDenied
      | Some dir \<Rightarrow>
          (case fli_advance ops
             \<lparr>fl_path = Some path, fl_dir = Some dir, fl_is_eof = False, fl_have_vpath = False,
              fl_st = zero_stat, fl_name = [], fl_vpaths = []\<rparr> of
             (Inl e, f) \<Rightarrow> Inl e
           | (Inr _, f) \<Rightarrow> Inr f))"

definition fli_single :: "'p wpath \<Rightarrow> string \<Rightarrow> 'p fli" where
  "fli_single path name =
     \<lparr>fl_path = Some path, fl_dir = None, fl_is_eof = False, fl_have_vpath = False,
      fl_st = zero_stat, fl_name = name, fl_vpaths = []\<rparr>"

definition fli_placeholder :: "string \<Rightarrow> file_stat \<Rightarrow> 'p fli" where
  "fli_placeholder name st =
     \<lparr>fl_path = None, fl_dir = None, fl_is_eof = False, fl_have_vpath = False,
      fl_st = st, fl_name = name, fl_vpaths = []\<rparr>"

definition fli_close :: "'p fli \<Rightarrow> 'p fli" where
  "fli_close f = f\<lparr>fl_dir := None\<rparr>"

definition fli_add_virtual_path :: "string \<Rightarrow> file_stat \<Rightarrow> 'p fli \<Rightarrow> 'p fli" where
  "fli_add_virtual_path name st f = f\<lparr>fl_vpaths := fl_vpaths f @ [(name, st)]\<rparr>"

definition fli_not_end :: "'p fli \<Rightarrow> bool" where
  "fli_not_end f \<longleftrightarrow> \<not> fl_is_eof f \<or> fl_have_vpath f"

definition fli_stat :: "('p, 'w) fs_ops \<Rightarrow> ('p, 'w) dir_ops \<Rightarrow> 'w \<Rightarrow> 'p fli \<Rightarrow> 'p fli" where
  "fli_stat fs ops w f =
     (case fl_path f of
        None \<Rightarrow> f
      | Some path \<Rightarrow>
          let stat_path = (if \<not> is_fake f then fs_append fs (p_ppath path) (fl_name f) else p_ppath path)
          in if \<not> fl_is_eof f then
               f\<lparr>fl_st := (case do_stat ops w stat_path of Some st \<Rightarrow> st | None \<Rightarrow> zero_stat)\<rparr>
             else f)"

definition fli_unique_fact :: "'p fli \<Rightarrow> string" where
  "fli_unique_fact f =
     (if fl_path f = None then fl_name f
      else hex (unat (fst_dev (fl_st f))) @ '':'' @ hex (unat (fst_ino (fl_st f))))"

section \<open>The formats\<close>

text \<open>The three format classes, with the data each keeps.\<close>

datatype list_format = Ls_format int | Nlst_format | Mlsd_format mdtx_state

definition half_year :: int where
  "half_year = 60 * 60 * 24 * (163 div 2)"

definition ls_format_new :: "int \<Rightarrow> list_format" where
  "ls_format_new now = Ls_format (now - half_year)"

fun calculate_size :: "list_format \<Rightarrow> 'p fli \<Rightarrow> nat" where
  "calculate_size (Ls_format border) f = length (fl_name f) + 64"
| "calculate_size Nlst_format f = length (fl_name f) + 2"
| "calculate_size (Mlsd_format facts) f = length (fl_name f) + 128"

definition months :: "string list" where
  "months = [''Jan'', ''Feb'', ''Mar'', ''Apr'', ''May'', ''Jun'',
             ''Jul'', ''Aug'', ''Sep'', ''Oct'', ''Nov'', ''Dec'']"

definition ls_size_field :: "string \<Rightarrow> 'p fli \<Rightarrow> string" where
  "ls_size_field old f =
     (if \<not> fst_is_dir (fl_st f) then snprintf16 old (pad_left space 8 (dec (fst_size (fl_st f))) @ '' '')
      else ''       1 '')"

definition ls_date_field :: "string \<Rightarrow> calendar \<Rightarrow> bool \<Rightarrow> string" where
  "ls_date_field old tm recent =
     snprintf16 old
       (if recent then
          '' '' @ pad_left space 2 (dec (tm_mday tm)) @ '' '' @ pad_left space 2 (dec (tm_min tm))
          @ '':'' @ pad_left CHR ''0'' 2 (dec (tm_sec tm)) @ '' ''
        else '' '' @ pad_left space 2 (dec (tm_mday tm)) @ ''  '' @ dec_int (tm_year tm + 1900) @ '' '')"

text \<open>\<open>PrintIt\<close>; \<open>old\<close> are the bytes of the buffer from the place that is printed to.\<close>

definition ls_print :: "('p, 'w) dir_ops \<Rightarrow> int \<Rightarrow> string \<Rightarrow> 'p fli \<Rightarrow> string" where
  "ls_print ops border old f =
     (let is_dir = fst_is_dir (fl_st f);
          bs = (if is_dir then ''drwxr-xr-x 1 ftp ftp '' else ''-rw-r--r-- 1 ftp ftp '');
          size_field = ls_size_field (drop (length bs) old) f;
          tm = calendar_of ops (fst_mtime (fl_st f));
          head = bs @ size_field @ months ! tm_mon tm;
          date_field = ls_date_field (drop (length head) old) tm (fst_mtime (fl_st f) > border)
      in head @ date_field @ fl_name f @ crlf)"

definition nlst_print :: "'p fli \<Rightarrow> string" where
  "nlst_print f = fl_name f @ crlf"

text \<open>The value of \<open>Perm\<close>.\<close>

definition mlsd_perm :: "'p fli \<Rightarrow> string" where
  "mlsd_perm f =
     (if fst_is_dir (fl_st f) then
        (case fl_path f of
           Some p \<Rightarrow>
             (if can_create_file p then ''c'' else []) @ (if can_delete_dir p then ''d'' else [])
             @ (if can_enter p then ''e'' else []) @ (if can_create_dir p then ''m'' else [])
             @ (if can_delete_file p \<or> can_delete_dir p then ''p'' else [])
         | None \<Rightarrow> ''e'')
      else
        (case fl_path f of
           Some p \<Rightarrow>
             (if can_write p then ''a'' else []) @ (if can_delete_file p then ''d'' else [])
             @ (if can_read p then ''r'' else []) @ (if can_write p then ''w'' else [])
         | None \<Rightarrow> []))
     @ (case fl_path f of Some p \<Rightarrow> if can_rename p then ''f'' else [] | None \<Rightarrow> [])"

definition mlsd_type :: "'p fli \<Rightarrow> string" where
  "mlsd_type f =
     (if fst_is_dir (fl_st f) then
        (if fl_name f = ''.'' then ''cdir'' else if fl_name f = ''..'' then ''pdir'' else ''dir'')
      else ''file'')"

definition mlsd_fact :: "mdtx_state \<Rightarrow> fact \<Rightarrow> (string \<Rightarrow> string) \<Rightarrow> string \<Rightarrow> string \<Rightarrow> string" where
  "mlsd_fact facts fc text old out =
     (if is_enabled facts fc
      then (let out = out @ get_fact_name fc @ ''='' in out @ text (drop (length out) old) @ '';'')
      else out)"

definition mlsd_print :: "('p, 'w) dir_ops \<Rightarrow> mdtx_state \<Rightarrow> string \<Rightarrow> 'p fli \<Rightarrow> string" where
  "mlsd_print ops facts old f =
     (let out = '' '';
          out = mlsd_fact facts F_TYPE (\<lambda>_. mlsd_type f) old out;
          out = mlsd_fact facts F_MODIFY (\<lambda>_. print_timeval ops (fst_mtime (fl_st f))) old out;
          out = mlsd_fact facts F_SIZE (\<lambda>o'. snprintf16 o' (dec (fst_size (fl_st f)))) old out;
          out = mlsd_fact facts F_UNIQUE (\<lambda>_. fli_unique_fact f) old out;
          out = mlsd_fact facts F_PERM (\<lambda>_. mlsd_perm f) old out;
          out = (if last out \<noteq> space then out @ '' '' else out)
      in out @ fl_name f @ crlf)"

fun print_it :: "('p, 'w) dir_ops \<Rightarrow> list_format \<Rightarrow> string \<Rightarrow> 'p fli \<Rightarrow> string" where
  "print_it ops (Ls_format border) old f = ls_print ops border old f"
| "print_it ops Nlst_format old f = nlst_print f"
| "print_it ops (Mlsd_format facts) old f = mlsd_print ops facts old f"

section \<open>The lister\<close>

text \<open>The formatter's pointer into the buffer is the offset \<open>dl_cur\<close>.\<close>

definition list_cap :: nat where
  "list_cap = 1024 * 16"

record 'p dir_lister =
  dl_bytes_used :: nat
  dl_fli :: "'p fli"
  dl_buffer :: string
  dl_cur :: nat
  dl_format :: list_format
  dl_show_hidden :: bool

text \<open>\<open>Formatter::Print\<close>; \<open>None\<close> is the result -1.\<close>

definition formatter_print :: "('p, 'w) dir_ops \<Rightarrow> 'p dir_lister \<Rightarrow> nat option \<times> 'p dir_lister" where
  "formatter_print ops d =
     (if dl_cur d + calculate_size (dl_format d) (dl_fli d) \<ge> list_cap then (None, d\<lparr>dl_cur := 0\<rparr>)
      else
        let bytes = print_it ops (dl_format d) (drop (dl_cur d) (dl_buffer d)) (dl_fli d)
        in (Some (length bytes),
            d\<lparr>dl_buffer := buf_put (dl_buffer d) (dl_cur d) bytes, dl_cur := dl_cur d + length bytes\<rparr>))"

definition hidden_name :: "string \<Rightarrow> bool" where
  "hidden_name name \<longleftrightarrow> peek name = dot \<and> \<not> (length name = 1 \<or> (length name = 2 \<and> name ! 1 = dot))"

text \<open>
  The loop of \<open>List\<close>: true when the buffer is full. The fuel is one more than the entries that are
  left; only a closed iterator that stands on a virtual path would need more, and then the
  answer is that there is more to list.
\<close>

fun list_loop ::
    "nat \<Rightarrow> ('p, 'w) fs_ops \<Rightarrow> ('p, 'w) dir_ops \<Rightarrow> 'w \<Rightarrow> 'p dir_lister \<Rightarrow> (exn + bool) \<times> 'p dir_lister" where
  "list_loop 0 fs ops w d = (Inr True, d)"
| "list_loop (Suc fuel) fs ops w d =
     (if \<not> fli_not_end (dl_fli d) then (Inr False, d)
      else if hidden_name (fl_name (dl_fli d)) \<and> \<not> dl_show_hidden d then
        (case fli_advance ops (dl_fli d) of
           (Inl e, f) \<Rightarrow> (Inl e, d\<lparr>dl_fli := f\<rparr>)
         | (Inr _, f) \<Rightarrow> list_loop fuel fs ops w (d\<lparr>dl_fli := f\<rparr>))
      else
        (case formatter_print ops (d\<lparr>dl_fli := fli_stat fs ops w (dl_fli d)\<rparr>) of
           (None, d) \<Rightarrow> (Inr True, d)
         | (Some bytes, d) \<Rightarrow>
             let d = d\<lparr>dl_bytes_used := dl_bytes_used d + bytes\<rparr>
             in (case fli_advance ops (dl_fli d) of
                   (Inl e, f) \<Rightarrow> (Inl e, d\<lparr>dl_fli := f\<rparr>)
                 | (Inr _, f) \<Rightarrow> list_loop fuel fs ops w (d\<lparr>dl_fli := f\<rparr>))))"

definition fli_left :: "'p fli \<Rightarrow> nat" where
  "fli_left f =
     (if fl_is_eof f then 0 else 1 + (case fl_dir f of None \<Rightarrow> 0 | Some (names, _) \<Rightarrow> length names))
     + length (fl_vpaths f) + (if fl_have_vpath f then 1 else 0)"

definition dir_lister_list ::
    "('p, 'w) fs_ops \<Rightarrow> ('p, 'w) dir_ops \<Rightarrow> 'w \<Rightarrow> 'p dir_lister \<Rightarrow> (exn + bool) \<times> 'p dir_lister" where
  "dir_lister_list fs ops w d =
     list_loop (Suc (fli_left (dl_fli d))) fs ops w (d\<lparr>dl_bytes_used := 0\<rparr>)"

definition dir_lister_get_buffer :: "'p dir_lister \<Rightarrow> string" where
  "dir_lister_get_buffer d = take (dl_bytes_used d) (dl_buffer d)"

definition dir_lister_close :: "'p dir_lister \<Rightarrow> 'p dir_lister" where
  "dir_lister_close d = d\<lparr>dl_fli := fli_close (dl_fli d)\<rparr>"

text \<open>The status of a virtual path: its directory's, or that of a directory when there is none.\<close>

definition vpath_stat :: "('p, 'w) dir_ops \<Rightarrow> 'w \<Rightarrow> 'p \<Rightarrow> file_stat" where
  "vpath_stat ops w p =
     (case do_stat ops w p of Some st \<Rightarrow> st | None \<Rightarrow> zero_stat\<lparr>fst_is_dir := True\<rparr>)"

fun add_vpaths ::
    "('p, 'w) fs_ops \<Rightarrow> ('p, 'w) dir_ops \<Rightarrow> 'w \<Rightarrow> ('p, 'cl) session \<Rightarrow> 'p wpath \<Rightarrow> string list \<Rightarrow>
     'p fli \<Rightarrow> exn + 'p fli" where
  "add_vpaths fs ops w ses path [] f = Inr f"
| "add_vpaths fs ops w ses path (name # names) f =
     bindE (fs_exists fs w (fs_append fs (p_ppath path) name)) (\<lambda>ex.
       add_vpaths fs ops w ses path names
         (if ex then f
          else (case session_get_path fs ses (p_vpath path @ [slash] @ name) DIRECTORY of
                  Inl e \<Rightarrow> f
                | Inr vpath \<Rightarrow> fli_add_virtual_path name (vpath_stat ops w (p_ppath vpath)) f)))"

text \<open>The two constructors; \<open>garbage\<close> is what the buffer holds at first.\<close>

definition dir_lister_new ::
    "('p, 'w) fs_ops \<Rightarrow> ('p, 'w) dir_ops \<Rightarrow> string \<Rightarrow> 'w \<Rightarrow> list_format \<Rightarrow> 'p wpath \<Rightarrow> ('p, 'cl) session \<Rightarrow>
     bool \<Rightarrow> exn + 'p dir_lister" where
  "dir_lister_new fs ops garbage w format path ses list_hidden_files =
     bindE (fli_open ops w path) (\<lambda>f.
       bindE (add_vpaths fs ops w ses path (session_get_vpaths ses (p_vpath path)) f) (\<lambda>f.
         Inr \<lparr>dl_bytes_used = 0, dl_fli = f, dl_buffer = garbage, dl_cur = 0, dl_format = format,
              dl_show_hidden = list_hidden_files \<and> can_see_hidden_files path\<rparr>))"

definition dir_lister_single :: "string \<Rightarrow> list_format \<Rightarrow> 'p wpath \<Rightarrow> 'p dir_lister" where
  "dir_lister_single garbage format path =
     \<lparr>dl_bytes_used = 0, dl_fli = fli_single path (p_vpath path), dl_buffer = garbage, dl_cur = 0,
      dl_format = format, dl_show_hidden = False\<rparr>"

section \<open>The listing as a file\<close>

record 'p ftp_list =
  li_is_eof :: bool
  li_pos :: nat
  li_lister :: "'p dir_lister"

definition ftp_list_new :: "'p dir_lister \<Rightarrow> 'p ftp_list" where
  "ftp_list_new d = \<lparr>li_is_eof = False, li_pos = 0, li_lister = d\<rparr>"

definition ftp_list_read ::
    "('p, 'w) fs_ops \<Rightarrow> ('p, 'w) dir_ops \<Rightarrow> 'w \<Rightarrow> nat \<Rightarrow> 'p ftp_list \<Rightarrow> (exn + string) \<times> 'p ftp_list" where
  "ftp_list_read fs ops w bytes l =
     (case dir_lister_list fs ops w (li_lister l) of
        (Inl e, d) \<Rightarrow> (Inl e, l\<lparr>li_lister := d\<rparr>)
      | (Inr unfinished, d) \<Rightarrow>
          (Inr (dir_lister_get_buffer d),
           l\<lparr>li_is_eof := \<not> unfinished, li_pos := li_pos l + dl_bytes_used d, li_lister := d\<rparr>))"

definition ftp_list_close :: "'p ftp_list \<Rightarrow> 'p ftp_list" where
  "ftp_list_close l = l\<lparr>li_lister := dir_lister_close (li_lister l)\<rparr>"

text \<open>\<open>WfdeFtpList\<close> as an implementation of the file interface; it cannot be written to.\<close>

definition ftp_list_ops :: "('p, 'w) fs_ops \<Rightarrow> ('p, 'w) dir_ops \<Rightarrow> ('p ftp_list, 'w) file_ops" where
  "ftp_list_ops fs ops =
     \<lparr>fo_read = ftp_list_read fs ops, fo_write = (\<lambda>bytes lw. (Inr 0, lw)), fo_fill = (\<lambda>data lw. lw),
      fo_set_bytes_written = (\<lambda>bytes lw. (Inr (), lw)), fo_seek = (\<lambda>pos l. (Inr (), l)),
      fo_get_pos = li_pos, fo_get_size = (\<lambda>l. 0), fo_is_eof = li_is_eof,
      fo_close = (\<lambda>(l, w). (Inr (), ftp_list_close l, w)), fo_get_operation = (\<lambda>l. READ),
      fo_get_segment_size = (\<lambda>l. 1024 * 16)\<rparr>"

section \<open>Facts about one path\<close>

definition get_mlst_facts ::
    "('p, 'w) fs_ops \<Rightarrow> ('p, 'w) dir_ops \<Rightarrow> string \<Rightarrow> 'w \<Rightarrow> mdtx_state \<Rightarrow> 'p wpath \<Rightarrow> exn + string" where
  "get_mlst_facts fs ops garbage w facts path =
     (case dir_lister_list fs ops w (dir_lister_single garbage (Mlsd_format facts) path) of
        (Inl e, d) \<Rightarrow> Inl e
      | (Inr _, d) \<Rightarrow>
          let rval = dir_lister_get_buffer d
          in Inr (if length rval > 2 then take (length rval - 2) rval else rval))"

definition get_rfc3659_file_time :: "('p, 'w) dir_ops \<Rightarrow> 'w \<Rightarrow> 'p wpath \<Rightarrow> exn + string" where
  "get_rfc3659_file_time ops w path =
     (if \<not> can_list path then Inl ExceptionAccessDenied
      else (case do_stat ops w (p_ppath path) of
              None \<Rightarrow> Inl ExceptionIoError
            | Some st \<Rightarrow> Inr (print_timeval ops (fst_mtime st))))"

section \<open>No entry is longer than announced\<close>

text \<open>What the system promises: calendar fields in their ranges, file sizes below \<open>2 ^ 63\<close>.\<close>

definition calendar_ok :: "calendar \<Rightarrow> bool" where
  "calendar_ok tm \<longleftrightarrow> tm_mon tm < 12 \<and> tm_mday tm \<le> 31 \<and> tm_hour tm < 24 \<and> tm_min tm < 60
     \<and> tm_sec tm \<le> 60 \<and> - (2 ^ 31) \<le> tm_year tm \<and> tm_year tm < 2 ^ 31 - 1900"

definition dir_lawful :: "('p, 'w) dir_ops \<Rightarrow> bool" where
  "dir_lawful ops \<longleftrightarrow> (\<forall>t tm. do_gmtime ops t = Some tm \<longrightarrow> calendar_ok tm)
     \<and> (\<forall>w p st. do_stat ops w p = Some st \<longrightarrow> fst_size st < 2 ^ 63)"

lemma length_digits:
  assumes "n < 10 ^ k" and "0 < k"
  shows "length (dec n) \<le> k"
  using assms
proof (induction k arbitrary: n)
  case (Suc k)
  show ?case
  proof (cases "n < 10")
    case True
    then show ?thesis by (subst digits_in.simps) simp
  next
    case False
    then have "0 < k" using Suc.prems(1) by (cases k) auto
    then have "length (dec (n div 10)) \<le> k" using Suc by (intro Suc.IH) auto
    then show ?thesis using False by (subst digits_in.simps) simp
  qed
qed simp

lemma length_dec_size: "n < 2 ^ 63 \<Longrightarrow> length (dec n) \<le> 19"
  by (rule length_digits) (auto elim: less_trans)

lemma length_dec_small: "n < 100 \<Longrightarrow> length (dec n) \<le> 2"
  by (rule length_digits) auto

lemma length_dec_int:
  assumes "- (2 ^ 31) \<le> i" and "i < 2 ^ 31"
  shows "length (dec_int i) \<le> 11"
proof -
  have "length (dec n) \<le> 10" if "n \<le> 2 ^ 31" for n by (rule length_digits) (use that in auto)
  from this[of "nat i"] this[of "nat (- i)"] show ?thesis using assms by (auto simp: dec_int_def nat_le_iff)
qed

lemma length_pad_left: "length (pad_left c n s) = max n (length s)"
  by (auto simp: pad_left_def)

lemma length_snprintf16: "length (snprintf16 old s) \<le> length s"
  by (auto simp: snprintf16_def)

lemma calendar_of_ok: "dir_lawful ops \<Longrightarrow> calendar_ok (calendar_of ops t)"
  by (auto simp: calendar_of_def dir_lawful_def calendar_ok_def split: option.splits)

lemma length_months: "n < 12 \<Longrightarrow> length (months ! n) = 3"
  by (auto simp: months_def less_Suc_eq numeral_eq_Suc)

lemma ls_print_length:
  assumes "dir_lawful ops" and "fst_size (fl_st f) < 2 ^ 63"
  shows "length (ls_print ops border old f) \<le> length (fl_name f) + 64"
proof -
  let ?tm = "calendar_of ops (fst_mtime (fl_st f))"
  have tm: "calendar_ok ?tm" by (rule calendar_of_ok[OF assms(1)])
  have sz: "length (ls_size_field o' f) \<le> 20" for o'
    using length_snprintf16[of o' "pad_left space 8 (dec (fst_size (fl_st f))) @ '' ''"]
      length_dec_size[OF assms(2)]
    by (auto simp: ls_size_field_def length_pad_left)
  have "length (dec (tm_mday ?tm)) \<le> 2" "length (dec (tm_min ?tm)) \<le> 2" "length (dec (tm_sec ?tm)) \<le> 2"
    "length (dec_int (tm_year ?tm + 1900)) \<le> 11"
    using tm by (auto simp: calendar_ok_def intro!: length_dec_small length_dec_int)
  then have dt: "length (ls_date_field o' ?tm recent) \<le> 18" for o' recent
    unfolding ls_date_field_def
    by (intro order.trans[OF length_snprintf16]) (auto simp: length_pad_left)
  have mo: "length (months ! tm_mon ?tm) = 3" using tm by (intro length_months) (simp add: calendar_ok_def)
  have "length (ls_size_field o1 f) + length (ls_date_field o2 ?tm recent) \<le> 38" for o1 o2 recent
    using add_mono[OF sz[of o1] dt[of o2 recent]] by simp
  then show ?thesis using mo unfolding ls_print_def Let_def by simp
qed

lemma mlsd_fact_off: "fc \<noteq> F_SIZE \<Longrightarrow> mlsd_fact facts fc tx old out = out"
  by (simp add: mlsd_fact_def is_enabled_size)

lemma mlsd_print_size:
  "mlsd_print ops facts old f =
     (let out = mlsd_fact facts F_SIZE (\<lambda>o'. snprintf16 o' (dec (fst_size (fl_st f)))) old '' '';
          out = (if last out \<noteq> space then out @ '' '' else out)
      in out @ fl_name f @ crlf)"
  by (simp only: mlsd_print_def Let_def mlsd_fact_off[of F_TYPE] mlsd_fact_off[of F_MODIFY]
      mlsd_fact_off[of F_UNIQUE] mlsd_fact_off[of F_PERM] fact.distinct not_False_eq_True)

lemma mlsd_print_length:
  assumes "fst_size (fl_st f) < 2 ^ 63"
  shows "length (mlsd_print ops facts old f) \<le> length (fl_name f) + 128"
proof -
  have "length (snprintf16 o' (dec (fst_size (fl_st f)))) \<le> 19" for o'
    using length_snprintf16 length_dec_size[OF assms] by (rule order.trans)
  then have "length (mlsd_fact facts F_SIZE (\<lambda>o'. snprintf16 o' (dec (fst_size (fl_st f)))) old '' '') \<le> 26"
    by (simp add: mlsd_fact_def get_fact_name_def fact_names_def Let_def)
  then show ?thesis unfolding mlsd_print_size Let_def by simp
qed

lemma entry_length:
  assumes "dir_lawful ops" and "fst_size (fl_st f) < 2 ^ 63"
  shows "length (print_it ops fmt old f) \<le> calculate_size fmt f"
  using ls_print_length[OF assms] mlsd_print_length[OF assms(2)]
  by (cases fmt) (simp_all add: nlst_print_def)

text \<open>The entries of a listing fit the space that is reserved for them. With the calendar and
  the file sizes the system promises, no format prints more bytes than it announced, so an entry
  that the formatter prints ends before the end of the buffer, and the buffer keeps its size.\<close>
theorem listing_entry_fits:
  assumes "dir_lawful ops" and "fst_size (fl_st (dl_fli d)) < 2 ^ 63" and "length (dl_buffer d) = list_cap"
    and "formatter_print ops d = (Some bytes, d')"
  shows "bytes \<le> calculate_size (dl_format d) (dl_fli d) \<and> dl_cur d' < list_cap
    \<and> length (dl_buffer d') = list_cap
    \<and> take (dl_cur d') (dl_buffer d') = take (dl_cur d) (dl_buffer d) @ drop (dl_cur d) (take (dl_cur d') (dl_buffer d'))"
proof -
  let ?f = "dl_fli d"
  let ?b = "print_it ops (dl_format d) (drop (dl_cur d) (dl_buffer d)) ?f"
  have le: "length ?b \<le> calculate_size (dl_format d) ?f"
    by (rule entry_length[OF assms(1,2)])
  have d: "dl_cur d + calculate_size (dl_format d) ?f < list_cap" and b: "bytes = length ?b"
    and d': "d' = d\<lparr>dl_buffer := buf_put (dl_buffer d) (dl_cur d) ?b, dl_cur := dl_cur d + length ?b\<rparr>"
    using assms(4) by (auto simp: formatter_print_def Let_def split: if_splits)
  have fits: "dl_cur d + length ?b \<le> length (dl_buffer d)" using le d assms(3) by simp
  have "take (dl_cur d) (dl_buffer d) = take (dl_cur d) (take (dl_cur d') (dl_buffer d'))"
    using buf_put_take[OF fits] fits by (simp add: d')
  then have "take (dl_cur d') (dl_buffer d') = take (dl_cur d) (dl_buffer d) @ drop (dl_cur d) (take (dl_cur d') (dl_buffer d'))"
    by (metis append_take_drop_id)
  moreover have "dl_cur d' < list_cap" "length (dl_buffer d') = list_cap"
    using fits le d assms(3) length_buf_put[OF fits] by (simp_all add: d')
  ultimately show ?thesis using le b by blast
qed

section \<open>What a listing shows\<close>

text \<open>
  The contract of a listing: the status and the line of each visible entry, in order. Sizes below
  \<open>10 ^ 14\<close> and years up to \<open>10 ^ 6\<close> are printed without truncation.
\<close>

definition stat_or_zero :: "('p, 'w) dir_ops \<Rightarrow> 'w \<Rightarrow> 'p \<Rightarrow> file_stat" where
  "stat_or_zero ops w p = (case do_stat ops w p of Some st \<Rightarrow> st | None \<Rightarrow> zero_stat)"

definition entry_line :: "('p, 'w) dir_ops \<Rightarrow> list_format \<Rightarrow> 'p wpath \<Rightarrow> string \<times> file_stat \<Rightarrow> string" where
  "entry_line ops fmt path e =
     print_it ops fmt [] ((fli_placeholder (fst e) (snd e))\<lparr>fl_path := Some path\<rparr>)"

definition listing_text ::
    "('p, 'w) dir_ops \<Rightarrow> list_format \<Rightarrow> bool \<Rightarrow> 'p wpath \<Rightarrow> (string \<times> file_stat) list \<Rightarrow> string" where
  "listing_text ops fmt show_hidden path entries =
     concat (map (entry_line ops fmt path) (filter (\<lambda>e. \<not> hidden_name (fst e) \<or> show_hidden) entries))"

definition st_small :: "file_stat \<Rightarrow> bool" where
  "st_small st \<longleftrightarrow> fst_size st < 10 ^ 14"

text \<open>
  What a listing relies on: times and sizes of this age, and that a \<open>string_ref\<close> keeps its length,
  whatever has become of the bytes.
\<close>

definition dir_printable :: "('p, 'w) dir_ops \<Rightarrow> bool" where
  "dir_printable ops \<longleftrightarrow>
     (\<forall>t tm. do_gmtime ops t = Some tm \<longrightarrow> calendar_ok tm \<and> - 1900 \<le> tm_year tm \<and> tm_year tm \<le> 10 ^ 6)
     \<and> (\<forall>w p st. do_stat ops w p = Some st \<longrightarrow> st_small st)
     \<and> (\<forall>name. length (do_dangling ops name) = length name)"

lemma dir_printable_lawful: "dir_printable ops \<Longrightarrow> dir_lawful ops"
  by (fastforce simp: dir_printable_def dir_lawful_def st_small_def)

lemma stat_or_zero_small: "dir_printable ops \<Longrightarrow> st_small (stat_or_zero ops w p)"
  by (auto simp: stat_or_zero_def dir_printable_def st_small_def zero_stat_def split: option.splits)

text \<open>What is printed then depends on the path, the name and the status only.\<close>

lemma snprintf16_short: "length s \<le> 15 \<Longrightarrow> snprintf16 old s = s"
  by (simp add: snprintf16_def)

lemma ls_size_field_short:
  assumes "st_small (fl_st f)"
  shows "ls_size_field old f = ls_size_field [] f"
proof -
  have "length (dec (fst_size (fl_st f))) \<le> 14"
    using assms by (intro length_digits) (auto simp: st_small_def)
  then show ?thesis by (simp add: ls_size_field_def snprintf16_short length_pad_left)
qed

lemma ls_date_field_short:
  assumes "dir_printable ops"
  shows "ls_date_field old (calendar_of ops t) recent = ls_date_field [] (calendar_of ops t) recent"
proof -
  let ?tm = "calendar_of ops t"
  have tm: "calendar_ok ?tm \<and> - 1900 \<le> tm_year ?tm \<and> tm_year ?tm \<le> 10 ^ 6"
    using assms by (auto simp: calendar_of_def dir_printable_def calendar_ok_def split: option.splits)
  have "length (dec (tm_mday ?tm)) \<le> 2" "length (dec (tm_min ?tm)) \<le> 2" "length (dec (tm_sec ?tm)) \<le> 2"
    using tm by (auto simp: calendar_ok_def intro!: length_dec_small)
  moreover have "length (dec (nat (tm_year ?tm + 1900))) \<le> 7"
    using tm by (intro length_digits) auto
  ultimately show ?thesis using tm
    by (cases recent) (simp_all add: ls_date_field_def snprintf16_short length_pad_left dec_int_def)
qed

lemma mlsd_fact_size_short:
  assumes "st_small (fl_st f)"
  shows "mlsd_fact facts F_SIZE (\<lambda>o'. snprintf16 o' (dec (fst_size (fl_st f)))) old out
    = mlsd_fact facts F_SIZE (\<lambda>o'. snprintf16 o' (dec (fst_size (fl_st f)))) [] out"
proof -
  have "length (dec (fst_size (fl_st f))) \<le> 14"
    using assms by (intro length_digits) (auto simp: st_small_def)
  then show ?thesis by (simp add: mlsd_fact_def snprintf16_short Let_def)
qed

lemma print_it_line:
  assumes "dir_printable ops" and "st_small (fl_st f)" and "fl_path f = Some path"
  shows "print_it ops fmt old f = entry_line ops fmt path (fl_name f, fl_st f)"
proof -
  let ?g = "(fli_placeholder (fl_name f) (fl_st f))\<lparr>fl_path := Some path\<rparr>"
  have g: "fl_st ?g = fl_st f" "fl_name ?g = fl_name f" "fl_path ?g = fl_path f"
    by (simp_all add: fli_placeholder_def assms(3))
  have "print_it ops fmt old f = print_it ops fmt [] f"
  proof (cases fmt)
    case (Ls_format border)
    show ?thesis unfolding Ls_format print_it.simps ls_print_def Let_def
      unfolding ls_size_field_short[OF assms(2), of "drop _ _"] ls_date_field_short[OF assms(1), of "drop _ _"] ..
  next
    case (Mlsd_format facts)
    show ?thesis unfolding Mlsd_format print_it.simps mlsd_print_size
      unfolding mlsd_fact_size_short[OF assms(2), of facts old "'' ''"] ..
  qed simp
  moreover have "print_it ops fmt [] f = print_it ops fmt [] ?g"
    by (cases fmt) (simp_all only: print_it.simps ls_print_def nlst_print_def mlsd_print_def g
        ls_size_field_def mlsd_type_def mlsd_perm_def fli_unique_fact_def)
  ultimately show ?thesis by (simp add: entry_line_def)
qed

end
