(* ===== verification/FtpListFacts.thy ===== *)
theory FtpListFacts
  imports FtpList
begin

text \<open>
  A listing read to its end shows every visible entry once, in order, and then the mount points,
  with the names that are read through the dangling references:
  the listing file is an instance of the locale \<open>file_source\<close>.
\<close>

section \<open>The entries an iterator will still give\<close>









text \<open>The current entry, after its status was read.\<close>

lemma fli_stat_simps [simp]:
  "fl_name (fli_stat fs ops w f) = fl_name f" "fl_path (fli_stat fs ops w f) = fl_path f"
  "fl_dir (fli_stat fs ops w f) = fl_dir f" "fl_is_eof (fli_stat fs ops w f) = fl_is_eof f"
  "fl_have_vpath (fli_stat fs ops w f) = fl_have_vpath f" "fl_vpaths (fli_stat fs ops w f) = fl_vpaths f"
  "fli_left (fli_stat fs ops w f) = fli_left f" "fli_not_end (fli_stat fs ops w f) = fli_not_end f"
  by (simp_all add: fli_stat_def Let_def fli_left_def fli_not_end_def split: option.splits)





section \<open>One batch\<close>









section \<open>The whole listing\<close>








section \<open>A concrete listing\<close>

definition demo_dirs :: "(demo_path, demo_disk) dir_ops" where
  "demo_dirs =
     \<lparr>do_readdir = (\<lambda>w p. Some (map (\<lambda>(q, _). last q) (filter (\<lambda>(q, _). q \<noteq> [] \<and> butlast q = p) w), False)),
      do_stat = (\<lambda>w p. case map_of w p of
                   None \<Rightarrow> None
                 | Some Dir \<Rightarrow> Some (zero_stat\<lparr>fst_is_dir := True\<rparr>)
                 | Some (Reg b) \<Rightarrow> Some (zero_stat\<lparr>fst_size := length b mod 1000\<rparr>)),
      do_gmtime = (\<lambda>t. Some \<lparr>tm_year = 70, tm_mon = 0, tm_mday = 1, tm_hour = 0, tm_min = 0, tm_sec = 0\<rparr>),
      do_dangling = (\<lambda>name. replicate (length name) CHR ''?'')\<rparr>"

lemma demo_dirs_printable: "dir_printable demo_dirs"
  by (auto simp: dir_printable_def demo_dirs_def calendar_ok_def st_small_def zero_stat_def
      split: option.splits node.splits)

definition home_mounts :: "demo_path paths" where
  "home_mounts =
     [mk_path ''/'' [''srv''] (to_perm_bits [CAN_LIST, CAN_ENTER, CAN_READ, IS_RECURSIVE]) DIRECTORY,
      mk_path ''/in'' [''in''] (to_perm_bits [CAN_CREATE_FILE, CAN_WRITE, IS_RECURSIVE]) DIRECTORY]"




theorem listing_entry_fits_witness:
  "\<exists>d'. formatter_print demo_dirs (dir_lister_single (replicate list_cap nul) Nlst_format (hd home_mounts)) = (Some 3, d')
     \<and> length (dl_buffer d') = list_cap"
proof -
  let ?d = "dir_lister_single (replicate list_cap nul) Nlst_format (hd home_mounts)"
  have n: "fl_name (dl_fli ?d) = ''/''" "dl_cur ?d = 0" "dl_format ?d = Nlst_format"
    and sz: "fst_size (fl_st (dl_fli ?d)) < 2 ^ 63" and len: "length (dl_buffer ?d) = list_cap"
    by (simp_all add: dir_lister_single_def fli_single_def zero_stat_def home_mounts_def mk_path_def make_valid_def)
  have "3 < list_cap" by (simp add: list_cap_def)
  then have "fst (formatter_print demo_dirs ?d) = Some 3"
    by (simp add: formatter_print_def n nlst_print_def)
  then obtain d' where "formatter_print demo_dirs ?d = (Some 3, d')" by (metis prod.collapse)
  with listing_entry_fits[OF dir_printable_lawful[OF demo_dirs_printable] sz len this] show ?thesis by blast
qed

end
