(* ===== verification/FtpListWin.thy ===== *)
theory FtpListWin
  imports FtpList
begin

text \<open>
  The directory iterator of the Windows build, \<open>include/wfde/win/FileListIterator.h\<close>, beside that of \<open>FtpList\<close>
  for the other systems. \<open>FindFirstFile\<close> is a parameter: it fails, or gives the first entry, those that
  \<open>FindNextFile\<close> gives after it, and what is in the buffer once there is no more, which is not defined.
\<close>

section \<open>The system calls\<close>

record find_data =
  fd_attributes :: "32 word"
  fd_last_write_time :: "64 word"
  fd_file_size_high :: "32 word"
  fd_file_size_low :: "32 word"
  fd_file_name :: string

record ('p, 'w) win_ops =
  wo_find_first :: "'w \<Rightarrow> 'p \<Rightarrow> (find_data \<times> find_data list \<times> find_data) option"
  wo_dangling :: "string \<Rightarrow> string"

definition zero_find_data :: find_data where
  "zero_find_data = \<lparr>fd_attributes = 0, fd_last_write_time = 0, fd_file_size_high = 0, fd_file_size_low = 0, fd_file_name = []\<rparr>"

section \<open>FindFileWrapper\<close>

text \<open>\<open>ff_handle\<close> is what the handle will still give, if it is valid; \<open>ff_leaves\<close> what the last call leaves in \<open>ff_data\<close>.\<close>

record find_file =
  ff_handle :: "find_data list option"
  ff_eof :: bool
  ff_data :: find_data
  ff_leaves :: find_data

definition find_file_none :: find_file where
  "find_file_none = \<lparr>ff_handle = None, ff_eof = True, ff_data = zero_find_data, ff_leaves = zero_find_data\<rparr>"

definition find_file_open :: "('p, 'w) win_ops \<Rightarrow> 'w \<Rightarrow> 'p \<Rightarrow> exn + find_file" where
  "find_file_open ops w p =
     (case wo_find_first ops w p of
        None \<Rightarrow> Inl ExceptionAccessDenied
      | Some (d, ds, left) \<Rightarrow> Inr \<lparr>ff_handle = Some ds, ff_eof = False, ff_data = d, ff_leaves = left\<rparr>)"

definition find_file_advance :: "find_file \<Rightarrow> bool \<times> find_file" where
  "find_file_advance f =
     (case ff_handle f of
        Some (d # ds) \<Rightarrow> (True, f\<lparr>ff_handle := Some ds, ff_data := d, ff_eof := False\<rparr>)
      | _ \<Rightarrow> (False, f\<lparr>ff_data := ff_leaves f, ff_eof := True\<rparr>))"

definition find_file_close :: "find_file \<Rightarrow> find_file" where
  "find_file_close f = f\<lparr>ff_handle := None\<rparr>"

definition find_file_is_initialized :: "find_file \<Rightarrow> bool" where
  "find_file_is_initialized f \<longleftrightarrow> ff_handle f \<noteq> None"

section \<open>The iterator\<close>

record 'p wli =
  wl_path :: "'p wpath option"
  wl_ffw :: find_file
  wl_is_eof :: bool
  wl_have_vpath :: bool
  wl_name :: string
  wl_vpaths :: "(string \<times> file_stat) list"

definition wli_is_fake :: "'p wli \<Rightarrow> bool" where
  "wli_is_fake f \<longleftrightarrow> \<not> find_file_is_initialized (wl_ffw f)"

definition wli_capture :: "('p, 'w) win_ops \<Rightarrow> 'p wli \<Rightarrow> 'p wli" where
  "wli_capture ops f =
     (if \<not> wl_is_eof f then f\<lparr>wl_name := fd_file_name (ff_data (wl_ffw f))\<rparr>
      else if wl_vpaths f = [] then f\<lparr>wl_name := [], wl_have_vpath := False\<rparr>
      else f\<lparr>wl_name := wo_dangling ops (fst (last (wl_vpaths f))), wl_vpaths := butlast (wl_vpaths f), wl_have_vpath := True\<rparr>)"

definition wli_advance :: "('p, 'w) win_ops \<Rightarrow> 'p wli \<Rightarrow> 'p wli" where
  "wli_advance ops f =
     (if wli_is_fake f then f\<lparr>wl_is_eof := True\<rparr>
      else
        let f = (if \<not> wl_is_eof f
                 then (case find_file_advance (wl_ffw f) of (found, ffw) \<Rightarrow> f\<lparr>wl_ffw := ffw, wl_is_eof := \<not> found\<rparr>)
                 else f)
        in wli_capture ops f)"

text \<open>The three constructors; the status of a placeholder is not kept.\<close>

definition wli_open :: "('p, 'w) win_ops \<Rightarrow> 'w \<Rightarrow> 'p wpath \<Rightarrow> exn + 'p wli" where
  "wli_open ops w path =
     bindE (find_file_open ops w (p_ppath path)) (\<lambda>ffw.
       Inr (wli_capture ops
         \<lparr>wl_path = Some path, wl_ffw = ffw, wl_is_eof = ff_eof ffw, wl_have_vpath = False, wl_name = [], wl_vpaths = []\<rparr>))"

definition wli_single :: "'p wpath \<Rightarrow> string \<Rightarrow> 'p wli" where
  "wli_single path name =
     \<lparr>wl_path = Some path, wl_ffw = find_file_none, wl_is_eof = False, wl_have_vpath = False, wl_name = name, wl_vpaths = []\<rparr>"

definition wli_placeholder :: "string \<Rightarrow> file_stat \<Rightarrow> 'p wli" where
  "wli_placeholder name st =
     \<lparr>wl_path = None, wl_ffw = find_file_none, wl_is_eof = False, wl_have_vpath = False, wl_name = name, wl_vpaths = []\<rparr>"

definition wli_close :: "'p wli \<Rightarrow> 'p wli" where
  "wli_close f = f\<lparr>wl_ffw := find_file_close (wl_ffw f)\<rparr>"

definition wli_add_virtual_path :: "string \<Rightarrow> file_stat \<Rightarrow> 'p wli \<Rightarrow> 'p wli" where
  "wli_add_virtual_path name st f = f\<lparr>wl_vpaths := wl_vpaths f @ [(name, st)]\<rparr>"

definition wli_not_end :: "'p wli \<Rightarrow> bool" where
  "wli_not_end f \<longleftrightarrow> \<not> wl_is_eof f \<or> wl_have_vpath f"

definition wli_get_size :: "'p wli \<Rightarrow> 64 word" where
  "wli_get_size f =
     (let d = ff_data (wl_ffw f) in ucast (fd_file_size_high d) * (0xFFFFFFFF + 1) + ucast (fd_file_size_low d))"

definition wli_is_directory :: "'p wli \<Rightarrow> bool" where
  "wli_is_directory f \<longleftrightarrow> fd_attributes (ff_data (wl_ffw f)) AND 0x10 \<noteq> 0"

definition wli_unique_fact :: "'p wli \<Rightarrow> string" where
  "wli_unique_fact f = (if wl_path f = None then wl_name f else [])"

text \<open>
  \<open>filetime_to_timespec\<close>: seconds and nanoseconds since 1970, from units of 100 nanoseconds since 1601. Both
  are cast to \<open>int\<close>, which keeps their low 32 bits.
\<close>

definition to_int :: "int \<Rightarrow> int" where
  "to_int i = sint (word_of_int i :: 32 word)"

definition timespec_to_filetime_offset :: int where
  "timespec_to_filetime_offset = 27111902 * 2 ^ 32 + 3577643008"

definition filetime_to_timespec :: "64 word \<Rightarrow> int \<times> int" where
  "filetime_to_timespec ft =
     (let sec = to_int ((sint ft - timespec_to_filetime_offset) sdiv 10000000)
      in (sec, to_int ((sint ft - timespec_to_filetime_offset - sec * 10000000) * 100)))"

definition wli_get_modify_time :: "'p wli \<Rightarrow> int \<times> int" where
  "wli_get_modify_time f = filetime_to_timespec (fd_last_write_time (ff_data (wl_ffw f)))"

section \<open>The two iterators step alike\<close>

text \<open>What is done to an iterator, and what it shows.\<close>

datatype iter_op = Iter_advance | Iter_add_virtual_path string file_stat | Iter_close

fun fli_op :: "('p, 'w) dir_ops \<Rightarrow> iter_op \<Rightarrow> 'p fli \<Rightarrow> 'p fli" where
  "fli_op ops Iter_advance f = snd (fli_advance ops f)"
| "fli_op ops (Iter_add_virtual_path name st) f = fli_add_virtual_path name st f"
| "fli_op ops Iter_close f = fli_close f"

fun wli_op :: "('p, 'w) win_ops \<Rightarrow> iter_op \<Rightarrow> 'p wli \<Rightarrow> 'p wli" where
  "wli_op ops Iter_advance f = wli_advance ops f"
| "wli_op ops (Iter_add_virtual_path name st) f = wli_add_virtual_path name st f"
| "wli_op ops Iter_close f = wli_close f"

definition same_entries :: "'p fli \<Rightarrow> 'p wli \<Rightarrow> bool" where
  "same_entries f g \<longleftrightarrow> fl_path f = wl_path g \<and> fl_name f = wl_name g \<and> fl_is_eof f = wl_is_eof g
     \<and> fl_have_vpath f = wl_have_vpath g \<and> fl_vpaths f = wl_vpaths g
     \<and> fl_dir f = map_option (\<lambda>ds. (map fd_file_name ds, False)) (ff_handle (wl_ffw g))"

lemma same_entries_shows:
  "same_entries f g \<Longrightarrow> fl_name f = wl_name g \<and> fli_not_end f = wli_not_end g \<and> is_fake f = wli_is_fake g"
  by (auto simp: same_entries_def fli_not_end_def wli_not_end_def is_fake_def wli_is_fake_def find_file_is_initialized_def)

lemma same_entries_op:
  assumes "same_entries f g" and "do_dangling ops = wo_dangling wops"
  shows "same_entries (fli_op ops oper f) (wli_op wops oper g)"
proof (cases oper)
  case Iter_advance
  show ?thesis
  proof (cases "ff_handle (wl_ffw g)")
    case None
    then show ?thesis using assms Iter_advance
      by (simp add: same_entries_def fli_advance_def wli_advance_def wli_is_fake_def find_file_is_initialized_def)
  next
    case (Some ds)
    then show ?thesis using assms Iter_advance
      by (cases ds) (auto simp: same_entries_def fli_advance_def wli_advance_def wli_is_fake_def find_file_is_initialized_def
          find_file_advance_def wli_capture_def fli_next_name_def Let_def)
  qed
qed (use assms in \<open>simp_all add: same_entries_def fli_add_virtual_path_def wli_add_virtual_path_def fli_close_def
    wli_close_def find_file_close_def\<close>)

text \<open>
  Two iterators that agree stay so, whatever is done with them, advancing, adding virtual paths and
  closing in any order: they show the same name, end at the same moment and are the same as to
  being fake. That they agree when they are opened is another matter, see below.
\<close>

lemma same_entries_run:
  "same_entries f g \<Longrightarrow> do_dangling ops = wo_dangling wops \<Longrightarrow>
     same_entries (fold (fli_op ops) opers f) (fold (wli_op wops) opers g)"
  by (induction opers arbitrary: f g) (simp_all add: same_entries_op)

section \<open>Times and sizes\<close>

lemma to_int_small: "- (2 ^ 31) \<le> i \<Longrightarrow> i < 2 ^ 31 \<Longrightarrow> to_int i = i"
  by (simp add: to_int_def signed_of_int signed_take_bit_int_eq_self)

lemma to_int_wraps:
  assumes "2 ^ 31 \<le> i" and "i < 2 ^ 32"
  shows "to_int i = i - 2 ^ 32"
proof -
  have "(i + 2 ^ 31) mod 2 ^ 32 = (i - 2 ^ 31 + 2 ^ 32) mod 2 ^ 32" by (rule arg_cong[where f = "\<lambda>z. z mod 2 ^ 32"]) simp
  also have "\<dots> = i - 2 ^ 31" unfolding mod_add_self2 by (rule mod_pos_pos_trivial) (use assms in simp_all)
  finally show ?thesis by (simp add: to_int_def int_word_sint)
qed

lemma timespec_exact:
  assumes "0 \<le> t" and "t div 10000000 < 2 ^ 31" and "sint ft = timespec_to_filetime_offset + t"
  shows "filetime_to_timespec ft = (t div 10000000, t mod 10000000 * 100)"
proof -
  have sec: "to_int (t sdiv 10000000) = t div 10000000"
  proof -
    have "t sdiv 10000000 = t div 10000000" using assms(1) by (cases "t = 0") (simp_all add: signed_divide_int_def)
    moreover have "0 \<le> t div 10000000" using assms(1) by simp
    ultimately show ?thesis using assms(2) by (simp add: to_int_small)
  qed
  have "to_int (t mod 10000000 * 100) = t mod 10000000 * 100"
    using pos_mod_bound[of 10000000 t] pos_mod_sign[of 10000000 t] by (intro to_int_small) simp_all
  then have nsec: "to_int ((t - t div 10000000 * 10000000) * 100) = t mod 10000000 * 100"
    by (simp only: minus_div_mult_eq_mod)
  have "sint ft - timespec_to_filetime_offset = t" using assms(3) by simp
  then show ?thesis by (simp only: filetime_to_timespec_def Let_def sec nsec)
qed

lemma get_size_exact: "unat (wli_get_size f) = unat (fd_file_size_high (ff_data (wl_ffw f))) * 2 ^ 32 + unat (fd_file_size_low (ff_data (wl_ffw f)))"
proof -
  let ?h = "fd_file_size_high (ff_data (wl_ffw f))" and ?l = "fd_file_size_low (ff_data (wl_ffw f))"
  have small: "unat x < 2 ^ 32" for x :: "32 word"
  proof -
    have "unat x < 2 ^ LENGTH(32)" by (rule unsigned_less)
    then show ?thesis by simp
  qed
  have "unat ?h < 2 ^ 32" "unat ?l < 2 ^ 32" by (rule small)+
  then have b: "unat ?h * 2 ^ 32 + unat ?l < 2 ^ 64" by simp
  have "wli_get_size f = word_of_nat (unat ?h * 2 ^ 32 + unat ?l)"
    by (simp add: wli_get_size_def Let_def)
  then show ?thesis using b by (simp only: unat_of_nat) simp
qed

text \<open>
  The time is right until 2038. A file time \<open>t\<close> units after 1970 has \<open>t div 10000000\<close> seconds; from
  \<open>2 ^ 31\<close> seconds on the cast makes them negative.
\<close>

lemma timespec_seconds:
  assumes "0 \<le> t" and "t div 10000000 < 2 ^ 32" and "sint ft = timespec_to_filetime_offset + t"
  shows "fst (filetime_to_timespec ft) = (if t div 10000000 < 2 ^ 31 then t div 10000000 else t div 10000000 - 2 ^ 32)"
proof (cases "t div 10000000 < 2 ^ 31")
  case True
  then show ?thesis using timespec_exact[OF assms(1) True assms(3)] by simp
next
  case False
  have "t sdiv 10000000 = t div 10000000" using assms(1) by (cases "t = 0") (simp_all add: signed_divide_int_def)
  then have "to_int (t sdiv 10000000) = t div 10000000 - 2 ^ 32" using to_int_wraps[of "t div 10000000"] False assms(2) by simp
  then show ?thesis using assms(3) False by (simp add: filetime_to_timespec_def Let_def)
qed

section \<open>What the lister does not expect\<close>

text \<open>
  The iterator is opened with the path of the directory itself. For such a path, without a pattern,
  \<open>FindFirstFile\<close> is documented to give one entry, the directory; that is all that is listed then.
\<close>

lemma win_lists_only_itself:
  assumes "wo_find_first wops w (p_ppath path) = Some (d, [], left)"
  shows "\<exists>g. wli_open wops w path = Inr g \<and> wl_name g = fd_file_name d \<and> \<not> wli_not_end (wli_advance wops g)"
  using assms
  by (simp add: wli_open_def find_file_open_def wli_capture_def wli_advance_def wli_is_fake_def find_file_is_initialized_def
      find_file_advance_def wli_not_end_def Let_def)

text \<open>Size, time and kind of a virtual path are what the last call has left, not the status it was added with.\<close>

lemma win_virtual_path_data:
  assumes "\<not> wli_is_fake g" and "wl_is_eof g" and "wl_vpaths g = vs @ [(name, st)]"
  shows "wl_name (wli_advance wops g) = wo_dangling wops name \<and> wli_not_end (wli_advance wops g)
    \<and> ff_data (wl_ffw (wli_advance wops g)) = ff_data (wl_ffw g)"
  using assms by (simp add: wli_advance_def wli_capture_def wli_not_end_def Let_def)

end
