(* ===== verification/FtpCommands.thy ===== *)
theory FtpCommands
  imports FtpList WfdeAsciiFile
begin

unbundle bit_operations_syntax

text \<open>
  The FTP commands: \<open>src/wfde/ftp/wfde_ftp_commands.cpp\<close> and the base class \<open>FtpCmd\<close> of
  \<open>include/wfde/ftp_protocol.h\<close>. The commands are a datatype; what a class overrides is a function on
  it. A handler is a function on the state of the whole session, the record \<open>ftp\<close>, which holds the
  data members of \<open>WfdeFtpSession\<close>, the session, the disk, the authentication manager and the
  rest of the system; the \<open>FtpReply\<close> the handlers fill is a field of it.
\<close>

section \<open>The surroundings\<close>

text \<open>
  What the commands call outside of the repository, and the other components. \<open>'os\<close> is the state
  of the operating system and the network. \<open>e_regex\<close> is \<open>boost::regex_match\<close> without regard to
  case: the pattern, the subject, and the groups, an unmatched one being empty. When \<open>e_listen\<close>
  fails, it gives with the exception the local endpoint of the acceptor that stays behind: none if it
  could not be opened, the unspecified one if it is open but not bound.
\<close>

record ('p, 'w, 'am, 'cl, 'os) ftp_env =
  e_fs :: "('p, 'w) fs_ops"
  e_dirs :: "('p, 'w) dir_ops"
  e_auth :: "('am, 'cl, 'p) auth_ops"
  e_page :: nat
  e_local_eol :: string
  e_garbage :: string
  e_regex :: "string \<Rightarrow> string \<Rightarrow> string list option"
  e_lexical16 :: "string \<Rightarrow> 16 word option"
  e_lexical64 :: "string \<Rightarrow> 64 word option"
  e_make_address :: "string \<Rightarrow> ipv4 option"
  e_uuid :: "'os \<Rightarrow> string \<times> 'os"
  e_local_address :: "'os \<Rightarrow> exn + address"
  e_listen :: "'os \<Rightarrow> address \<Rightarrow> (exn \<times> endpoint option + endpoint) \<times> 'os"
  e_clock :: "'os \<Rightarrow> int"
  e_time :: "'os \<Rightarrow> int"
  e_write :: "'os \<Rightarrow> string \<Rightarrow> bool \<times> 'os"

section \<open>Files that are transferred\<close>

text \<open>What a command hands over, a file of the disk or a listing; and the same behind the wrapper for text.\<close>

datatype 'p session_file = Disk_file "'p wfde_file" | List_file "'p ftp_list"
datatype 'p transfer_file = Binary_file "'p session_file" | Text_file "'p session_file ascii_file"

definition session_file_operation :: "'p session_file \<Rightarrow> file_operation" where
  "session_file_operation f = (case f of Disk_file d \<Rightarrow> wf_operation d | List_file l \<Rightarrow> READ)"

definition transfer_file_operation :: "'p transfer_file \<Rightarrow> file_operation" where
  "transfer_file_operation f =
     (case f of Binary_file d \<Rightarrow> session_file_operation d
              | Text_file a \<Rightarrow> session_file_operation (af_file a))"

section \<open>The state of an FTP session\<close>

text \<open>
  \<open>fx_phase\<close> is where the transfer coroutine stands, \<open>fx_abort\<close> the function \<open>abort_transfer_\<close>,
  \<open>fx_transfer_open\<close> the transfer socket. \<open>fx_expired\<close> says that the session manager has dropped the
  session; \<open>fx_hung\<close> that a loop never ends or that a null pointer was followed.
\<close>

datatype transfer_phase = Phase_none | Phase_spawned | Phase_connecting | Phase_securing | Phase_running
datatype abort_action = Abort_accept | Abort_socket

record ('p, 'cl, 'w, 'am, 'os) ftp =
  fx_ses :: "('p, 'cl) session"
  fx_state :: ftp_state
  fx_reply :: ftp_reply
  fx_prev_cmd :: string
  fx_curr_cmd :: string
  fx_file :: "'p transfer_file option"
  fx_phase :: transfer_phase
  fx_abort :: "abort_action option"
  fx_transfer_open :: "bool option"
  fx_close_pending :: bool
  fx_closed :: bool
  fx_reply_failed :: bool
  fx_socket_open :: bool
  fx_expired :: bool
  fx_hung :: bool
  fx_last_touch :: int
  fx_tasks :: nat
  fx_sent :: "string list"
  fx_am :: 'am
  fx_disk :: 'w
  fx_os :: 'os

text \<open>\<open>reply.Reply(code) << text\<close> and \<open>reply.VerboseReply(code) << text\<close> in a handler.\<close>

definition answer :: "ftp_reply_code \<Rightarrow> string \<Rightarrow> ('p, 'cl, 'w, 'am, 'os) ftp \<Rightarrow> ('p, 'cl, 'w, 'am, 'os) ftp" where
  "answer code text x = x\<lparr>fx_reply := reply_with code text (fx_reply x)\<rparr>"

definition answer_verbose :: "ftp_reply_code \<Rightarrow> string \<Rightarrow> ('p, 'cl, 'w, 'am, 'os) ftp \<Rightarrow> ('p, 'cl, 'w, 'am, 'os) ftp" where
  "answer_verbose code text x = x\<lparr>fx_reply := verbose_reply code text (fx_reply x)\<rparr>"

text \<open>\<open>WfdeFtpSession::StartTransfer\<close>. Only the mode of the transfer depends on the type.\<close>

definition start_transfer :: "'p session_file \<Rightarrow> ('p, 'cl, 'w, 'am, 'os) ftp \<Rightarrow> ('p, 'cl, 'w, 'am, 'os) ftp" where
  "start_transfer file x =
     (let f = (if get_type (fx_state x) = Type_bin then Binary_file file else Text_file (ascii_file_new file));
          tr = (case transfer_file_operation f of
                  READ \<Rightarrow> Transfer_outgoing
                | APPEND \<Rightarrow> Transfer_incoming
                | WRITE_NEW \<Rightarrow> Transfer_incoming
                | WRITE \<Rightarrow> Transfer_incoming)
      in x\<lparr>fx_file := Some f, fx_state := (fx_state x)\<lparr>st_transfer := tr\<rparr>, fx_phase := Phase_spawned\<rparr>)"

section \<open>The commands and their attributes\<close>

datatype ftp_cmd =
    Cmd_help | Cmd_feat | Cmd_opts | Cmd_quit | Cmd_syst | Cmd_type | Cmd_port | Cmd_user
  | Cmd_pass | Cmd_retr | Cmd_stor | Cmd_stou | Cmd_appe | Cmd_rest | Cmd_size | Cmd_mdtm
  | Cmd_allo | Cmd_abor | Cmd_pwd | Cmd_cwd | Cmd_cdup | Cmd_dele | Cmd_mkd | Cmd_rmd
  | Cmd_noop | Cmd_rnfr | Cmd_rnto | Cmd_list | Cmd_nlst | Cmd_mlsd | Cmd_mlst | Cmd_pasv
  | Cmd_stat | Cmd_auth | Cmd_pbsz | Cmd_prot

text \<open>The arguments of the base class: name, help, syntax and feature.\<close>

definition any_param :: string where "any_param = ''(.*)''"
definition some_param :: string where "some_param = ''(.+)''"
definition digits_param :: string where "digits_param = ''('' @ [backslash] @ ''d+)''"
definition byte_param :: string where "byte_param = ''('' @ [backslash] @ ''d{1,3})''"

fun cmd_data :: "ftp_cmd \<Rightarrow> string \<times> string \<times> string \<times> string" where
  "cmd_data Cmd_help = (''HELP'', ''[command]'', any_param, [])"
| "cmd_data Cmd_feat = (''FEAT'', [], [], [])"
| "cmd_data Cmd_opts =
     (''OPTS'', ''[PARAM [PARAM...]]'', ''([a-z]+)('' @ [backslash] @ '' (.+))?'', [])"
| "cmd_data Cmd_quit = (''QUIT'', [], [], [])"
| "cmd_data Cmd_syst = (''SYST'', [], [], [])"
| "cmd_data Cmd_type = (''TYPE'', ''A[ N]|I'', ''([A]('' @ [backslash] @ '' N)?)|(I)'', [])"
| "cmd_data Cmd_port =
     (''PORT'', ''h1,h2,h3,h4,p1,p2'',
      byte_param @ '','' @ byte_param @ '','' @ byte_param @ '','' @ byte_param @ '','' @ byte_param @ '','' @ byte_param, [])"
| "cmd_data Cmd_user = (''USER'', ''username'', some_param, [])"
| "cmd_data Cmd_pass = (''PASS'', ''password'', some_param, [])"
| "cmd_data Cmd_retr = (''RETR'', ''pathname'', some_param, [])"
| "cmd_data Cmd_stor = (''STOR'', ''pathname'', some_param, [])"
| "cmd_data Cmd_stou = (''STOU'', [], [], [])"
| "cmd_data Cmd_appe = (''APPE'', ''pathname'', some_param, [])"
| "cmd_data Cmd_rest = (''REST'', ''file-offset'', digits_param, ''REST STREAM'')"
| "cmd_data Cmd_size = (''SIZE'', ''pathname'', some_param, ''SIZE'')"
| "cmd_data Cmd_mdtm = (''MDTM'', ''pathname'', some_param, ''MDTM'')"
| "cmd_data Cmd_allo = (''ALLO'', ''bytes'', digits_param, [])"
| "cmd_data Cmd_abor = (''ABOR'', [], [], [])"
| "cmd_data Cmd_pwd = (''PWD'', [], [], [])"
| "cmd_data Cmd_cwd = (''CWD'', ''path'', any_param, [])"
| "cmd_data Cmd_cdup = (''CDUP'', [], [], [])"
| "cmd_data Cmd_dele = (''DELE'', ''path'', some_param, [])"
| "cmd_data Cmd_mkd = (''MKD'', ''path'', some_param, [])"
| "cmd_data Cmd_rmd = (''RMD'', ''path'', some_param, [])"
| "cmd_data Cmd_noop = (''NOOP'', [], [], [])"
| "cmd_data Cmd_rnfr = (''RNFR'', ''path'', some_param, [])"
| "cmd_data Cmd_rnto = (''RNTO'', ''path'', some_param, [])"
| "cmd_data Cmd_list = (''LIST'', ''[path]'', any_param, [])"
| "cmd_data Cmd_nlst = (''NLST'', ''[path]'', any_param, [])"
| "cmd_data Cmd_mlsd = (''MLSD'', ''[path]'', any_param, [])"
| "cmd_data Cmd_mlst = (''MLST'', ''[path]'', any_param, [])"
| "cmd_data Cmd_pasv = (''PASV'', [], [], [])"
| "cmd_data Cmd_stat = (''STAT'', ''[path]'', any_param, [])"
| "cmd_data Cmd_auth = (''AUTH'', ''tls'', ''(tls|tls-c)'', ''AUTH TLS'')"
| "cmd_data Cmd_pbsz = (''PBSZ'', ''0'', ''(0)'', ''PBSZ'')"
| "cmd_data Cmd_prot = (''PROT'', ''protection-mode'', ''(P|C)'', ''PROT'')"

definition get_name :: "ftp_cmd \<Rightarrow> string" where "get_name c = fst (cmd_data c)"
definition get_help :: "ftp_cmd \<Rightarrow> string" where "get_help c = fst (snd (cmd_data c))"
definition get_regex :: "ftp_cmd \<Rightarrow> string" where "get_regex c = fst (snd (snd (cmd_data c)))"
definition get_feat :: "ftp_cmd \<Rightarrow> string" where "get_feat c = snd (snd (snd (cmd_data c)))"

definition can_have_params :: "ftp_cmd \<Rightarrow> bool" where
  "can_have_params c \<longleftrightarrow> get_regex c \<noteq> []"

text \<open>The virtual functions of the base class, with their overrides.\<close>

definition must_be_logged_in :: "ftp_cmd \<Rightarrow> bool" where
  "must_be_logged_in c \<longleftrightarrow>
     c \<in> {Cmd_opts, Cmd_port, Cmd_pasv, Cmd_retr, Cmd_stor, Cmd_stou, Cmd_appe, Cmd_rest, Cmd_size,
          Cmd_mdtm, Cmd_allo, Cmd_pwd, Cmd_cwd, Cmd_cdup, Cmd_dele, Cmd_mkd, Cmd_rmd, Cmd_rnfr,
          Cmd_rnto, Cmd_help, Cmd_list, Cmd_nlst, Cmd_mlsd, Cmd_mlst, Cmd_stat}"

definition must_not_be_logged_in :: "ftp_cmd \<Rightarrow> bool" where
  "must_not_be_logged_in c \<longleftrightarrow> c = Cmd_user \<or> c = Cmd_pass"

definition must_be_in_transfer :: "ftp_cmd \<Rightarrow> bool" where
  "must_be_in_transfer c = False"

definition must_not_be_in_transfer :: "ftp_cmd \<Rightarrow> bool" where
  "must_not_be_in_transfer c \<longleftrightarrow>
     c \<in> {Cmd_opts, Cmd_port, Cmd_pasv, Cmd_retr, Cmd_stor, Cmd_stou, Cmd_appe, Cmd_rest, Cmd_size,
          Cmd_mdtm, Cmd_allo, Cmd_cwd, Cmd_cdup, Cmd_dele, Cmd_mkd, Cmd_rmd, Cmd_rnfr, Cmd_rnto,
          Cmd_help, Cmd_list, Cmd_nlst, Cmd_mlsd, Cmd_mlst}"

definition need_post_or_pasv :: "ftp_cmd \<Rightarrow> bool" where
  "need_post_or_pasv c \<longleftrightarrow>
     c \<in> {Cmd_retr, Cmd_stor, Cmd_stou, Cmd_appe, Cmd_rest, Cmd_list, Cmd_nlst, Cmd_mlsd}"

definition must_have_encryption_if_enforced :: "ftp_cmd \<Rightarrow> bool" where
  "must_have_encryption_if_enforced c \<longleftrightarrow> \<not> (c = Cmd_feat \<or> c = Cmd_auth)"

definition must_have_encryption :: "ftp_cmd \<Rightarrow> bool" where
  "must_have_encryption c \<longleftrightarrow> c = Cmd_pbsz \<or> c = Cmd_prot"

definition need_prev_cmd :: "ftp_cmd \<Rightarrow> string" where
  "need_prev_cmd c = (if c = Cmd_pass then ''USER'' else if c = Cmd_rnto then ''RNFR'' else [])"

section \<open>The registry\<close>

text \<open>\<open>std::map\<close> with strings as keys: sorted by the codes of the characters.\<close>

fun string_less :: "string \<Rightarrow> string \<Rightarrow> bool" where
  "string_less s [] = False"
| "string_less [] (c # t) = True"
| "string_less (a # s) (c # t) =
     ((of_char a :: nat) < of_char c \<or> (a = c \<and> string_less s t))"

fun smap_set :: "string \<Rightarrow> 'v \<Rightarrow> (string \<times> 'v) list \<Rightarrow> (string \<times> 'v) list" where
  "smap_set k v [] = [(k, v)]"
| "smap_set k v ((k', v') # m) =
     (if k = k' then (k, v) # m
      else if string_less k k' then (k, v) # (k', v') # m
      else (k', v') # smap_set k v m)"

text \<open>
  \<open>DefaultFtpCmds\<close>: the list of the commands, and the maps of HELP, FEAT and OPTS, which exist once
  those commands have been added. A feature is its name; \<open>MLST\<close> is printed by a function.
\<close>

record default_cmds =
  dc_commands :: "ftp_cmd list"
  dc_help :: "(string \<times> ftp_cmd) list option"
  dc_feat :: "(string \<times> bool) list option"
  dc_opts :: "(string \<times> ftp_cmd) list option"

definition add_cmd :: "ftp_cmd \<Rightarrow> default_cmds \<Rightarrow> default_cmds" where
  "add_cmd c d =
     d\<lparr>dc_feat := (if get_feat c \<noteq> [] then map_option (smap_set (get_feat c) False) (dc_feat d) else dc_feat d),
       dc_help := map_option (smap_set (get_name c) c) (dc_help d),
       dc_opts := map_option (smap_set (get_name c) c) (dc_opts d),
       dc_commands := dc_commands d @ [c]\<rparr>"

text \<open>The overloads for the three special commands; HELP adds itself in its constructor.\<close>

definition add_special :: "ftp_cmd \<Rightarrow> default_cmds \<Rightarrow> default_cmds" where
  "add_special c d =
     (let d = d\<lparr>dc_commands := dc_commands d @ [c]\<rparr>
      in if c = Cmd_help then d\<lparr>dc_help := Some [(get_name Cmd_help, Cmd_help)]\<rparr>
         else if c = Cmd_feat then d\<lparr>dc_feat := Some (smap_set ''MLST'' True (smap_set ''TVFS'' False []))\<rparr>
         else d\<lparr>dc_opts := Some []\<rparr>)"

definition default_ftp_cmds :: default_cmds where
  "default_ftp_cmds =
     fold add_cmd
       [Cmd_quit, Cmd_syst, Cmd_type, Cmd_port, Cmd_user, Cmd_pass, Cmd_retr, Cmd_stor, Cmd_stou,
        Cmd_appe, Cmd_rest, Cmd_size, Cmd_mdtm, Cmd_allo, Cmd_abor, Cmd_pwd, Cmd_cwd, Cmd_cdup,
        Cmd_dele, Cmd_mkd, Cmd_rmd, Cmd_noop, Cmd_rnfr, Cmd_rnto, Cmd_list, Cmd_nlst, Cmd_mlsd,
        Cmd_mlst, Cmd_pasv, Cmd_stat, Cmd_auth, Cmd_pbsz, Cmd_prot]
       (fold add_special [Cmd_help, Cmd_feat, Cmd_opts]
         \<lparr>dc_commands = [], dc_help = None, dc_feat = None, dc_opts = None\<rparr>)"

text \<open>\<open>GetDefaultCommands\<close>: \<open>emplace\<close> keeps the first command of a name.\<close>

definition default_commands :: "string \<Rightarrow> ftp_cmd option" where
  "default_commands = map_of (map (\<lambda>c. (get_name c, c)) (dc_commands default_ftp_cmds))"
text \<open>The table that results, computed once for the evaluation of requests.\<close>

lemma default_commands_code [code]:
  "default_commands = map_of
     [(''HELP'', Cmd_help), (''FEAT'', Cmd_feat), (''OPTS'', Cmd_opts), (''QUIT'', Cmd_quit),
      (''SYST'', Cmd_syst), (''TYPE'', Cmd_type), (''PORT'', Cmd_port), (''USER'', Cmd_user),
      (''PASS'', Cmd_pass), (''RETR'', Cmd_retr), (''STOR'', Cmd_stor), (''STOU'', Cmd_stou),
      (''APPE'', Cmd_appe), (''REST'', Cmd_rest), (''SIZE'', Cmd_size), (''MDTM'', Cmd_mdtm),
      (''ALLO'', Cmd_allo), (''ABOR'', Cmd_abor), (''PWD'', Cmd_pwd), (''CWD'', Cmd_cwd),
      (''CDUP'', Cmd_cdup), (''DELE'', Cmd_dele), (''MKD'', Cmd_mkd), (''RMD'', Cmd_rmd),
      (''NOOP'', Cmd_noop), (''RNFR'', Cmd_rnfr), (''RNTO'', Cmd_rnto), (''LIST'', Cmd_list),
      (''NLST'', Cmd_nlst), (''MLSD'', Cmd_mlsd), (''MLST'', Cmd_mlst), (''PASV'', Cmd_pasv),
      (''STAT'', Cmd_stat), (''AUTH'', Cmd_auth), (''PBSZ'', Cmd_pbsz), (''PROT'', Cmd_prot)]"
proof -
  have "map (\<lambda>c. (get_name c, c)) (dc_commands default_ftp_cmds) =
     [(''HELP'', Cmd_help), (''FEAT'', Cmd_feat), (''OPTS'', Cmd_opts), (''QUIT'', Cmd_quit),
      (''SYST'', Cmd_syst), (''TYPE'', Cmd_type), (''PORT'', Cmd_port), (''USER'', Cmd_user),
      (''PASS'', Cmd_pass), (''RETR'', Cmd_retr), (''STOR'', Cmd_stor), (''STOU'', Cmd_stou),
      (''APPE'', Cmd_appe), (''REST'', Cmd_rest), (''SIZE'', Cmd_size), (''MDTM'', Cmd_mdtm),
      (''ALLO'', Cmd_allo), (''ABOR'', Cmd_abor), (''PWD'', Cmd_pwd), (''CWD'', Cmd_cwd),
      (''CDUP'', Cmd_cdup), (''DELE'', Cmd_dele), (''MKD'', Cmd_mkd), (''RMD'', Cmd_rmd),
      (''NOOP'', Cmd_noop), (''RNFR'', Cmd_rnfr), (''RNTO'', Cmd_rnto), (''LIST'', Cmd_list),
      (''NLST'', Cmd_nlst), (''MLSD'', Cmd_mlsd), (''MLST'', Cmd_mlst), (''PASV'', Cmd_pasv),
      (''STAT'', Cmd_stat), (''AUTH'', Cmd_auth), (''PBSZ'', Cmd_pbsz), (''PROT'', Cmd_prot)]" by code_simp
  then show ?thesis by (simp only: default_commands_def)
qed

end
