(* ===== verification/FtpHandlers.thy ===== *)
theory FtpHandlers
  imports FtpCommands
begin

text \<open>
  The handlers \<open>OnCmd\<close> and \<open>OnOpts\<close> of the commands of \<open>src/wfde/ftp/wfde_ftp_commands.cpp\<close>. A handler
  takes the parameter, the groups of the match and the state, and returns the state, or an exception
  it does not catch beside the state at that moment.
\<close>

type_synonym ('p, 'cl, 'w, 'am, 'os) handled = "(exn + unit) \<times> ('p, 'cl, 'w, 'am, 'os) ftp"

abbreviation finished :: "('p, 'cl, 'w, 'am, 'os) ftp \<Rightarrow> ('p, 'cl, 'w, 'am, 'os) handled" where
  "finished x \<equiv> (Inr (), x)"

text \<open>A call of the session that may change the disk, and what is done with its result.\<close>

definition on_disk ::
    "('w \<Rightarrow> (exn + 'r) \<times> 'w) \<Rightarrow> ('p, 'cl, 'w, 'am, 'os) ftp \<Rightarrow> (exn + 'r) \<times> ('p, 'cl, 'w, 'am, 'os) ftp" where
  "on_disk f x = (case f (fx_disk x) of (r, w) \<Rightarrow> (r, x\<lparr>fx_disk := w\<rparr>))"

section \<open>Handlers without a session\<close>

definition on_quit :: "('p, 'cl, 'w, 'am, 'os) ftp \<Rightarrow> ('p, 'cl, 'w, 'am, 'os) handled" where
  "on_quit x = finished (x\<lparr>fx_reply := reply_end RC_BYE True [] (fx_reply x)\<rparr>)"

definition on_abor :: "('p, 'cl, 'w, 'am, 'os) ftp \<Rightarrow> ('p, 'cl, 'w, 'am, 'os) handled" where
  "on_abor x = finished (x\<lparr>fx_state := set_abort (fx_state x)\<rparr>)"

definition feat_line :: "ftp_state \<Rightarrow> string \<times> bool \<Rightarrow> string" where
  "feat_line st f =
     crlf @ '' '' @ (if snd f then ''MLST '' @ get_fact_list (st_mdtx st) else fst f)"

definition on_feat :: "('p, 'cl, 'w, 'am, 'os) ftp \<Rightarrow> ('p, 'cl, 'w, 'am, 'os) handled" where
  "on_feat x =
     (let features = (case dc_feat default_ftp_cmds of None \<Rightarrow> [] | Some fs \<Rightarrow> fs)
      in finished
           (if features \<noteq> []
            then answer_verbose RC_STATUS_OK
                   (''Extensions supported:'' @ concat (map (feat_line (fx_state x)) features)) x
            else answer RC_STATUS_OK ''No Features installed'' x))"

definition on_syst :: "('p, 'cl, 'w, 'am, 'os) ftp \<Rightarrow> ('p, 'cl, 'w, 'am, 'os) handled" where
  "on_syst x = finished (answer RC_NAME ''UNIX Type: L8'' x)"

definition on_type :: "string \<Rightarrow> ('p, 'cl, 'w, 'am, 'os) ftp \<Rightarrow> ('p, 'cl, 'w, 'am, 'os) handled" where
  "on_type param x =
     (let t = (if ascii_upper (peek param) = CHR ''I'' then Type_bin else Type_ascii);
          x = x\<lparr>fx_state := (fx_state x)\<lparr>st_ttype := t\<rparr>\<rparr>
      in finished (answer RC_OK (show_type t @ '' type OK'') x))"

definition on_noop :: "('p, 'cl, 'w, 'am, 'os) ftp \<Rightarrow> ('p, 'cl, 'w, 'am, 'os) handled" where
  "on_noop x = finished (answer RC_OK [] x)"

section \<open>Options\<close>

text \<open>\<open>boost::split\<close> at every character of a set, adjacent separators giving empty parts.\<close>

fun split_any :: "char list \<Rightarrow> string \<Rightarrow> string list" where
  "split_any seps [] = [[]]"
| "split_any seps (c # s) =
     (if c \<in> set seps then [] # split_any seps s
      else (case split_any seps s of [] \<Rightarrow> [[c]] | p # ps \<Rightarrow> (c # p) # ps))"

definition on_opts_default :: "('p, 'cl, 'w, 'am, 'os) ftp \<Rightarrow> ('p, 'cl, 'w, 'am, 'os) handled" where
  "on_opts_default x = finished (answer RC_SYNTAX_ERROR_IN_PARAMS ''This command has no options'' x)"

definition on_opts_mlst :: "string \<Rightarrow> ('p, 'cl, 'w, 'am, 'os) ftp \<Rightarrow> ('p, 'cl, 'w, 'am, 'os) handled" where
  "on_opts_mlst param x =
     (let facts = split_any [CHR '';'', space] param;
          mdtx = fold enable_fact facts (disable_all (st_mdtx (fx_state x)));
          facts_out = concat (map (\<lambda>f. if is_enabled mdtx f then get_fact_name f @ '';'' else []) all_facts)
      in finished (answer RC_OK facts_out (x\<lparr>fx_state := (fx_state x)\<lparr>st_mdtx := mdtx\<rparr>\<rparr>)))"

text \<open>The groups are the whole match, the name, the option with its space, and the option.\<close>

definition on_opts :: "string list \<Rightarrow> ('p, 'cl, 'w, 'am, 'os) ftp \<Rightarrow> ('p, 'cl, 'w, 'am, 'os) handled" where
  "on_opts match x =
     (let name = map ascii_upper (match ! 1);
          options = match ! 3
      in (case map_of (case dc_opts default_ftp_cmds of None \<Rightarrow> [] | Some m \<Rightarrow> m) name of
            Some Cmd_mlst \<Rightarrow> on_opts_mlst options x
          | Some c \<Rightarrow> on_opts_default x
          | None \<Rightarrow> on_opts_default x))"

section \<open>Logging on\<close>

definition on_authenticate ::
    "('p, 'w, 'am, 'cl, 'os) ftp_env \<Rightarrow> string \<Rightarrow> string \<Rightarrow> ftp_reply_code \<Rightarrow> ('p, 'cl, 'w, 'am, 'os) ftp \<Rightarrow>
     ('p, 'cl, 'w, 'am, 'os) handled" where
  "on_authenticate env name pwd rejected x =
     (case authenticate_with_passwd (e_auth env) name pwd (fx_am x, fx_ses x) of
        (r, am, ses) \<Rightarrow>
          let x = x\<lparr>fx_am := am, fx_ses := ses\<rparr>
          in (case r of
                Inl e \<Rightarrow> (Inl e, x)
              | Inr True \<Rightarrow>
                  finished (answer RC_LOGGED_IN [] (x\<lparr>fx_state := (fx_state x)\<lparr>st_is_logged_in := True\<rparr>\<rparr>))
              | Inr False \<Rightarrow> finished (answer rejected [] x)))"

definition on_user ::
    "('p, 'w, 'am, 'cl, 'os) ftp_env \<Rightarrow> string \<Rightarrow> ('p, 'cl, 'w, 'am, 'os) ftp \<Rightarrow> ('p, 'cl, 'w, 'am, 'os) handled" where
  "on_user env param x =
     (let x = x\<lparr>fx_state := (fx_state x)\<lparr>st_login_name := param\<rparr>\<rparr>
      in on_authenticate env (st_login_name (fx_state x)) [] RC_NEED_PASSWD x)"

definition on_pass ::
    "('p, 'w, 'am, 'cl, 'os) ftp_env \<Rightarrow> string \<Rightarrow> ('p, 'cl, 'w, 'am, 'os) ftp \<Rightarrow> ('p, 'cl, 'w, 'am, 'os) handled" where
  "on_pass env param x = on_authenticate env (st_login_name (fx_state x)) param RC_NOT_LOGGED_ON x"

section \<open>The data connection\<close>

definition on_port ::
    "('p, 'w, 'am, 'cl, 'os) ftp_env \<Rightarrow> string list \<Rightarrow> ('p, 'cl, 'w, 'am, 'os) ftp \<Rightarrow> ('p, 'cl, 'w, 'am, 'os) handled" where
  "on_port env match x =
     (case e_lexical16 env (match ! 5) of
        None \<Rightarrow> (Inl ExceptionLibrary, x)
      | Some v1 \<Rightarrow>
          (case e_lexical16 env (match ! 6) of
             None \<Rightarrow> (Inl ExceptionLibrary, x)
           | Some v2 \<Rightarrow>
               let p1 = (ucast v1 :: 8 word);
                   p2 = (ucast v2 :: 8 word);
                   port = (push_bit 8 (ucast p1) OR ucast p2 :: 16 word);
                   ip_str = match ! 1 @ ''.'' @ match ! 2 @ ''.'' @ match ! 3 @ ''.'' @ match ! 4
               in (case e_make_address env ip_str of
                     None \<Rightarrow> (Inl ExceptionLibrary, x)
                   | Some ip \<Rightarrow>
                       finished (answer RC_OK [] (x\<lparr>fx_state := set_port (V4 ip, port) (fx_state x)\<rparr>)))))"

text \<open>\<open>PasvAcceptorImpl\<close>: listening, and the address, which only an open acceptor has. The acceptor
  stays when \<open>Listen\<close> throws.\<close>

definition pasv_listen ::
    "('p, 'w, 'am, 'cl, 'os) ftp_env \<Rightarrow> ('p, 'cl, 'w, 'am, 'os) ftp \<Rightarrow> ('p, 'cl, 'w, 'am, 'os) handled" where
  "pasv_listen env x =
     (case e_local_address env (fx_os x) of
        Inl e \<Rightarrow> (Inl e, x)
      | Inr addr \<Rightarrow>
          (case e_listen env (fx_os x) addr of
             (Inl (e, lep), os) \<Rightarrow>
               (Inl e, x\<lparr>fx_os := os, fx_state := (fx_state x)\<lparr>st_pasv := Some lep\<rparr>\<rparr>)
           | (Inr ep, os) \<Rightarrow>
               finished (x\<lparr>fx_os := os, fx_state := (fx_state x)\<lparr>st_pasv := Some (Some ep)\<rparr>\<rparr>)))"

definition pasv_text :: "ipv4 \<Rightarrow> 16 word \<Rightarrow> string" where
  "pasv_text ip port =
     (case ip of (a, b, c, d) \<Rightarrow>
        ''Entering Passive Mode ('' @ dec (unat a) @ '','' @ dec (unat b) @ '','' @ dec (unat c) @ '',''
        @ dec (unat d) @ '','' @ dec (unat (drop_bit 8 port AND 0xff)) @ '',''
        @ dec (unat (port AND 0xff)) @ '')'')"

definition on_pasv ::
    "('p, 'w, 'am, 'cl, 'os) ftp_env \<Rightarrow> ('p, 'cl, 'w, 'am, 'os) ftp \<Rightarrow> ('p, 'cl, 'w, 'am, 'os) handled" where
  "on_pasv env x =
     bindS (if st_pasv (fx_state x) = None
            then pasv_listen env (x\<lparr>fx_state := (fx_state x)\<lparr>st_pasv := Some None\<rparr>\<rparr>)
            else finished x)
       (\<lambda>_ x.
          (case st_pasv (fx_state x) of
             Some (Some (V4 ip, port)) \<Rightarrow>
               finished ((answer RC_PASSIVE (pasv_text ip port) x)\<lparr>fx_state := set_pasv (fx_state x)\<rparr>)
           | _ \<Rightarrow> (Inl ExceptionLibrary, x)))"

section \<open>Transfers\<close>

text \<open>The \<open>try\<close> block of the four commands: open the file, start, or report the failure.\<close>

definition open_and_start ::
    "('p, 'w, 'am, 'cl, 'os) ftp_env \<Rightarrow> file_operation \<Rightarrow> ('p, 'cl, 'w, 'am, 'os) ftp \<Rightarrow> ('p, 'cl, 'w, 'am, 'os) handled" where
  "open_and_start env operation x =
     (case on_disk (session_open_file (e_fs env) (e_page env) (fx_ses x) (st_requested_path (fx_state x)) operation) x of
        (Inr file, x) \<Rightarrow> finished (start_transfer (Disk_file file) x)
      | (Inl e, x) \<Rightarrow>
          finished (answer (if e = ExceptionFailedToConnect then RC_CANT_OPEN_DATA_CONN else RC_ACTION_FAILED) [] x))"

definition set_requested_path :: "string \<Rightarrow> ('p, 'cl, 'w, 'am, 'os) ftp \<Rightarrow> ('p, 'cl, 'w, 'am, 'os) ftp" where
  "set_requested_path path x = x\<lparr>fx_state := (fx_state x)\<lparr>st_requested_path := path\<rparr>\<rparr>"

abbreviation rest_needs_binary :: string where
  "rest_needs_binary \<equiv> ''REST is only available for binary (IMAGE) type transfers''"

definition on_retr_stor ::
    "('p, 'w, 'am, 'cl, 'os) ftp_env \<Rightarrow> file_operation \<Rightarrow> string \<Rightarrow> ('p, 'cl, 'w, 'am, 'os) ftp \<Rightarrow>
     ('p, 'cl, 'w, 'am, 'os) handled" where
  "on_retr_stor env operation param x =
     (let x = set_requested_path param x
      in if st_rest (fx_state x) \<noteq> 0 \<and> get_type (fx_state x) \<noteq> Type_bin
         then finished (answer RC_ACTION_NOT_TAKEN rest_needs_binary x)
         else open_and_start env operation x)"

definition on_retr ::
    "('p, 'w, 'am, 'cl, 'os) ftp_env \<Rightarrow> string \<Rightarrow> ('p, 'cl, 'w, 'am, 'os) ftp \<Rightarrow> ('p, 'cl, 'w, 'am, 'os) handled" where
  "on_retr env = on_retr_stor env READ"

definition on_stor ::
    "('p, 'w, 'am, 'cl, 'os) ftp_env \<Rightarrow> string \<Rightarrow> ('p, 'cl, 'w, 'am, 'os) ftp \<Rightarrow> ('p, 'cl, 'w, 'am, 'os) handled" where
  "on_stor env = on_retr_stor env WRITE"

definition on_stou ::
    "('p, 'w, 'am, 'cl, 'os) ftp_env \<Rightarrow> ('p, 'cl, 'w, 'am, 'os) ftp \<Rightarrow> ('p, 'cl, 'w, 'am, 'os) handled" where
  "on_stou env x =
     (case e_uuid env (fx_os x) of
        (uuid, os) \<Rightarrow>
          let x = set_requested_path uuid (x\<lparr>fx_os := os\<rparr>)
          in if st_rest (fx_state x) \<noteq> 0
             then finished (answer RC_ACTION_NOT_TAKEN ''STOU can not be combined with REST'' x)
             else open_and_start env WRITE_NEW x)"

definition on_appe ::
    "('p, 'w, 'am, 'cl, 'os) ftp_env \<Rightarrow> string \<Rightarrow> ('p, 'cl, 'w, 'am, 'os) ftp \<Rightarrow> ('p, 'cl, 'w, 'am, 'os) handled" where
  "on_appe env param x =
     (let x = set_requested_path param x
      in if st_rest (fx_state x) \<noteq> 0
         then finished (answer RC_ACTION_NOT_TAKEN ''APPE can not be combined with REST'' x)
         else open_and_start env APPEND x)"

definition on_rest ::
    "('p, 'w, 'am, 'cl, 'os) ftp_env \<Rightarrow> string \<Rightarrow> ('p, 'cl, 'w, 'am, 'os) ftp \<Rightarrow> ('p, 'cl, 'w, 'am, 'os) handled" where
  "on_rest env param x =
     (let x = x\<lparr>fx_state := (fx_state x)\<lparr>st_rest := 0\<rparr>\<rparr>
      in (case e_lexical64 env param of
            None \<Rightarrow> finished (answer RC_SYNTAX_ERROR_IN_PARAMS [] x)
          | Some rest_val \<Rightarrow>
              if rest_val \<noteq> 0 \<and> get_type (fx_state x) \<noteq> Type_bin
              then finished (answer RC_ACTION_NOT_TAKEN rest_needs_binary x)
              else finished (answer RC_FILE_ACTION_PENDING_INFO
                     (''Restarting at '' @ dec (unat rest_val) @ ''. Send STOR or RETR.'')
                     (x\<lparr>fx_state := (fx_state x)\<lparr>st_rest := rest_val\<rparr>\<rparr>))))"

definition on_allo ::
    "('p, 'w, 'am, 'cl, 'os) ftp_env \<Rightarrow> string \<Rightarrow> ('p, 'cl, 'w, 'am, 'os) ftp \<Rightarrow> ('p, 'cl, 'w, 'am, 'os) handled" where
  "on_allo env param x =
     (case e_lexical64 env param of
        None \<Rightarrow> finished (answer RC_SYNTAX_ERROR_IN_PARAMS [] x)
      | Some v \<Rightarrow> finished (answer RC_OK [] (x\<lparr>fx_state := (fx_state x)\<lparr>st_allo := v\<rparr>\<rparr>)))"

section \<open>Files and directories\<close>

definition on_size ::
    "('p, 'w, 'am, 'cl, 'os) ftp_env \<Rightarrow> string \<Rightarrow> ('p, 'cl, 'w, 'am, 'os) ftp \<Rightarrow> ('p, 'cl, 'w, 'am, 'os) handled" where
  "on_size env param x =
     (let x = set_requested_path param x
      in if get_type (fx_state x) \<noteq> Type_bin
         then finished (answer RC_ACTION_NOT_TAKEN
                ''SIZE is only available while in binary (IMAGE) type transfer mode'' x)
         else (case session_get_file_len (e_fs env) (fx_disk x) (fx_ses x) (st_requested_path (fx_state x)) of
                 Inr n \<Rightarrow> finished (answer RC_FILE_STATUS (dec n) x)
               | Inl e \<Rightarrow> finished (answer RC_ACTION_FAILED [] x)))"

definition on_mdtm ::
    "('p, 'w, 'am, 'cl, 'os) ftp_env \<Rightarrow> string \<Rightarrow> ('p, 'cl, 'w, 'am, 'os) ftp \<Rightarrow> ('p, 'cl, 'w, 'am, 'os) handled" where
  "on_mdtm env param x =
     (let x = set_requested_path param x
      in bindS (session_get_path (e_fs env) (fx_ses x) param FILE, x) (\<lambda>path x.
           (case bindE (path_exists (e_fs env) (fx_disk x) path) (\<lambda>ex.
                   if ex then bindE (get_rfc3659_file_time (e_dirs env) (fx_disk x) path) (\<lambda>t. Inr (Some t))
                   else Inr None) of
              Inr (Some t) \<Rightarrow> finished (answer RC_FILE_STATUS t x)
            | _ \<Rightarrow> finished (answer RC_ACTION_FAILED [] x))))"

definition on_pwd :: "('p, 'cl, 'w, 'am, 'os) ftp \<Rightarrow> ('p, 'cl, 'w, 'am, 'os) handled" where
  "on_pwd x = finished (answer RC_PATHNAME_CREATED (session_get_cwd (fx_ses x)) x)"

text \<open>The \<open>catch\<close> clauses that answer 550 with a text; the last one catches everything.\<close>

definition refused :: "(exn \<times> string) list \<Rightarrow> exn \<Rightarrow> ('p, 'cl, 'w, 'am, 'os) ftp \<Rightarrow> ('p, 'cl, 'w, 'am, 'os) handled" where
  "refused clauses e x =
     finished (answer RC_ACTION_NOT_TAKEN
       (case map_of clauses e of Some t \<Rightarrow> t | None \<Rightarrow> ''Internal Server Error'') x)"

abbreviation denied_clauses :: "(exn \<times> string) list" where
  "denied_clauses \<equiv> [(ExceptionAccessDenied, ''Access denied''), (ExceptionBadPath, ''Access denied'')]"

definition change_dir ::
    "('p, 'w, 'am, 'cl, 'os) ftp_env \<Rightarrow> string \<Rightarrow> ('p, 'cl, 'w, 'am, 'os) ftp \<Rightarrow> ('p, 'cl, 'w, 'am, 'os) handled" where
  "change_dir env path x =
     (case session_set_cwd (e_fs env) (fx_disk x) path (fx_ses x) of
        (r, ses) \<Rightarrow>
          let x = x\<lparr>fx_ses := ses\<rparr>
          in (case r of
                Inr _ \<Rightarrow> finished (answer RC_FILE_ACTION_OK
                           (''Directory changed to '' @ session_get_cwd (fx_ses x)) x)
              | Inl e \<Rightarrow> refused denied_clauses e x))"

definition on_cwd ::
    "('p, 'w, 'am, 'cl, 'os) ftp_env \<Rightarrow> string \<Rightarrow> ('p, 'cl, 'w, 'am, 'os) ftp \<Rightarrow> ('p, 'cl, 'w, 'am, 'os) handled" where
  "on_cwd env param x = change_dir env (if param = [] then [slash] else param) x"

definition on_cdup ::
    "('p, 'w, 'am, 'cl, 'os) ftp_env \<Rightarrow> ('p, 'cl, 'w, 'am, 'os) ftp \<Rightarrow> ('p, 'cl, 'w, 'am, 'os) handled" where
  "on_cdup env x = change_dir env ''..'' x"

text \<open>A change of the disk: its success, or one of the refusals.\<close>

definition disk_command ::
    "('w \<Rightarrow> (exn + unit) \<times> 'w) \<Rightarrow> (exn \<times> string) list \<Rightarrow> ('p, 'cl, 'w, 'am, 'os) ftp \<Rightarrow> ('p, 'cl, 'w, 'am, 'os) handled" where
  "disk_command f clauses x =
     (case on_disk f x of
        (Inr _, x) \<Rightarrow> finished (answer RC_FILE_ACTION_OK [] x)
      | (Inl e, x) \<Rightarrow> refused clauses e x)"

definition on_dele ::
    "('p, 'w, 'am, 'cl, 'os) ftp_env \<Rightarrow> string \<Rightarrow> ('p, 'cl, 'w, 'am, 'os) ftp \<Rightarrow> ('p, 'cl, 'w, 'am, 'os) handled" where
  "on_dele env param x =
     disk_command (session_delete_file (e_fs env) (fx_ses x) param)
       (denied_clauses @ [(ExceptionNotFound, ''No such file'')]) x"

definition on_mkd ::
    "('p, 'w, 'am, 'cl, 'os) ftp_env \<Rightarrow> string \<Rightarrow> ('p, 'cl, 'w, 'am, 'os) ftp \<Rightarrow> ('p, 'cl, 'w, 'am, 'os) handled" where
  "on_mkd env param x =
     disk_command (session_create_directory (e_fs env) (fx_ses x) param)
       (denied_clauses @ [(ExceptionNotFound, ''No such file'')]) x"

definition on_rmd ::
    "('p, 'w, 'am, 'cl, 'os) ftp_env \<Rightarrow> string \<Rightarrow> ('p, 'cl, 'w, 'am, 'os) ftp \<Rightarrow> ('p, 'cl, 'w, 'am, 'os) handled" where
  "on_rmd env param x =
     disk_command (session_delete_directory (e_fs env) (fx_ses x) param)
       (denied_clauses @ [(ExceptionAlreadyExist, ''Cannot create an exitsing directory.'')]) x"

definition on_rnfr ::
    "('p, 'w, 'am, 'cl, 'os) ftp_env \<Rightarrow> string \<Rightarrow> ('p, 'cl, 'w, 'am, 'os) ftp \<Rightarrow> ('p, 'cl, 'w, 'am, 'os) handled" where
  "on_rnfr env param x =
     (let clauses = [(ExceptionBadPath, ''Access denied'')]
      in (case session_get_path (e_fs env) (fx_ses x) param ANY of
            Inl e \<Rightarrow> refused clauses e x
          | Inr from_path \<Rightarrow>
              if \<not> can_rename from_path then finished (answer RC_ACTION_NOT_TAKEN ''Access denied'' x)
              else (case path_exists (e_fs env) (fx_disk x) from_path of
                      Inl e \<Rightarrow> refused clauses e x
                    | Inr False \<Rightarrow> finished (answer RC_ACTION_NOT_TAKEN ''No such file or directory'' x)
                    | Inr True \<Rightarrow>
                        finished ((answer RC_FILE_ACTION_PENDING_INFO [] x)
                          \<lparr>fx_state := (fx_state x)\<lparr>st_rnfr := p_vpath from_path\<rparr>\<rparr>))))"

definition on_rnto ::
    "('p, 'w, 'am, 'cl, 'os) ftp_env \<Rightarrow> string \<Rightarrow> ('p, 'cl, 'w, 'am, 'os) ftp \<Rightarrow> ('p, 'cl, 'w, 'am, 'os) handled" where
  "on_rnto env param x =
     disk_command (session_rename (e_fs env) (fx_ses x) (st_rnfr (fx_state x)) param)
       (denied_clauses @ [(ExceptionAlreadyExist, ''Cannot create an exitsing directory.'')]) x"

section \<open>Help\<close>

definition pad_right :: "nat \<Rightarrow> string \<Rightarrow> string" where
  "pad_right n s = s @ replicate (n - length s) space"

fun help_rows :: "nat \<Rightarrow> string list \<Rightarrow> string" where
  "help_rows col [] = []"
| "help_rows col (c # cs) = (if col mod 8 = 0 then crlf else []) @ pad_right 6 c @ help_rows (Suc col) cs"

definition on_help :: "string \<Rightarrow> ('p, 'cl, 'w, 'am, 'os) ftp \<Rightarrow> ('p, 'cl, 'w, 'am, 'os) handled" where
  "on_help param x =
     (let cmds = (case dc_help default_ftp_cmds of None \<Rightarrow> [] | Some m \<Rightarrow> m)
      in if param \<noteq> [] then
           (let command = map ascii_upper param
            in (case map_of cmds command of
                  None \<Rightarrow> finished (answer RC_SYNTAX_ERROR_IN_PARAMS
                            (''Command '' @ [CHR 0x27] @ command @ [CHR 0x27] @ '' not found.'') x)
                | Some c \<Rightarrow> finished (answer RC_HELP (get_name c @ '' '' @ get_help c) x)))
         else finished (answer_verbose RC_HELP (''Available commands:'' @ help_rows 0 (map fst cmds)) x))"

section \<open>Listings\<close>

datatype list_args_format = Format_long | Format_short

text \<open>
  \<open>ParseListArgs\<close> from a position on: options are consumed as long as they are known, the first
  other text is the path. The result is the path, the format and the flag for hidden files.
\<close>

function parse_list_args :: "string \<Rightarrow> list_args_format \<Rightarrow> bool \<Rightarrow> string \<times> list_args_format \<times> bool" where
  "parse_list_args s format hidden =
     (case s of
        [] \<Rightarrow> ([], format, hidden)
      | c # cs \<Rightarrow>
          if c = CHR ''-'' then
            (case cs of
               [] \<Rightarrow> ([], format, hidden)
             | d # ds \<Rightarrow>
                 let rest = dropWhile (\<lambda>c. c = space) ds
                 in if d = CHR ''1'' then parse_list_args rest Format_short hidden
                    else if d = CHR ''l'' then parse_list_args rest Format_long hidden
                    else if d = CHR ''a'' then parse_list_args rest format True
                    else (s, format, hidden))
          else (s, format, hidden))"
  by pat_completeness auto
termination
  by (relation "measure (\<lambda>(s, _). length s)") (auto intro!: le_imp_less_Suc le_SucI)

declare parse_list_args.simps [simp del]

text \<open>The directory is opened as a listing in the given format.\<close>

definition new_listing ::
    "('p, 'w, 'am, 'cl, 'os) ftp_env \<Rightarrow> list_format \<Rightarrow> 'p wpath \<Rightarrow> ('p, 'cl, 'w, 'am, 'os) ftp \<Rightarrow> exn + 'p ftp_list" where
  "new_listing env format path x =
     bindE (dir_lister_new (e_fs env) (e_dirs env) (e_garbage env) (fx_disk x) format path (fx_ses x)
              (st_list_hidden_files (fx_state x))) (\<lambda>d. Inr (ftp_list_new d))"

definition list_format_of ::
    "('p, 'w, 'am, 'cl, 'os) ftp_env \<Rightarrow> list_args_format \<Rightarrow> ('p, 'cl, 'w, 'am, 'os) ftp \<Rightarrow> list_format" where
  "list_format_of env f x =
     (case f of Format_long \<Rightarrow> ls_format_new (e_time env (fx_os x)) | Format_short \<Rightarrow> Nlst_format)"

definition open_listing ::
    "('p, 'w, 'am, 'cl, 'os) ftp_env \<Rightarrow> list_format \<Rightarrow> string \<Rightarrow> ('p, 'cl, 'w, 'am, 'os) ftp \<Rightarrow> exn + 'p ftp_list" where
  "open_listing env format vpath x =
     bindE (session_get_path_for_listing (e_fs env) (fx_disk x) (fx_ses x) vpath) (\<lambda>path.
       new_listing env format path x)"

definition list_failed :: "exn \<Rightarrow> ('p, 'cl, 'w, 'am, 'os) ftp \<Rightarrow> ('p, 'cl, 'w, 'am, 'os) handled" where
  "list_failed e x =
     finished (answer (if e = ExceptionFailedToConnect then RC_CANT_OPEN_DATA_CONN else RC_ACTION_FAILED) [] x)"

definition on_list ::
    "('p, 'w, 'am, 'cl, 'os) ftp_env \<Rightarrow> string \<Rightarrow> ('p, 'cl, 'w, 'am, 'os) ftp \<Rightarrow> ('p, 'cl, 'w, 'am, 'os) handled" where
  "on_list env param x =
     (case parse_list_args param Format_long (st_list_hidden_files (fx_state x)) of
        (vpath, format, hidden) \<Rightarrow>
          let x = x\<lparr>fx_state := (fx_state x)\<lparr>st_list_hidden_files := hidden\<rparr>\<rparr>
          in (case open_listing env (list_format_of env format x) vpath x of
                Inr file \<Rightarrow> finished (start_transfer (List_file file) x)
              | Inl e \<Rightarrow> list_failed e x))"

definition on_nlst ::
    "('p, 'w, 'am, 'cl, 'os) ftp_env \<Rightarrow> string \<Rightarrow> ('p, 'cl, 'w, 'am, 'os) ftp \<Rightarrow> ('p, 'cl, 'w, 'am, 'os) handled" where
  "on_nlst env param x =
     (case open_listing env Nlst_format param x of
        Inr file \<Rightarrow> finished (start_transfer (List_file file) x)
      | Inl e \<Rightarrow> list_failed e x)"

definition on_mlsd ::
    "('p, 'w, 'am, 'cl, 'os) ftp_env \<Rightarrow> string \<Rightarrow> ('p, 'cl, 'w, 'am, 'os) ftp \<Rightarrow> ('p, 'cl, 'w, 'am, 'os) handled" where
  "on_mlsd env param x =
     (case open_listing env (Mlsd_format (st_mdtx (fx_state x))) param x of
        Inr file \<Rightarrow>
          finished (start_transfer (List_file file)
            (x\<lparr>fx_state := (fx_state x)\<lparr>st_override_as_binary := True\<rparr>\<rparr>))
      | Inl e \<Rightarrow> list_failed e x)"

definition on_mlst ::
    "('p, 'w, 'am, 'cl, 'os) ftp_env \<Rightarrow> string \<Rightarrow> ('p, 'cl, 'w, 'am, 'os) ftp \<Rightarrow> ('p, 'cl, 'w, 'am, 'os) handled" where
  "on_mlst env param x =
     (case bindE (session_get_path (e_fs env) (fx_ses x) param ANY) (\<lambda>path.
             bindE (path_exists (e_fs env) (fx_disk x) path) (\<lambda>ex.
               if \<not> ex then Inl ExceptionNotFound
               else if \<not> can_list path then Inl ExceptionAccessDenied
               else get_mlst_facts (e_fs env) (e_dirs env) (e_garbage env) (fx_disk x)
                      (st_mdtx (fx_state x)) path)) of
        Inr facts \<Rightarrow> finished (answer_verbose RC_FILE_ACTION_OK (''Listing '' @ param @ crlf @ facts) x)
      | Inl e \<Rightarrow> list_failed e x)"

text \<open>
  \<open>STAT\<close> with a path reads the listing to its end, putting a space after every line feed. A listing
  that never ends leaves the handler hanging.
\<close>

definition indent_lines :: "string \<Rightarrow> string" where
  "indent_lines s = concat (map (\<lambda>c. if c = lf then [c, space] else [c]) s)"

definition on_stat_list ::
    "('p, 'w, 'am, 'cl, 'os) ftp_env \<Rightarrow> string \<Rightarrow> ('p, 'cl, 'w, 'am, 'os) ftp \<Rightarrow> ('p, 'cl, 'w, 'am, 'os) handled" where
  "on_stat_list env param x =
     (case parse_list_args param Format_long (st_list_hidden_files (fx_state x)) of
        (vpath, format, hidden) \<Rightarrow>
          let x = x\<lparr>fx_state := (fx_state x)\<lparr>st_list_hidden_files := hidden\<rparr>\<rparr>
          in (case open_listing env (list_format_of env format x) vpath x of
                Inl e \<Rightarrow> finished (answer RC_ACTION_FAILED [] x)
              | Inr file \<Rightarrow>
                  (case drain (Suc (Suc (fli_left (dl_fli (li_lister file)))))
                          (ftp_list_read (e_fs env) (e_dirs env)) li_is_eof (fx_disk x) 0 file of
                     None \<Rightarrow> finished (x\<lparr>fx_hung := True\<rparr>)
                   | Some (Inl e) \<Rightarrow> finished (answer RC_ACTION_FAILED [] x)
                   | Some (Inr data) \<Rightarrow>
                       let listing = [space] @ indent_lines data;
                           listing = (if length listing \<ge> 3 then take (length listing - 3) listing else [])
                       in finished (answer_verbose RC_DIRECTORY_STATUS (param @ crlf @ listing) x))))"

definition on_stat_state :: "('p, 'cl, 'w, 'am, 'os) ftp \<Rightarrow> ('p, 'cl, 'w, 'am, 'os) handled" where
  "on_stat_state x =
     (let st = fx_state x
      in finished (answer RC_STATUS_OK
           ((if is_in_transfer st
             then ''In transfer of file '' @ [CHR 0x22] @ st_requested_path st @ [CHR 0x22] @ '', ''
             else ''Not in transfer, '')
            @ (if have_pasv_or_post st then ''Awaiting transfer command, '' else [])
            @ (if st_abort_pending st then ''Abort pending, '' else [])
            @ ''Structure=File, Type='' @ show_type (get_type st)
            @ '', Rest offset='' @ dec (unat (st_rest st))
            @ '', CC-TLS='' @ (if st_cc_is_encrypted st then ''1'' else ''0'')
            @ '', PROT='' @ (if st_encrypt_transfers st then ''P'' else ''C'')) x))"

definition on_stat ::
    "('p, 'w, 'am, 'cl, 'os) ftp_env \<Rightarrow> string \<Rightarrow> ('p, 'cl, 'w, 'am, 'os) ftp \<Rightarrow> ('p, 'cl, 'w, 'am, 'os) handled" where
  "on_stat env param x = (if param = [] then on_stat_state x else on_stat_list env param x)"

section \<open>Encryption\<close>

text \<open>The task that switches the control connection to TLS is queued until the reply was sent.\<close>

definition on_auth :: "('p, 'cl, 'w, 'am, 'os) ftp \<Rightarrow> ('p, 'cl, 'w, 'am, 'os) handled" where
  "on_auth x =
     (if st_cc_is_encrypted (fx_state x)
      then finished (answer RC_REJECTED_FOR_POLICY_REASONS ''The control connection is already encrypted'' x)
      else finished ((answer RC_SECURITY_DATA_EXCHANGE_COMPLETE [] x)
             \<lparr>fx_state := (fx_state x)\<lparr>st_tasks := Suc (st_tasks (fx_state x))\<rparr>\<rparr>))"

definition on_pbsz :: "('p, 'cl, 'w, 'am, 'os) ftp \<Rightarrow> ('p, 'cl, 'w, 'am, 'os) handled" where
  "on_pbsz x = finished (answer RC_OK [] x)"

definition on_prot :: "string \<Rightarrow> ('p, 'cl, 'w, 'am, 'os) ftp \<Rightarrow> ('p, 'cl, 'w, 'am, 'os) handled" where
  "on_prot param x =
     finished (answer RC_OK [] (x\<lparr>fx_state := (fx_state x)\<lparr>st_encrypt_transfers := iequals param ''p''\<rparr>\<rparr>))"

section \<open>The virtual call\<close>

fun on_cmd ::
    "('p, 'w, 'am, 'cl, 'os) ftp_env \<Rightarrow> ftp_cmd \<Rightarrow> string \<Rightarrow> string list \<Rightarrow> ('p, 'cl, 'w, 'am, 'os) ftp \<Rightarrow>
     ('p, 'cl, 'w, 'am, 'os) handled" where
  "on_cmd env Cmd_help param match x = on_help param x"
| "on_cmd env Cmd_feat param match x = on_feat x"
| "on_cmd env Cmd_opts param match x = on_opts match x"
| "on_cmd env Cmd_quit param match x = on_quit x"
| "on_cmd env Cmd_syst param match x = on_syst x"
| "on_cmd env Cmd_type param match x = on_type param x"
| "on_cmd env Cmd_port param match x = on_port env match x"
| "on_cmd env Cmd_user param match x = on_user env param x"
| "on_cmd env Cmd_pass param match x = on_pass env param x"
| "on_cmd env Cmd_retr param match x = on_retr env param x"
| "on_cmd env Cmd_stor param match x = on_stor env param x"
| "on_cmd env Cmd_stou param match x = on_stou env x"
| "on_cmd env Cmd_appe param match x = on_appe env param x"
| "on_cmd env Cmd_rest param match x = on_rest env param x"
| "on_cmd env Cmd_size param match x = on_size env param x"
| "on_cmd env Cmd_mdtm param match x = on_mdtm env param x"
| "on_cmd env Cmd_allo param match x = on_allo env param x"
| "on_cmd env Cmd_abor param match x = on_abor x"
| "on_cmd env Cmd_pwd param match x = on_pwd x"
| "on_cmd env Cmd_cwd param match x = on_cwd env param x"
| "on_cmd env Cmd_cdup param match x = on_cdup env x"
| "on_cmd env Cmd_dele param match x = on_dele env param x"
| "on_cmd env Cmd_mkd param match x = on_mkd env param x"
| "on_cmd env Cmd_rmd param match x = on_rmd env param x"
| "on_cmd env Cmd_noop param match x = on_noop x"
| "on_cmd env Cmd_rnfr param match x = on_rnfr env param x"
| "on_cmd env Cmd_rnto param match x = on_rnto env param x"
| "on_cmd env Cmd_list param match x = on_list env param x"
| "on_cmd env Cmd_nlst param match x = on_nlst env param x"
| "on_cmd env Cmd_mlsd param match x = on_mlsd env param x"
| "on_cmd env Cmd_mlst param match x = on_mlst env param x"
| "on_cmd env Cmd_pasv param match x = on_pasv env x"
| "on_cmd env Cmd_stat param match x = on_stat env param x"
| "on_cmd env Cmd_auth param match x = on_auth x"
| "on_cmd env Cmd_pbsz param match x = on_pbsz x"
| "on_cmd env Cmd_prot param match x = on_prot param x"

end
