(* ===== verification/FtpDispatch.thy ===== *)
theory FtpDispatch
  imports FtpHandlers
begin

text \<open>
  The control connection: \<open>src/wfde/ftp/WfdeFtpSession.cpp\<close> from \<open>ProcessRequest\<close> to \<open>DoClose\<close>. What was
  sent to the client is the list \<open>fx_sent\<close>, one element for each reply. A write to the control
  connection is one step; a failing one sends nothing.
\<close>

section \<open>Replies\<close>

definition format_reply :: "ftp_reply_code \<Rightarrow> string \<Rightarrow> bool \<Rightarrow> string" where
  "format_reply code message multi_line =
     (let reply = resolve_code code;
          first = dec (fst reply) @ (if multi_line then ''- '' else '' '')
                @ (if message = [] then snd reply else message) @ crlf
      in if multi_line then first @ dec (fst reply) @ '' END'' @ crlf else first)"

text \<open>\<open>Reply\<close>: after a reply was sent the tasks that wait for it are handed to the pipeline.\<close>

definition ftp_send ::
    "('p, 'w, 'am, 'cl, 'os) ftp_env \<Rightarrow> ftp_reply_code \<Rightarrow> string \<Rightarrow> bool \<Rightarrow> ('p, 'cl, 'w, 'am, 'os) ftp \<Rightarrow>
     ('p, 'cl, 'w, 'am, 'os) ftp" where
  "ftp_send env code message multi_line x =
     (if fx_reply_failed x \<or> \<not> fx_socket_open x then x
      else
        let msg = format_reply code message multi_line
        in (case e_write env (fx_os x) msg of
              (False, os) \<Rightarrow> x\<lparr>fx_os := os, fx_reply_failed := True\<rparr>
            | (True, os) \<Rightarrow>
                x\<lparr>fx_os := os, fx_sent := fx_sent x @ [msg],
                  fx_tasks := fx_tasks x + st_tasks (fx_state x),
                  fx_state := (fx_state x)\<lparr>st_tasks := 0\<rparr>\<rparr>))"

section \<open>Closing\<close>

definition ftp_close :: "('p, 'cl, 'w, 'am, 'os) ftp \<Rightarrow> ('p, 'cl, 'w, 'am, 'os) ftp" where
  "ftp_close x = x\<lparr>fx_close_pending := True, fx_socket_open := False\<rparr>"

text \<open>
  The two functions that \<open>abort_transfer_\<close> can hold: one closes the acceptor, which it does not check to
  be there, the other the transfer socket when there is one.
\<close>

definition run_abort :: "abort_action \<Rightarrow> ('p, 'cl, 'w, 'am, 'os) ftp \<Rightarrow> ('p, 'cl, 'w, 'am, 'os) ftp" where
  "run_abort a x =
     (case a of
        Abort_accept \<Rightarrow>
          (if st_pasv (fx_state x) = None then x\<lparr>fx_hung := True\<rparr>
           else x\<lparr>fx_state := (fx_state x)\<lparr>st_pasv := Some None\<rparr>\<rparr>)
      | Abort_socket \<Rightarrow> x\<lparr>fx_transfer_open := map_option (\<lambda>_. False) (fx_transfer_open x)\<rparr>)"

text \<open>\<open>DoClose\<close>; the session manager closes the session and drops it.\<close>

definition ftp_do_close :: "('p, 'cl, 'w, 'am, 'os) ftp \<Rightarrow> ('p, 'cl, 'w, 'am, 'os) ftp" where
  "ftp_do_close x =
     (if fx_closed x then x
      else
        let x = (ftp_close x)\<lparr>fx_closed := True\<rparr>
        in if fx_expired x then x
           else
             let x = (case fx_abort x of None \<Rightarrow> x | Some a \<Rightarrow> run_abort a x)
             in x\<lparr>fx_ses := session_close (fx_ses x), fx_expired := True\<rparr>)"

definition too_long_message :: string where
  "too_long_message = ''Command too long. Did you forget to send CRLF? Bye.''"

section \<open>One request\<close>

definition max_cmd_name_length :: nat where
  "max_cmd_name_length = 8"

definition get_ftp_command :: "string \<Rightarrow> exn + string \<times> ftp_cmd" where
  "get_ftp_command request =
     (let cmd_name = map ascii_upper (takeWhile is_alpha request)
      in if cmd_name = [] then Inl ExceptionParseError
         else if length cmd_name > max_cmd_name_length then Inl ExceptionParseError
         else (case default_commands cmd_name of
                 None \<Rightarrow> Inl ExceptionParseError
               | Some cmd \<Rightarrow> Inr (cmd_name, cmd)))"

text \<open>The \<open>try\<close> block of \<open>OnCommand\<close>: the handler, and what is done with its reply.\<close>

definition run_handler ::
    "('p, 'w, 'am, 'cl, 'os) ftp_env \<Rightarrow> ftp_cmd \<Rightarrow> string \<Rightarrow> string list \<Rightarrow> ('p, 'cl, 'w, 'am, 'os) ftp \<Rightarrow>
     ('p, 'cl, 'w, 'am, 'os) ftp" where
  "run_handler env cmd param match x =
     (case on_cmd env cmd param match (x\<lparr>fx_reply := ftp_reply_new\<rparr>) of
        (Inl e, x) \<Rightarrow> (ftp_send env RC_BYE ''Internal server error'' False x)\<lparr>fx_close_pending := True\<rparr>
      | (Inr _, x) \<Rightarrow>
          if fx_hung x then x
          else
            let x = x\<lparr>fx_ses := session_touch (e_clock env (fx_os x)) (fx_ses x), fx_prev_cmd := get_name cmd\<rparr>;
                reply = fx_reply x
            in if rp_have_reply reply then
                 (case get_reply reply of
                    ((code, message), replied) \<Rightarrow>
                      let x = ftp_send env code message (rp_multi_line reply) (x\<lparr>fx_reply := replied\<rparr>)
                      in if rp_do_end_session reply then ftp_close x else x)
               else if st_abort_pending (fx_state x) then
                 (case fx_abort x of None \<Rightarrow> x | Some a \<Rightarrow> (run_abort a x)\<lparr>fx_abort := None\<rparr>)
               else x)"

text \<open>\<open>OnCommand\<close>: the gates in their order, then the parameter, then the handler.\<close>

definition gate_refusal ::
    "ftp_cmd \<Rightarrow> ('p, 'cl, 'w, 'am, 'os) ftp \<Rightarrow> (ftp_reply_code \<times> string) option" where
  "gate_refusal cmd x =
     (if need_prev_cmd cmd \<noteq> [] \<and> fx_prev_cmd x \<noteq> need_prev_cmd cmd then Some (RC_BAD_SEQUENCE_OF_COMMANDS, [])
      else if must_be_logged_in cmd \<and> \<not> st_is_logged_in (fx_state x) then Some (RC_NOT_LOGGED_ON, [])
      else if must_not_be_logged_in cmd \<and> st_is_logged_in (fx_state x)
        then Some (RC_ACTION_NOT_TAKEN, ''You are logged in!'')
      else if must_be_in_transfer cmd \<and> \<not> is_in_transfer (fx_state x)
        then Some (RC_ACTION_NOT_TAKEN, ''No active file transfer'')
      else if must_not_be_in_transfer cmd \<and> is_in_transfer (fx_state x)
        then Some (RC_ACTION_NOT_TAKEN, ''Active file transfer!'')
      else if need_post_or_pasv cmd \<and> \<not> have_pasv_or_post (fx_state x)
        then Some (RC_BAD_SEQUENCE_OF_COMMANDS, ''Need PASV or POST before '' @ get_name cmd)
      else if must_have_encryption cmd \<and> \<not> st_cc_is_encrypted (fx_state x)
        then Some (RC_REJECTED_FOR_POLICY_REASONS, ''Encryption is required for '' @ get_name cmd)
      else None)"

definition on_command ::
    "('p, 'w, 'am, 'cl, 'os) ftp_env \<Rightarrow> ftp_cmd \<Rightarrow> string \<Rightarrow> ('p, 'cl, 'w, 'am, 'os) ftp \<Rightarrow>
     ('p, 'cl, 'w, 'am, 'os) ftp" where
  "on_command env cmd request x =
     (if fx_expired x then x
      else (case gate_refusal cmd x of
              Some (code, message) \<Rightarrow> ftp_send env code message False x
            | None \<Rightarrow>
                let param = dropWhile (\<lambda>c. c = space) (drop (length (fx_curr_cmd x)) request)
                in (case (if can_have_params cmd then e_regex env (get_regex cmd) param else Some []) of
                      None \<Rightarrow> ftp_send env RC_SYNTAX_ERROR_IN_PARAMS [] False x
                    | Some match \<Rightarrow> run_handler env cmd param match x)))"

definition process_request ::
    "('p, 'w, 'am, 'cl, 'os) ftp_env \<Rightarrow> string \<Rightarrow> ('p, 'cl, 'w, 'am, 'os) ftp \<Rightarrow> ('p, 'cl, 'w, 'am, 'os) ftp" where
  "process_request env request x =
     (case get_ftp_command request of
        Inl e \<Rightarrow> ftp_send env RC_SYNTAX_ERROR [] False x
      | Inr (cmd_name, cmd) \<Rightarrow> on_command env cmd request (x\<lparr>fx_curr_cmd := cmd_name\<rparr>))"

section \<open>The life of the control connection\<close>

definition ftp_new ::
    "('p, 'cl) session \<Rightarrow> 'am \<Rightarrow> 'w \<Rightarrow> 'os \<Rightarrow> ('p, 'cl, 'w, 'am, 'os) ftp" where
  "ftp_new ses am w os =
     \<lparr>fx_ses = ses, fx_state = ftp_state_new, fx_reply = ftp_reply_new, fx_prev_cmd = [], fx_curr_cmd = [],
      fx_file = None, fx_phase = Phase_none, fx_abort = None, fx_transfer_open = None,
      fx_close_pending = False, fx_closed = False, fx_reply_failed = False, fx_socket_open = True,
      fx_expired = False, fx_hung = False, fx_last_touch = 0, fx_tasks = 0, fx_sent = [], fx_am = am, fx_disk = w, fx_os = os\<rparr>"

text \<open>\<open>WfdeProtocolFtp::HandleConnection\<close>, and the greeting of \<open>ProcessCommands\<close>.\<close>

definition handle_connection ::
    "('p, 'w, 'am, 'cl, 'os) ftp_env \<Rightarrow> 64 word \<Rightarrow> 32 word \<Rightarrow> 'p paths \<Rightarrow> 'am \<Rightarrow> 'w \<Rightarrow> 'os \<Rightarrow>
     ('p, 'cl, 'w, 'am, 'os) ftp" where
  "handle_connection env garbage time_out perms am w os =
     ftp_send env RC_READY [] False
       (ftp_new (session_set_permissions (wfde_session_new garbage (e_clock env os) None time_out) perms) am w os)"

definition ftp_alive :: "('p, 'cl, 'w, 'am, 'os) ftp \<Rightarrow> bool" where
  "ftp_alive x \<longleftrightarrow> \<not> fx_reply_failed x \<and> \<not> fx_close_pending x \<and> \<not> fx_expired x \<and> fx_socket_open x \<and> \<not> fx_hung x"

text \<open>\<open>StartTls\<close>, with the outcome of the handshake.\<close>

definition start_tls :: "bool \<Rightarrow> ('p, 'cl, 'w, 'am, 'os) ftp \<Rightarrow> ('p, 'cl, 'w, 'am, 'os) ftp" where
  "start_tls ok x =
     (if ok then x\<lparr>fx_state := (fx_state x)\<lparr>st_cc_is_encrypted := True\<rparr>\<rparr>
      else x\<lparr>fx_socket_open := False\<rparr>)"

end
