(* ===== verification/FtpTransfer.thy ===== *)
theory FtpTransfer
  imports FtpDispatch
begin

text \<open>
  The transfer coroutine: \<open>TransferFile\<close>, \<open>SendFile\<close>, \<open>ReceiveFile\<close> and their helpers in
  \<open>src/wfde/ftp/WfdeFtpSession.cpp\<close>. It gives up control at each operation on the data connection, so
  it is a sequence of steps: the start, the connection, one chunk at a time. What the network
  does in a step is an argument of it.
\<close>

section \<open>The file being transferred\<close>

text \<open>The virtual calls on a \<open>File\<close>: to the disk file or the listing, behind the wrapper for text or not.\<close>

definition session_file_ops :: "('p, 'w) fs_ops \<Rightarrow> ('p, 'w) dir_ops \<Rightarrow> ('p session_file, 'w) file_ops" where
  "session_file_ops fs dirs =
     (let d = wfde_file_ops fs; l = ftp_list_ops fs dirs
      in \<lparr>fo_read = (\<lambda>w n f. case f of
                        Disk_file f \<Rightarrow> map_prod id Disk_file (fo_read d w n f)
                      | List_file f \<Rightarrow> map_prod id List_file (fo_read l w n f)),
          fo_write = (\<lambda>n (f, w). case f of
                        Disk_file f \<Rightarrow> map_prod id (map_prod Disk_file id) (fo_write d n (f, w))
                      | List_file f \<Rightarrow> map_prod id (map_prod List_file id) (fo_write l n (f, w))),
          fo_fill = (\<lambda>data (f, w). case f of
                        Disk_file f \<Rightarrow> map_prod Disk_file id (fo_fill d data (f, w))
                      | List_file f \<Rightarrow> map_prod List_file id (fo_fill l data (f, w))),
          fo_set_bytes_written = (\<lambda>n (f, w). case f of
                        Disk_file f \<Rightarrow> map_prod id (map_prod Disk_file id) (fo_set_bytes_written d n (f, w))
                      | List_file f \<Rightarrow> map_prod id (map_prod List_file id) (fo_set_bytes_written l n (f, w))),
          fo_seek = (\<lambda>n f. case f of
                        Disk_file f \<Rightarrow> map_prod id Disk_file (fo_seek d n f)
                      | List_file f \<Rightarrow> map_prod id List_file (fo_seek l n f)),
          fo_get_pos = case_session_file (fo_get_pos d) (fo_get_pos l),
          fo_get_size = case_session_file (fo_get_size d) (fo_get_size l),
          fo_is_eof = case_session_file (fo_is_eof d) (fo_is_eof l),
          fo_close = (\<lambda>(f, w). case f of
                        Disk_file f \<Rightarrow> map_prod id (map_prod Disk_file id) (fo_close d (f, w))
                      | List_file f \<Rightarrow> map_prod id (map_prod List_file id) (fo_close l (f, w))),
          fo_get_operation = session_file_operation,
          fo_get_segment_size = case_session_file (fo_get_segment_size d) (fo_get_segment_size l)\<rparr>)"

definition tf_read ::
    "('p, 'w, 'am, 'cl, 'os) ftp_env \<Rightarrow> 'w \<Rightarrow> 'p transfer_file \<Rightarrow> (exn + string) \<times> 'p transfer_file" where
  "tf_read env w f =
     (let ops = session_file_ops (e_fs env) (e_dirs env)
      in (case f of
            Binary_file s \<Rightarrow> map_prod id Binary_file (fo_read ops w 0 s)
          | Text_file a \<Rightarrow> map_prod id Text_file (fo_read (ascii_file_ops ops (e_local_eol env)) w 0 a)))"

definition tf_is_eof :: "('p, 'w, 'am, 'cl, 'os) ftp_env \<Rightarrow> 'p transfer_file \<Rightarrow> bool" where
  "tf_is_eof env f =
     (let ops = session_file_ops (e_fs env) (e_dirs env)
      in (case f of
            Binary_file s \<Rightarrow> fo_is_eof ops s
          | Text_file a \<Rightarrow> fo_is_eof (ascii_file_ops ops (e_local_eol env)) a))"

text \<open>\<open>Write\<close> with the default size, and then the bytes that were put into its buffer.\<close>

definition tf_write ::
    "('p, 'w, 'am, 'cl, 'os) ftp_env \<Rightarrow> 'p transfer_file \<times> 'w \<Rightarrow> (exn + nat) \<times> 'p transfer_file \<times> 'w" where
  "tf_write env fw =
     (let ops = session_file_ops (e_fs env) (e_dirs env)
      in (case fw of
            (Binary_file s, w) \<Rightarrow> map_prod id (map_prod Binary_file id) (fo_write ops 0 (s, w))
          | (Text_file a, w) \<Rightarrow>
              map_prod id (map_prod Text_file id) (fo_write (ascii_file_ops ops (e_local_eol env)) 0 (a, w))))"

definition tf_fill ::
    "('p, 'w, 'am, 'cl, 'os) ftp_env \<Rightarrow> string \<Rightarrow> 'p transfer_file \<times> 'w \<Rightarrow> 'p transfer_file \<times> 'w" where
  "tf_fill env data fw =
     (let ops = session_file_ops (e_fs env) (e_dirs env)
      in (case fw of
            (Binary_file s, w) \<Rightarrow> map_prod Binary_file id (fo_fill ops data (s, w))
          | (Text_file a, w) \<Rightarrow> map_prod Text_file id (fo_fill (ascii_file_ops ops (e_local_eol env)) data (a, w))))"

definition tf_set_bytes_written ::
    "('p, 'w, 'am, 'cl, 'os) ftp_env \<Rightarrow> nat \<Rightarrow> 'p transfer_file \<times> 'w \<Rightarrow> (exn + unit) \<times> 'p transfer_file \<times> 'w" where
  "tf_set_bytes_written env n fw =
     (let ops = session_file_ops (e_fs env) (e_dirs env)
      in (case fw of
            (Binary_file s, w) \<Rightarrow> map_prod id (map_prod Binary_file id) (fo_set_bytes_written ops n (s, w))
          | (Text_file a, w) \<Rightarrow>
              map_prod id (map_prod Text_file id)
                (fo_set_bytes_written (ascii_file_ops ops (e_local_eol env)) n (a, w))))"

definition tf_close ::
    "('p, 'w, 'am, 'cl, 'os) ftp_env \<Rightarrow> 'p transfer_file \<times> 'w \<Rightarrow> (exn + unit) \<times> 'p transfer_file \<times> 'w" where
  "tf_close env fw =
     (let ops = session_file_ops (e_fs env) (e_dirs env)
      in (case fw of
            (Binary_file s, w) \<Rightarrow> map_prod id (map_prod Binary_file id) (fo_close ops (s, w))
          | (Text_file a, w) \<Rightarrow>
              map_prod id (map_prod Text_file id) (fo_close (ascii_file_ops ops (e_local_eol env)) (a, w))))"

text \<open>Calls on \<open>current_file_\<close>, which is there during a transfer.\<close>

definition on_file ::
    "('p transfer_file \<times> 'w \<Rightarrow> (exn + 'r) \<times> 'p transfer_file \<times> 'w) \<Rightarrow> ('p, 'cl, 'w, 'am, 'os) ftp \<Rightarrow>
     (exn + 'r) \<times> ('p, 'cl, 'w, 'am, 'os) ftp" where
  "on_file call x =
     (case fx_file x of
        None \<Rightarrow> (Inl ExceptionLibrary, x)
      | Some f \<Rightarrow> (case call (f, fx_disk x) of (r, f, w) \<Rightarrow> (r, x\<lparr>fx_file := Some f, fx_disk := w\<rparr>)))"

text \<open>\<open>current_file_.reset()\<close>: the destructor of a file of the disk closes it; that of a listing does not write.\<close>

definition reset_file ::
    "('p, 'w, 'am, 'cl, 'os) ftp_env \<Rightarrow> ('p, 'cl, 'w, 'am, 'os) ftp \<Rightarrow> ('p, 'cl, 'w, 'am, 'os) ftp" where
  "reset_file env x = (snd (on_file (tf_close env) x))\<lparr>fx_file := None\<rparr>"

section \<open>The end of a transfer\<close>

definition cleanup_transfer ::
    "('p, 'w, 'am, 'cl, 'os) ftp_env \<Rightarrow> ('p, 'cl, 'w, 'am, 'os) ftp \<Rightarrow> ('p, 'cl, 'w, 'am, 'os) ftp" where
  "cleanup_transfer env x =
     (let x = reset_file env (x\<lparr>fx_transfer_open := None\<rparr>)
      in x\<lparr>fx_state := reset_transfer (fx_state x), fx_phase := Phase_none\<rparr>)"

definition notify_failed ::
    "('p, 'w, 'am, 'cl, 'os) ftp_env \<Rightarrow> ('p, 'cl, 'w, 'am, 'os) ftp \<Rightarrow> ('p, 'cl, 'w, 'am, 'os) ftp" where
  "notify_failed env x =
     (if fx_reply_failed x \<or> \<not> fx_socket_open x then x
      else
        let x = ftp_send env RC_TRANSFER_ABORTED [] False x
        in if st_abort_pending (fx_state x)
           then ftp_send env RC_CLOSING_DATA_CONNECTION ''ABOR command successful'' False
                  (x\<lparr>fx_state := (fx_state x)\<lparr>st_abort_pending := False\<rparr>\<rparr>)
           else x)"

text \<open>After \<open>SendFile\<close> or \<open>ReceiveFile\<close> has returned, and after one of them has thrown.\<close>

definition transfer_returned ::
    "('p, 'w, 'am, 'cl, 'os) ftp_env \<Rightarrow> ('p, 'cl, 'w, 'am, 'os) ftp \<Rightarrow> ('p, 'cl, 'w, 'am, 'os) ftp" where
  "transfer_returned env x = cleanup_transfer env (x\<lparr>fx_abort := None\<rparr>)"

definition transfer_threw ::
    "('p, 'w, 'am, 'cl, 'os) ftp_env \<Rightarrow> ('p, 'cl, 'w, 'am, 'os) ftp \<Rightarrow> ('p, 'cl, 'w, 'am, 'os) ftp" where
  "transfer_threw env x = transfer_returned env (ftp_send env RC_TRANSFER_ABORTED [] False x)"

text \<open>The last lines of \<open>SendFile\<close> and \<open>ReceiveFile\<close>: both ends are closed and the client is told.\<close>

definition transfer_done ::
    "('p, 'w, 'am, 'cl, 'os) ftp_env \<Rightarrow> string \<Rightarrow> ('p, 'cl, 'w, 'am, 'os) ftp \<Rightarrow> ('p, 'cl, 'w, 'am, 'os) ftp" where
  "transfer_done env verb x =
     (case on_file (tf_close env) (x\<lparr>fx_transfer_open := Some False\<rparr>) of
        (Inl e, x) \<Rightarrow> transfer_threw env x
      | (Inr _, x) \<Rightarrow>
          transfer_returned env
            (ftp_send env RC_CLOSING_DATA_CONNECTION (verb @ st_requested_path (fx_state x)) False x))"

section \<open>The steps\<close>

text \<open>The start of \<open>TransferFile\<close>: the reply, and for a passive transfer the function that aborts it.\<close>

definition transfer_begin ::
    "('p, 'w, 'am, 'cl, 'os) ftp_env \<Rightarrow> ('p, 'cl, 'w, 'am, 'os) ftp \<Rightarrow> ('p, 'cl, 'w, 'am, 'os) ftp" where
  "transfer_begin env x =
     (let x = ftp_send env RC_OPENING_CONNECTION [] False x
      in if fx_reply_failed x \<or> fx_expired x \<or> fx_closed x \<or> fx_close_pending x
         then (let x = reset_file env x
               in x\<lparr>fx_state := reset_transfer (fx_state x), fx_phase := Phase_none\<rparr>)
         else x\<lparr>fx_phase := Phase_connecting,
                fx_abort := (if st_initiation (fx_state x) = Init_port then fx_abort x else Some Abort_accept)\<rparr>)"

text \<open>The first lines of \<open>SendFile\<close> and \<open>ReceiveFile\<close>: the transfer socket may be closed by now.\<close>

definition transfer_enter ::
    "('p, 'w, 'am, 'cl, 'os) ftp_env \<Rightarrow> ('p, 'cl, 'w, 'am, 'os) ftp \<Rightarrow> ('p, 'cl, 'w, 'am, 'os) ftp" where
  "transfer_enter env x =
     (if fx_transfer_open x \<noteq> Some True then transfer_returned env (notify_failed env x)
      else x\<lparr>fx_phase := Phase_running\<rparr>)"

text \<open>
  The connection: \<open>connected\<close> is the outcome of \<open>DoPort\<close> or of accepting. An encrypted transfer goes on
  with the handshake, whose outcome is \<open>ok\<close>.
\<close>

definition transfer_connect ::
    "('p, 'w, 'am, 'cl, 'os) ftp_env \<Rightarrow> bool \<Rightarrow> ('p, 'cl, 'w, 'am, 'os) ftp \<Rightarrow> ('p, 'cl, 'w, 'am, 'os) ftp" where
  "transfer_connect env connected x =
     (if \<not> connected then cleanup_transfer env (ftp_send env RC_CANT_OPEN_DATA_CONN [] False x)
      else
        let x = x\<lparr>fx_abort := Some Abort_socket, fx_transfer_open := Some True\<rparr>
        in if st_encrypt_transfers (fx_state x) then x\<lparr>fx_phase := Phase_securing\<rparr>
           else transfer_enter env x)"

definition transfer_secure ::
    "('p, 'w, 'am, 'cl, 'os) ftp_env \<Rightarrow> bool \<Rightarrow> ('p, 'cl, 'w, 'am, 'os) ftp \<Rightarrow> ('p, 'cl, 'w, 'am, 'os) ftp" where
  "transfer_secure env ok x =
     (if \<not> ok then cleanup_transfer env (ftp_send env RC_CANT_OPEN_DATA_CONN [] False x)
      else transfer_enter env x)"

text \<open>\<open>TransferTouch\<close>: the session counts as active once in every five seconds of a transfer.\<close>

definition transfer_touch ::
    "('p, 'w, 'am, 'cl, 'os) ftp_env \<Rightarrow> ('p, 'cl, 'w, 'am, 'os) ftp \<Rightarrow> ('p, 'cl, 'w, 'am, 'os) ftp" where
  "transfer_touch env x =
     (let now = e_clock env (fx_os x)
      in if duration_secs (now - fx_last_touch x) > 5
         then x\<lparr>fx_ses := session_touch now (fx_ses x), fx_last_touch := now\<rparr> else x)"

text \<open>
  One pass of the loop of \<open>SendFile\<close>, or what follows it at the end of the file; \<open>sent\<close> is the outcome
  of writing to the data connection. Failing to shut TLS down is ignored.
\<close>

definition send_step ::
    "('p, 'w, 'am, 'cl, 'os) ftp_env \<Rightarrow> bool \<Rightarrow> ('p, 'cl, 'w, 'am, 'os) ftp \<Rightarrow> string \<times> ('p, 'cl, 'w, 'am, 'os) ftp" where
  "send_step env sent x =
     (if (case fx_file x of None \<Rightarrow> True | Some f \<Rightarrow> tf_is_eof env f)
      then ([], transfer_done env ''Successfully sent '' x)
      else
        (case on_file (\<lambda>(f, w). case tf_read env w f of (r, f) \<Rightarrow> (r, f, w)) x of
           (Inl e, x) \<Rightarrow> ([], transfer_threw env x)
         | (Inr buffer, x) \<Rightarrow>
             if buffer = [] then ([], x)
             else if \<not> sent \<or> fx_transfer_open x \<noteq> Some True
               then ([], transfer_returned env (notify_failed env x))
             else if fx_expired x then (buffer, transfer_returned env x)
             else (buffer, transfer_touch env x)))"

text \<open>
  One pass of the loop of \<open>ReceiveFile\<close>: some bytes arrive (as many as the buffer takes), the peer
  has finished, or reading fails; \<open>shutdown_ok\<close> is the outcome of shutting TLS down at the end.
\<close>

datatype receive_event = Received string | Peer_finished | Receive_failed

definition receive_step ::
    "('p, 'w, 'am, 'cl, 'os) ftp_env \<Rightarrow> receive_event \<Rightarrow> bool \<Rightarrow> ('p, 'cl, 'w, 'am, 'os) ftp \<Rightarrow> ('p, 'cl, 'w, 'am, 'os) ftp" where
  "receive_step env event shutdown_ok x =
     (case on_file (tf_write env) x of
        (Inl e, x) \<Rightarrow> transfer_threw env x
      | (Inr len, x) \<Rightarrow>
          (case event of
             Receive_failed \<Rightarrow> transfer_returned env (notify_failed env x)
           | Peer_finished \<Rightarrow>
               (case on_file (tf_set_bytes_written env 0) x of
                  (Inl e, x) \<Rightarrow> transfer_threw env x
                | (Inr _, x) \<Rightarrow>
                    if \<not> shutdown_ok then transfer_returned env (notify_failed env x)
                    else transfer_done env ''Successfully received '' x)
           | Received data \<Rightarrow>
               let data = take len data;
                   x = snd (on_file (\<lambda>fw. (Inr (), tf_fill env data fw)) x)
               in if fx_expired x then transfer_returned env x
                  else
                    let x = (if fx_transfer_open x \<noteq> Some True then ftp_send env RC_TRANSFER_ABORTED [] False x else x)
                    in (case on_file (tf_set_bytes_written env (length data)) x of
                          (Inl e, x) \<Rightarrow> transfer_threw env x
                        | (Inr _, x) \<Rightarrow> transfer_touch env x)))"

end
