(* ===== verification/FtpFacts.thy ===== *)
theory FtpFacts
  imports FtpTransfer
begin

text \<open>
  What the operations of an FTP session leave alone, and the invariant of its state: each handler,
  the dispatcher and each step of a transfer keep it.
\<close>

section \<open>Frames\<close>

lemma ftp_send_fields [simp]:
  "fx_ses (ftp_send env c t m x) = fx_ses x" "fx_reply (ftp_send env c t m x) = fx_reply x"
  "fx_prev_cmd (ftp_send env c t m x) = fx_prev_cmd x" "fx_curr_cmd (ftp_send env c t m x) = fx_curr_cmd x"
  "fx_file (ftp_send env c t m x) = fx_file x" "fx_phase (ftp_send env c t m x) = fx_phase x"
  "fx_abort (ftp_send env c t m x) = fx_abort x" "fx_transfer_open (ftp_send env c t m x) = fx_transfer_open x"
  "fx_close_pending (ftp_send env c t m x) = fx_close_pending x" "fx_closed (ftp_send env c t m x) = fx_closed x"
  "fx_socket_open (ftp_send env c t m x) = fx_socket_open x" "fx_expired (ftp_send env c t m x) = fx_expired x"
  "fx_hung (ftp_send env c t m x) = fx_hung x" "fx_am (ftp_send env c t m x) = fx_am x"
  "fx_disk (ftp_send env c t m x) = fx_disk x" "fx_last_touch (ftp_send env c t m x) = fx_last_touch x"
  by (simp_all add: ftp_send_def Let_def split: prod.splits bool.splits)

lemma ftp_send_state: "\<exists>n. fx_state (ftp_send env c t m x) = (fx_state x)\<lparr>st_tasks := n\<rparr>"
  by (auto simp: ftp_send_def Let_def split: prod.splits bool.splits intro: exI[of _ "st_tasks (fx_state x)"])

text \<open>Everything in the state but the queue of tasks.\<close>

definition st_core :: "ftp_state \<Rightarrow> ftp_state" where
  "st_core s = s\<lparr>st_tasks := 0\<rparr>"

lemma st_core_send [simp]: "st_core (fx_state (ftp_send env c t m x)) = st_core (fx_state x)"
  using ftp_send_state[of env c t m x] by (auto simp: st_core_def)

lemma st_core_fields:
  "st_is_logged_in (st_core s) = st_is_logged_in s" "st_transfer (st_core s) = st_transfer s"
  "st_initiation (st_core s) = st_initiation s" "st_ttype (st_core s) = st_ttype s"
  "st_requested_path (st_core s) = st_requested_path s" "st_rest (st_core s) = st_rest s"
  "st_abort_pending (st_core s) = st_abort_pending s" "st_rnfr (st_core s) = st_rnfr s"
  "st_override_as_binary (st_core s) = st_override_as_binary s" "st_pasv (st_core s) = st_pasv s"
  "st_cc_is_encrypted (st_core s) = st_cc_is_encrypted s" "st_encrypt_transfers (st_core s) = st_encrypt_transfers s"
  "st_login_name (st_core s) = st_login_name s" "st_mdtx (st_core s) = st_mdtx s"
  "st_port_endpoint (st_core s) = st_port_endpoint s" "st_list_hidden_files (st_core s) = st_list_hidden_files s"
  by (simp_all add: st_core_def)

lemma ftp_send_st [simp]:
  "st_is_logged_in (fx_state (ftp_send env c t m x)) = st_is_logged_in (fx_state x)"
  "st_transfer (fx_state (ftp_send env c t m x)) = st_transfer (fx_state x)"
  "st_initiation (fx_state (ftp_send env c t m x)) = st_initiation (fx_state x)"
  "st_requested_path (fx_state (ftp_send env c t m x)) = st_requested_path (fx_state x)"
  "st_rest (fx_state (ftp_send env c t m x)) = st_rest (fx_state x)"
  "st_abort_pending (fx_state (ftp_send env c t m x)) = st_abort_pending (fx_state x)"
  "st_rnfr (fx_state (ftp_send env c t m x)) = st_rnfr (fx_state x)"
  "st_override_as_binary (fx_state (ftp_send env c t m x)) = st_override_as_binary (fx_state x)"
  "st_pasv (fx_state (ftp_send env c t m x)) = st_pasv (fx_state x)"
  "st_cc_is_encrypted (fx_state (ftp_send env c t m x)) = st_cc_is_encrypted (fx_state x)"
  "st_encrypt_transfers (fx_state (ftp_send env c t m x)) = st_encrypt_transfers (fx_state x)"
  using ftp_send_state[of env c t m x] by auto

lemma session_touch_fields [simp]:
  "ses_client (session_touch now s) = ses_client s" "ses_cwd (session_touch now s) = ses_cwd s"
  "ses_permissions (session_touch now s) = ses_permissions s"
  "session_ok (session_touch now s) = session_ok s"
  by (simp_all add: session_touch_def Let_def session_ok_def)

lemma session_close_fields [simp]:
  "ses_client (session_close s) = ses_client s" "ses_cwd (session_close s) = ses_cwd s"
  "ses_permissions (session_close s) = ses_permissions s"
  "session_ok (session_close s) = session_ok s"
  by (simp_all add: session_close_def session_ok_def)

section \<open>The invariant\<close>

text \<open>
  What holds between the parts of the state of a session: who is logged on was accepted by the
  authentication manager; transfers are encrypted only behind an encrypted control connection; a
  transfer has its file, its coroutine and the way its connection is made, and belongs to a user.
\<close>

definition client_accepted :: "('am, 'cl, 'p) auth_ops \<Rightarrow> ('am \<Rightarrow> bool) \<Rightarrow> 'cl \<Rightarrow> bool" where
  "client_accepted au ok c \<longleftrightarrow> (\<exists>am name pwd. ok am \<and> fst (au_login au am name pwd) = Inr c)"

definition login_inv :: "('p, 'w, 'am, 'cl, 'os) ftp_env \<Rightarrow> ('am \<Rightarrow> bool) \<Rightarrow> ('p, 'cl) session \<Rightarrow> ftp_state \<Rightarrow> bool" where
  "login_inv env ok ses st \<longleftrightarrow> session_ok ses
     \<and> (ses_client ses \<noteq> None \<longleftrightarrow> st_is_logged_in st)
     \<and> (\<forall>c. ses_client ses = Some c \<longrightarrow> client_accepted (e_auth env) ok c)"

definition state_inv :: "ftp_state \<Rightarrow> bool" where
  "state_inv st \<longleftrightarrow> (st_encrypt_transfers st \<longrightarrow> st_cc_is_encrypted st)
     \<and> (is_in_transfer st \<longrightarrow> st_is_logged_in st \<and> have_pasv_or_post st)
     \<and> (st_override_as_binary st \<longrightarrow> is_in_transfer st)
     \<and> (st_rest st \<noteq> 0 \<longrightarrow> have_pasv_or_post st)
     \<and> (st_initiation st = Init_pasv \<longrightarrow> st_pasv st \<noteq> None)"

definition transfer_inv :: "('p, 'cl, 'w, 'am, 'os) ftp \<Rightarrow> bool" where
  "transfer_inv x \<longleftrightarrow> (fx_phase x \<noteq> Phase_none \<longleftrightarrow> is_in_transfer (fx_state x))
     \<and> (fx_file x \<noteq> None \<longleftrightarrow> is_in_transfer (fx_state x))
     \<and> (fx_transfer_open x \<noteq> None \<longrightarrow> fx_phase x = Phase_securing \<or> fx_phase x = Phase_running)"

definition ftp_inv :: "('p, 'w, 'am, 'cl, 'os) ftp_env \<Rightarrow> ('am \<Rightarrow> bool) \<Rightarrow> ('p, 'cl, 'w, 'am, 'os) ftp \<Rightarrow> bool" where
  "ftp_inv env ok x \<longleftrightarrow> ok (fx_am x) \<and> login_inv env ok (fx_ses x) (fx_state x) \<and> state_inv (fx_state x) \<and> transfer_inv x"

named_theorems inv_defs \<open>the parts of the invariant\<close>
lemmas [inv_defs] = ftp_inv_def login_inv_def state_inv_def transfer_inv_def is_in_transfer_def have_pasv_or_post_def

lemma ftp_inv_send [simp]: "ftp_inv env ok (ftp_send env c t m x) = ftp_inv env ok x"
  by (simp add: inv_defs)
section \<open>Handlers keep the invariant\<close>

lemma ftp_inv_reply [simp]: "ftp_inv env ok (fx_reply_update f x) = ftp_inv env ok x"
  by (simp add: inv_defs)

lemma answer_fields [simp]:
  "fx_ses (answer c t x) = fx_ses x" "fx_state (answer c t x) = fx_state x" "fx_disk (answer c t x) = fx_disk x"
  "fx_ses (answer_verbose c t x) = fx_ses x" "fx_state (answer_verbose c t x) = fx_state x"
  "fx_disk (answer_verbose c t x) = fx_disk x"
  "fx_phase (answer c t x) = fx_phase x" "fx_file (answer c t x) = fx_file x"
  "fx_transfer_open (answer c t x) = fx_transfer_open x" "fx_am (answer c t x) = fx_am x"
  by (simp_all add: answer_def answer_verbose_def)

lemma ftp_inv_answer [simp]:
  "ftp_inv env ok (answer c t x) = ftp_inv env ok x" "ftp_inv env ok (answer_verbose c t x) = ftp_inv env ok x"
  by (simp_all add: answer_def answer_verbose_def)

lemma answer_state [simp]:
  "(answer c t x)\<lparr>fx_state := s\<rparr> = answer c t (x\<lparr>fx_state := s\<rparr>)"
  by (simp add: answer_def)

lemma ftp_inv_outside [simp]:
  "ftp_inv env ok (fx_disk_update f x) = ftp_inv env ok x" "ftp_inv env ok (fx_os_update g x) = ftp_inv env ok x"
  "ftp_inv env ok (fx_hung_update b x) = ftp_inv env ok x"
  "ftp_inv env ok (fx_prev_cmd_update p x) = ftp_inv env ok x" "ftp_inv env ok (fx_curr_cmd_update p x) = ftp_inv env ok x"
  "ftp_inv env ok (fx_abort_update a x) = ftp_inv env ok x" "ftp_inv env ok (fx_close_pending_update b x) = ftp_inv env ok x"
  "ftp_inv env ok (fx_closed_update b x) = ftp_inv env ok x" "ftp_inv env ok (fx_expired_update b x) = ftp_inv env ok x"
  "ftp_inv env ok (fx_socket_open_update b x) = ftp_inv env ok x" "ftp_inv env ok (fx_last_touch_update i x) = ftp_inv env ok x"
  "ftp_inv env ok (fx_tasks_update n x) = ftp_inv env ok x"
  by (simp_all add: inv_defs)

text \<open>Fields of the state that the invariant does not read.\<close>

lemma ftp_inv_st [simp]:
  "ftp_inv env ok (x\<lparr>fx_state := (fx_state x)\<lparr>st_ttype := t\<rparr>\<rparr>) = ftp_inv env ok x"
  "ftp_inv env ok (x\<lparr>fx_state := (fx_state x)\<lparr>st_mdtx := d\<rparr>\<rparr>) = ftp_inv env ok x"
  "ftp_inv env ok (x\<lparr>fx_state := (fx_state x)\<lparr>st_login_name := n\<rparr>\<rparr>) = ftp_inv env ok x"
  "ftp_inv env ok (x\<lparr>fx_state := (fx_state x)\<lparr>st_allo := v\<rparr>\<rparr>) = ftp_inv env ok x"
  "ftp_inv env ok (x\<lparr>fx_state := (fx_state x)\<lparr>st_rnfr := n\<rparr>\<rparr>) = ftp_inv env ok x"
  "ftp_inv env ok (x\<lparr>fx_state := (fx_state x)\<lparr>st_list_hidden_files := b\<rparr>\<rparr>) = ftp_inv env ok x"
  "ftp_inv env ok (x\<lparr>fx_state := (fx_state x)\<lparr>st_abort_pending := b\<rparr>\<rparr>) = ftp_inv env ok x"
  "ftp_inv env ok (x\<lparr>fx_state := (fx_state x)\<lparr>st_tasks := k\<rparr>\<rparr>) = ftp_inv env ok x"
  "ftp_inv env ok (x\<lparr>fx_state := set_abort (fx_state x)\<rparr>) = ftp_inv env ok x"
  "ftp_inv env ok (set_requested_path n x) = ftp_inv env ok x"
  by (simp_all add: inv_defs set_abort_def set_requested_path_def)

lemma ftp_inv_session:
  assumes "ftp_inv env ok x" and "session_ok s" and "ses_client s = ses_client (fx_ses x)"
  shows "ftp_inv env ok (x\<lparr>fx_ses := s\<rparr>)"
  using assms by (auto simp: inv_defs)

lemma ftp_inv_session_ok: "ftp_inv env ok x \<Longrightarrow> session_ok (fx_ses x)"
  by (simp add: ftp_inv_def login_inv_def)

lemma set_requested_path_fields [simp]:
  "fx_disk (set_requested_path p x) = fx_disk x" "fx_ses (set_requested_path p x) = fx_ses x"
  "st_is_logged_in (fx_state (set_requested_path p x)) = st_is_logged_in (fx_state x)"
  "have_pasv_or_post (fx_state (set_requested_path p x)) = have_pasv_or_post (fx_state x)"
  "is_in_transfer (fx_state (set_requested_path p x)) = is_in_transfer (fx_state x)"
  by (simp_all add: set_requested_path_def have_pasv_or_post_def is_in_transfer_def)

lemma authenticate_client:
  assumes "ok am" and "authenticate_with_passwd au name pwd (am, ses) = (r, am', s)"
  shows "(case r of
            Inr True \<Rightarrow> ses_client ses = None \<and> (\<exists>c. ses_client s = Some c \<and> client_accepted au ok c)
          | _ \<Rightarrow> s = ses)"
proof (cases "ses_client ses")
  case (Some c)
  then show ?thesis using assms(2) by (auto simp: authenticate_with_passwd_def)
next
  case None
  obtain l am'' where l: "au_login au am name pwd = (l, am'')" by fastforce
  then have "client_accepted au ok c" if "l = Inr c" for c
    using that assms(1) by (metis client_accepted_def fst_conv)
  then show ?thesis using assms(2) None l
    by (auto simp: authenticate_with_passwd_def split: sum.splits option.splits if_splits)
qed

lemma on_authenticate_inv:
  assumes "ftp_inv env ok x" and "mount_provider (e_auth env) ok"
  shows "ftp_inv env ok (snd (on_authenticate env name pwd rejected x))"
proof -
  obtain r am s where a: "authenticate_with_passwd (e_auth env) name pwd (fx_am x, fx_ses x) = (r, am, s)"
    by (metis prod.exhaust)
  have am: "ok (fx_am x)" using assms(1) by (simp add: ftp_inv_def)
  note ok = mount_provider.authenticate_session_ok[OF assms(2) ftp_inv_session_ok[OF assms(1)] am a]
  note c = authenticate_client[where ok = ok, OF am a]
  show ?thesis
  proof (cases "r = Inr True")
    case True
    then obtain cl where "ses_client s = Some cl" "client_accepted (e_auth env) ok cl" using c by auto
    moreover have "\<not> is_in_transfer (fx_state x)"
      using assms(1) True c by (auto simp: inv_defs)
    ultimately show ?thesis using assms(1) ok True a
      by (auto simp: on_authenticate_def inv_defs)
  next
    case False
    then have "s = fx_ses x" using c by (auto split: sum.splits bool.splits)
    then have "ftp_inv env ok (x\<lparr>fx_am := am, fx_ses := s\<rparr>)"
      using assms(1) ok by (auto simp: inv_defs)
    then show ?thesis using a False
      by (auto simp: on_authenticate_def Let_def split: sum.splits bool.splits)
  qed
qed

lemma refused_inv [simp]: "ftp_inv env ok (snd (refused clauses e x)) = ftp_inv env ok x"
  by (simp add: refused_def)

lemma session_set_cwd_client: "ses_client (snd (session_set_cwd fs w path s)) = ses_client s"
  by (cases "session_get_path fs s path DIRECTORY") (auto simp: session_set_cwd_def bindS_def split: sum.splits)

lemma change_dir_inv:
  assumes "ftp_inv env ok x"
  shows "ftp_inv env ok (snd (change_dir env path x))"
proof -
  obtain r s where s: "session_set_cwd (e_fs env) (fx_disk x) path (fx_ses x) = (r, s)" by fastforce
  have "session_ok s" "ses_client s = ses_client (fx_ses x)"
    using session_set_cwd_ok[OF ftp_inv_session_ok[OF assms], of "e_fs env" "fx_disk x" path]
      session_set_cwd_client[of "e_fs env" "fx_disk x" path "fx_ses x"]
    by (simp_all add: s)
  then have "ftp_inv env ok (x\<lparr>fx_ses := s\<rparr>)" by (rule ftp_inv_session[OF assms])
  then show ?thesis using s by (simp add: change_dir_def Let_def split: sum.splits)
qed

lemma start_transfer_inv:
  assumes "ftp_inv env ok x" and "st_is_logged_in (fx_state x)" and "have_pasv_or_post (fx_state x)"
    and "\<not> is_in_transfer (fx_state x)"
  shows "ftp_inv env ok (start_transfer f x)"
    and "ftp_inv env ok (start_transfer f (x\<lparr>fx_state := (fx_state x)\<lparr>st_override_as_binary := True\<rparr>\<rparr>))"
  using assms
  by (cases "transfer_file_operation (Binary_file f)";
      cases "transfer_file_operation (Text_file (ascii_file_new f))";
      simp add: inv_defs start_transfer_def Let_def get_type_def)+

lemma open_and_start_inv:
  assumes "ftp_inv env ok x" and "st_is_logged_in (fx_state x)" and "have_pasv_or_post (fx_state x)"
    and "\<not> is_in_transfer (fx_state x)"
  shows "ftp_inv env ok (snd (open_and_start env operation x))"
proof -
  obtain r w where o': "session_open_file (e_fs env) (e_page env) (fx_ses x) (st_requested_path (fx_state x)) operation (fx_disk x) = (r, w)"
    by fastforce
  have "ftp_inv env ok (start_transfer f (x\<lparr>fx_disk := w\<rparr>))" for f
    using start_transfer_inv(1)[of env ok "x\<lparr>fx_disk := w\<rparr>"] assms by simp
  then show ?thesis using assms(1) o' by (simp add: open_and_start_def on_disk_def split: sum.splits)
qed

lemma on_retr_stor_inv:
  assumes "ftp_inv env ok x" and "st_is_logged_in (fx_state x)" and "have_pasv_or_post (fx_state x)"
    and "\<not> is_in_transfer (fx_state x)"
  shows "ftp_inv env ok (snd (on_retr_stor env operation param x))" "ftp_inv env ok (snd (on_appe env param x))"
    "ftp_inv env ok (snd (on_stou env x))"
  using open_and_start_inv[of env ok "set_requested_path param x"] open_and_start_inv[of env ok "set_requested_path u (x\<lparr>fx_os := os\<rparr>)" for u os] assms
  by (simp_all add: on_retr_stor_def on_appe_def on_stou_def Let_def split: prod.splits)

lemma on_disk_inv: "ftp_inv env ok x \<Longrightarrow> ftp_inv env ok (snd (disk_command f clauses x))"
  by (simp add: disk_command_def on_disk_def split: prod.splits sum.splits)

lemma on_port_inv: "ftp_inv env ok x \<Longrightarrow> ftp_inv env ok (snd (on_port env match x))"
  by (simp add: on_port_def Let_def inv_defs set_port_def del: not_None_eq split: option.splits)

lemma pasv_listen_inv: "ftp_inv env ok x \<Longrightarrow> ftp_inv env ok (snd (pasv_listen env x))"
  by (simp add: pasv_listen_def inv_defs del: not_None_eq split: sum.splits prod.splits)

lemma on_pasv_inv:
  assumes "ftp_inv env ok x" 
  shows "ftp_inv env ok (snd (on_pasv env x))"
proof -
  have 1: "ftp_inv env ok (x\<lparr>fx_state := (fx_state x)\<lparr>st_pasv := Some None\<rparr>\<rparr>)" 
    using assms by (simp add: inv_defs del: not_None_eq)
  obtain r y where y: "(if st_pasv (fx_state x) = None
            then pasv_listen env (x\<lparr>fx_state := (fx_state x)\<lparr>st_pasv := Some None\<rparr>\<rparr>)
            else (Inr (), x)) = (r, y)" by fastforce
  have 2: "ftp_inv env ok y" using pasv_listen_inv[OF 1] y assms by (auto split: if_splits)
  have 3: "ftp_inv env ok (y\<lparr>fx_state := set_pasv (fx_state y)\<rparr>)" if "st_pasv (fx_state y) \<noteq> None"
    using 2 that by (simp add: inv_defs set_pasv_def del: not_None_eq)
  show ?thesis using 2 3 unfolding on_pasv_def y
    by (cases r) (auto split: option.splits address.splits)
qed

lemma on_rest_inv:
  assumes "ftp_inv env ok x" and "have_pasv_or_post (fx_state x)"
  shows "ftp_inv env ok (snd (on_rest env param x))"
proof -
  have "ftp_inv env ok (x\<lparr>fx_state := (fx_state x)\<lparr>st_rest := v\<rparr>\<rparr>)" for v
    using assms by (simp add: inv_defs del: not_None_eq)
  then show ?thesis by (simp add: on_rest_def Let_def split: option.splits)
qed

lemma list_failed_inv [simp]: "ftp_inv env ok (snd (list_failed e x)) = ftp_inv env ok x"
  by (simp add: list_failed_def)

lemma on_list_inv:
  assumes "ftp_inv env ok x" and "st_is_logged_in (fx_state x)" and "have_pasv_or_post (fx_state x)"
    and "\<not> is_in_transfer (fx_state x)"
  shows "ftp_inv env ok (snd (on_list env param x))" "ftp_inv env ok (snd (on_nlst env param x))"
    "ftp_inv env ok (snd (on_mlsd env param x))"
proof -
  have "ftp_inv env ok (start_transfer f (x\<lparr>fx_state := (fx_state x)\<lparr>st_list_hidden_files := h\<rparr>\<rparr>))" for f h
    using assms by (intro start_transfer_inv) (simp_all add: have_pasv_or_post_def is_in_transfer_def)
  then show "ftp_inv env ok (snd (on_list env param x))"
    using assms(1) by (simp add: on_list_def Let_def split: prod.splits sum.splits)
qed (use assms start_transfer_inv[OF assms] in \<open>simp_all add: on_nlst_def on_mlsd_def split: sum.splits\<close>)

lemma on_stat_inv:
  assumes "ftp_inv env ok x"
  shows "ftp_inv env ok (snd (on_stat env param x))"
proof -
  have "ftp_inv env ok (snd (on_stat_list env param x))"
    using assms by (simp add: on_stat_list_def Let_def split: prod.splits sum.splits option.splits)
  then show ?thesis using assms by (simp add: on_stat_def on_stat_state_def Let_def)
qed

lemma on_opts_inv: "ftp_inv env ok x \<Longrightarrow> ftp_inv env ok (snd (on_opts match x))"
proof -
  assume "ftp_inv env ok x"
  then have "ftp_inv env ok (snd (on_opts_mlst p x))" "ftp_inv env ok (snd (on_opts_default x))" for p
    by (simp_all add: on_opts_mlst_def on_opts_default_def Let_def)
  moreover have "on_opts match x = on_opts_default x \<or> (\<exists>p. on_opts match x = on_opts_mlst p x)"
    unfolding on_opts_def Let_def
    by (cases "map_of (case dc_opts default_ftp_cmds of None \<Rightarrow> [] | Some m \<Rightarrow> m) (map ascii_upper (match ! 1))")
       (auto simp: split: ftp_cmd.splits)
  ultimately show ?thesis by metis
qed

lemma on_prot_inv:
  assumes "ftp_inv env ok x" and "st_cc_is_encrypted (fx_state x)"
  shows "ftp_inv env ok (snd (on_prot param x))"
proof -
  have "ftp_inv env ok (x\<lparr>fx_state := (fx_state x)\<lparr>st_encrypt_transfers := b\<rparr>\<rparr>)" for b
    using assms by (simp add: inv_defs del: not_None_eq)
  then show ?thesis by (simp add: on_prot_def)
qed

lemma on_files_inv:
  assumes "ftp_inv env ok x"
  shows "ftp_inv env ok (snd (on_size env param x))" "ftp_inv env ok (snd (on_mdtm env param x))"
    "ftp_inv env ok (snd (on_rnfr env param x))" "ftp_inv env ok (snd (on_mlst env param x))"
    "ftp_inv env ok (snd (on_allo env param x))" "ftp_inv env ok (snd (on_help param x))"
proof -
  have "ftp_inv env ok (set_requested_path param x)" using assms by simp
  then show "ftp_inv env ok (snd (on_mdtm env param x))"
    by (cases "session_get_path (e_fs env) (fx_ses x) param FILE")
       (auto simp: on_mdtm_def Let_def simp del: ftp_inv_st split: sum.splits option.splits)
qed (use assms in \<open>simp_all add: on_size_def on_rnfr_def on_mlst_def on_allo_def on_help_def Let_def
        split: sum.splits bool.splits option.splits\<close>)

text \<open>What the gates let through.\<close>

lemma gates_passed:
  assumes "gate_refusal cmd x = None"
  shows "must_be_logged_in cmd \<Longrightarrow> st_is_logged_in (fx_state x)"
    "must_not_be_logged_in cmd \<Longrightarrow> \<not> st_is_logged_in (fx_state x)"
    "must_not_be_in_transfer cmd \<Longrightarrow> \<not> is_in_transfer (fx_state x)"
    "need_post_or_pasv cmd \<Longrightarrow> have_pasv_or_post (fx_state x)"
    "must_have_encryption cmd \<Longrightarrow> st_cc_is_encrypted (fx_state x)"
    "need_prev_cmd cmd \<noteq> [] \<Longrightarrow> fx_prev_cmd x = need_prev_cmd cmd"
  using assms by (auto simp: gate_refusal_def split: if_splits)

lemmas cmd_gates = must_be_logged_in_def must_not_be_logged_in_def must_be_in_transfer_def
  must_not_be_in_transfer_def need_post_or_pasv_def must_have_encryption_def need_prev_cmd_def

lemma on_cmd_inv:
  assumes "ftp_inv env ok x" and "mount_provider (e_auth env) ok" and "gate_refusal cmd x = None"
  shows "ftp_inv env ok (snd (on_cmd env cmd param match x))"
proof -
  note g = gates_passed[OF assms(3), unfolded cmd_gates]
  note 1 = on_retr_stor_inv[OF assms(1)] on_list_inv[OF assms(1)] on_rest_inv[OF assms(1)]
    on_prot_inv[OF assms(1)] and 2 = on_files_inv[OF assms(1)] on_pasv_inv[OF assms(1)]
    on_port_inv[OF assms(1)] on_opts_inv[OF assms(1)] on_stat_inv[OF assms(1)] on_disk_inv[OF assms(1)]
    change_dir_inv[OF assms(1)]
  have 3: "ftp_inv env ok (snd (on_user env p x))" "ftp_inv env ok (snd (on_pass env p x))" for p
    using on_authenticate_inv[OF _ assms(2)] assms(1) by (simp_all add: on_user_def on_pass_def Let_def)
  show ?thesis using assms(1) g
    by (cases cmd)
       (simp_all add: 1 2 3 on_retr_def on_stor_def on_dele_def on_mkd_def on_rmd_def on_rnto_def
          on_cwd_def on_cdup_def on_quit_def on_abor_def on_feat_def on_syst_def on_type_def on_noop_def
          on_pwd_def on_auth_def on_pbsz_def Let_def)
qed

end
