(* ===== verification/FtpSystem.thy ===== *)
theory FtpSystem
  imports FtpFacts
begin

text \<open>
  An FTP session as a whole: the requests on the control connection, the transfer coroutine, the tasks
  of the pipeline and the housekeeping of the session manager interleave as the steps of one relation.
  The invariant of \<open>FtpFacts\<close> holds in every state that can be reached from a new connection.
\<close>

section \<open>The dispatcher keeps the invariant\<close>

lemma run_abort_inv: "ftp_inv env ok x \<Longrightarrow> ftp_inv env ok (run_abort a x)"
  by (cases a; cases "st_pasv (fx_state x)"; simp add: run_abort_def inv_defs)

lemma ftp_close_inv [simp]: "ftp_inv env ok (ftp_close x) = ftp_inv env ok x"
  by (simp add: ftp_close_def)

lemma ftp_close_fields [simp]:
  "fx_expired (ftp_close x) = fx_expired x" "fx_abort (ftp_close x) = fx_abort x"
  by (simp_all add: ftp_close_def)

lemma gate_refusal_reply [simp]: "gate_refusal cmd (x\<lparr>fx_reply := r\<rparr>) = gate_refusal cmd x"
  by (simp add: gate_refusal_def)

lemma session_close_inv: "ftp_inv env ok x \<Longrightarrow> ftp_inv env ok (x\<lparr>fx_ses := session_close (fx_ses x)\<rparr>)"
  by (rule ftp_inv_session) (simp_all add: ftp_inv_session_ok)

lemma session_touch_inv: "ftp_inv env ok x \<Longrightarrow> ftp_inv env ok (x\<lparr>fx_ses := session_touch now (fx_ses x)\<rparr>)"
  by (rule ftp_inv_session) (simp_all add: ftp_inv_session_ok)

lemma ftp_do_close_inv:
  assumes "ftp_inv env ok x"
  shows "ftp_inv env ok (ftp_do_close x)"
proof -
  have 1: "ftp_inv env ok ((ftp_close x)\<lparr>fx_closed := True\<rparr>)" using assms by simp
  let ?y = "case fx_abort x of None \<Rightarrow> (ftp_close x)\<lparr>fx_closed := True\<rparr>
              | Some a \<Rightarrow> run_abort a ((ftp_close x)\<lparr>fx_closed := True\<rparr>)"
  have "ftp_inv env ok ?y" using 1 run_abort_inv[OF 1] by (simp split: option.splits)
  then have "ftp_inv env ok (?y\<lparr>fx_ses := session_close (fx_ses ?y)\<rparr>)" by (rule session_close_inv)
  then have "ftp_inv env ok (?y\<lparr>fx_ses := session_close (fx_ses ?y), fx_expired := True\<rparr>)"
    by (simp only: ftp_inv_outside)
  then show ?thesis using assms 1 by (simp add: ftp_do_close_def Let_def)
qed

lemma run_handler_inv:
  assumes "ftp_inv env ok x" and "mount_provider (e_auth env) ok" and "gate_refusal cmd x = None"
  shows "ftp_inv env ok (run_handler env cmd param match x)"
proof -
  let ?x = "x\<lparr>fx_reply := ftp_reply_new\<rparr>"
  obtain r y where y: "on_cmd env cmd param match ?x = (r, y)" by fastforce
  have "gate_refusal cmd ?x = None" using assms(3) by simp
  then have 1: "ftp_inv env ok y" using on_cmd_inv[of env ok ?x cmd] assms(1,2) y by (metis ftp_inv_reply snd_conv)
  let ?z = "y\<lparr>fx_ses := session_touch (e_clock env (fx_os y)) (fx_ses y), fx_prev_cmd := get_name cmd\<rparr>"
  have 2: "ftp_inv env ok ?z" using session_touch_inv[OF 1] by simp
  have 3: "ftp_inv env ok (ftp_send env c m b (?z\<lparr>fx_reply := rp\<rparr>))" for c m b rp
    using 2 by (simp only: ftp_inv_send ftp_inv_reply)
  have 4: "ftp_inv env ok ((run_abort a ?z)\<lparr>fx_abort := None\<rparr>)" for a
    using run_abort_inv[OF 2] by (simp only: ftp_inv_outside)
  show ?thesis using 1 2 3 4 y
    by (simp add: run_handler_def Let_def split: sum.splits prod.splits option.splits)
qed

lemma on_command_inv:
  assumes "ftp_inv env ok x" and "mount_provider (e_auth env) ok"
  shows "ftp_inv env ok (on_command env cmd request x)"
  using assms run_handler_inv[OF assms]
  by (simp add: on_command_def Let_def split: option.splits prod.splits)

lemma process_request_inv:
  assumes "ftp_inv env ok x" and "mount_provider (e_auth env) ok"
  shows "ftp_inv env ok (process_request env request x)"
  using assms on_command_inv[of env ok "x\<lparr>fx_curr_cmd := n\<rparr>" for n]
  by (simp add: process_request_def split: sum.splits prod.splits)

section \<open>The transfer keeps the invariant\<close>

lemma on_file_frame:
  assumes "on_file call x = (r, y)"
  shows "y = x\<lparr>fx_file := fx_file y, fx_disk := fx_disk y\<rparr>" and "fx_file y = None \<longleftrightarrow> fx_file x = None"
  using assms by (auto simp: on_file_def split: option.splits prod.splits)

lemma on_file_fields:
  assumes "on_file call x = (r, y)"
  shows "fx_ses y = fx_ses x" "fx_state y = fx_state x" "fx_phase y = fx_phase x"
    "fx_transfer_open y = fx_transfer_open x" "fx_expired y = fx_expired x" "fx_os y = fx_os x"
    "fx_sent y = fx_sent x" "fx_reply_failed y = fx_reply_failed x" "fx_socket_open y = fx_socket_open x"
    "fx_hung y = fx_hung x" "fx_abort y = fx_abort x" "fx_close_pending y = fx_close_pending x"
    "fx_tasks y = fx_tasks x" "fx_closed y = fx_closed x" "fx_am y = fx_am x" "fx_last_touch y = fx_last_touch x"
  using assms by (auto simp: on_file_def split: option.splits prod.splits)

lemma on_file_inv:
  assumes "ftp_inv env ok x" and "on_file call x = (r, y)"
  shows "ftp_inv env ok y"
  using assms(1) on_file_frame(2)[OF assms(2)] by (auto simp: inv_defs on_file_fields[OF assms(2)])

text \<open>What is left of the invariant while a transfer is taken down.\<close>

definition base_inv :: "('p, 'w, 'am, 'cl, 'os) ftp_env \<Rightarrow> ('am \<Rightarrow> bool) \<Rightarrow> ('p, 'cl, 'w, 'am, 'os) ftp \<Rightarrow> bool" where
  "base_inv env ok x \<longleftrightarrow> ok (fx_am x) \<and> login_inv env ok (fx_ses x) (fx_state x)
     \<and> (st_encrypt_transfers (fx_state x) \<longrightarrow> st_cc_is_encrypted (fx_state x))"

lemma base_invI: "ftp_inv env ok x \<Longrightarrow> base_inv env ok x"
  by (simp add: base_inv_def ftp_inv_def state_inv_def)

lemma base_inv_simps [simp]:
  "base_inv env ok (ftp_send env c t m x) = base_inv env ok x"
  "base_inv env ok (fx_transfer_open_update b x) = base_inv env ok x"
  "base_inv env ok (fx_abort_update a x) = base_inv env ok x"
  "base_inv env ok (fx_disk_update w x) = base_inv env ok x" "base_inv env ok (fx_file_update f x) = base_inv env ok x"
  "base_inv env ok (fx_phase_update p x) = base_inv env ok x"
  "base_inv env ok (notify_failed env x) = base_inv env ok x"
  by (simp_all add: base_inv_def login_inv_def notify_failed_def Let_def)

lemma base_inv_on_file: "base_inv env ok x \<Longrightarrow> on_file call x = (r, y) \<Longrightarrow> base_inv env ok y"
  by (simp add: base_inv_def login_inv_def on_file_fields)

lemma reset_transfer_inv:
  assumes "base_inv env ok x" and "fx_transfer_open x = None" and "fx_file x = None"
  shows "ftp_inv env ok (x\<lparr>fx_state := reset_transfer (fx_state x), fx_phase := Phase_none\<rparr>)"
  using assms by (simp add: base_inv_def inv_defs reset_transfer_def)

lemma reset_file_frame: "reset_file env x = x\<lparr>fx_file := None, fx_disk := fx_disk (reset_file env x)\<rparr>"
proof -
  obtain r y where y: "on_file (tf_close env) x = (r, y)" by fastforce
  have "reset_file env x = y\<lparr>fx_file := None\<rparr>" by (simp add: reset_file_def y)
  also have "\<dots> = x\<lparr>fx_file := None, fx_disk := fx_disk y\<rparr>" by (subst on_file_frame(1)[OF y]) simp
  finally show ?thesis by simp
qed

lemma reset_file_fields [simp]:
  "fx_file (reset_file env x) = None" "fx_transfer_open (reset_file env x) = fx_transfer_open x"
  "base_inv env ok' (reset_file env x) = base_inv env ok' x" "fx_state (reset_file env x) = fx_state x"
  by (subst reset_file_frame, simp)+

lemma cleanup_inv:
  assumes "base_inv env ok x"
  shows "ftp_inv env ok (cleanup_transfer env x)"
  unfolding cleanup_transfer_def Let_def by (rule reset_transfer_inv) (use assms in simp_all)

lemma transfer_returned_inv: "base_inv env ok x \<Longrightarrow> ftp_inv env ok (transfer_returned env x)"
  unfolding transfer_returned_def by (rule cleanup_inv) simp

lemma transfer_threw_inv: "base_inv env ok x \<Longrightarrow> ftp_inv env ok (transfer_threw env x)"
  unfolding transfer_threw_def by (rule transfer_returned_inv) simp

lemma transfer_begin_inv:
  assumes "ftp_inv env ok x" and "fx_phase x = Phase_spawned"
  shows "ftp_inv env ok (transfer_begin env x)"
proof -
  let ?x = "ftp_send env RC_OPENING_CONNECTION [] False x"
  have 1: "fx_transfer_open x = None" using assms by (auto simp: inv_defs)
  then have "ftp_inv env ok ((reset_file env ?x)\<lparr>fx_state := reset_transfer (fx_state (reset_file env ?x)), fx_phase := Phase_none\<rparr>)"
    using base_invI[OF assms(1)] 1 by (intro reset_transfer_inv) simp_all
  moreover have "ftp_inv env ok (?x\<lparr>fx_phase := Phase_connecting, fx_abort := a\<rparr>)" for a
    using assms by (simp add: inv_defs del: not_None_eq)
  ultimately show ?thesis by (simp add: transfer_begin_def Let_def)
qed

text \<open>A transfer with an open connection.\<close>

lemma transfer_enter_inv:
  assumes "ftp_inv env ok (x\<lparr>fx_phase := Phase_running\<rparr>)"
  shows "ftp_inv env ok (transfer_enter env x)"
proof -
  have "base_inv env ok x" using base_invI[OF assms] by simp
  then show ?thesis using assms by (simp add: transfer_enter_def transfer_returned_inv)
qed

lemma transfer_connect_inv:
  assumes "ftp_inv env ok x" and "fx_phase x = Phase_connecting"
  shows "ftp_inv env ok (transfer_connect env connected x)"
proof -
  let ?x = "x\<lparr>fx_abort := Some Abort_socket, fx_transfer_open := Some True\<rparr>"
  have "ftp_inv env ok (?x\<lparr>fx_phase := p\<rparr>)" if "p = Phase_running \<or> p = Phase_securing" for p
    using assms that by (elim disjE) (simp_all add: inv_defs)
  then show ?thesis using base_invI[OF assms(1)]
    by (auto simp: transfer_connect_def Let_def intro: cleanup_inv transfer_enter_inv)
qed

lemma transfer_secure_inv:
  assumes "ftp_inv env ok x" and "fx_phase x = Phase_securing"
  shows "ftp_inv env ok (transfer_secure env secured x)"
proof -
  have "ftp_inv env ok (x\<lparr>fx_phase := Phase_running\<rparr>)" using assms by (simp add: inv_defs del: not_None_eq)
  then show ?thesis using base_invI[OF assms(1)]
    by (auto simp: transfer_secure_def intro: cleanup_inv transfer_enter_inv)
qed

lemma transfer_touch_inv: "ftp_inv env ok x \<Longrightarrow> ftp_inv env ok (transfer_touch env x)"
  using session_touch_inv[of env ok x] by (simp add: transfer_touch_def Let_def)

lemma transfer_done_inv:
  assumes "base_inv env ok x"
  shows "ftp_inv env ok (transfer_done env verb x)"
proof -
  obtain r y where y: "on_file (tf_close env) (x\<lparr>fx_transfer_open := Some False\<rparr>) = (r, y)" by fastforce
  have "base_inv env ok y" by (rule base_inv_on_file[OF _ y]) (use assms in simp)
  then show ?thesis using y
    by (simp add: transfer_done_def transfer_threw_inv transfer_returned_inv split: sum.splits)
qed

lemma send_step_inv:
  assumes "ftp_inv env ok x"
  shows "ftp_inv env ok (snd (send_step env sent x))"
proof -
  obtain r y where y: "on_file (\<lambda>(f, w). case tf_read env w f of (r, f) \<Rightarrow> (r, f, w)) x = (r, y)" by fastforce
  have 1: "ftp_inv env ok y" by (rule on_file_inv[OF assms y])
  note 2 = base_invI[OF 1] and 3 = transfer_done_inv[OF base_invI[OF assms]]
  show ?thesis using 1 2 3
    by (simp add: send_step_def y transfer_threw_inv transfer_returned_inv transfer_touch_inv split: sum.splits)
qed

lemma receive_step_inv:
  assumes "ftp_inv env ok x"
  shows "ftp_inv env ok (receive_step env event shutdown_ok x)"
proof -
  obtain r y where y: "on_file (tf_write env) x = (r, y)" by fastforce
  have 1: "ftp_inv env ok y" by (rule on_file_inv[OF assms y])
  obtain r1 y1 where y1: "on_file (tf_set_bytes_written env 0) y = (r1, y1)" by fastforce
  have 2: "ftp_inv env ok y1" by (rule on_file_inv[OF 1 y1])
  have 3: "ftp_inv env ok (snd (on_file call y))" for call
    by (rule on_file_inv[OF 1 prod.collapse[symmetric]])
  have 4: "ftp_inv env ok (if b then ftp_send env c t m z else z) = ftp_inv env ok z" for b c t m z by simp
  have 5: "ftp_inv env ok (case on_file call z of (Inl e, x) \<Rightarrow> transfer_threw env x | (Inr u, x) \<Rightarrow> transfer_touch env x)"
    if "ftp_inv env ok z" for call z
  proof -
    obtain rz z' where "on_file call z = (rz, z')" by fastforce
    moreover from this have "ftp_inv env ok z'" by (rule on_file_inv[OF that])
    ultimately show ?thesis by (simp add: transfer_threw_inv transfer_touch_inv base_invI split: sum.splits)
  qed
  note 6 = transfer_threw_inv[OF base_invI] transfer_returned_inv[OF base_invI]
    transfer_returned_inv transfer_done_inv[OF base_invI]
  show ?thesis
    by (cases r; cases event; cases r1)
       (simp_all add: receive_step_def y y1 Let_def 1 2 3 4 5 6 base_invI)
qed

section \<open>The steps of a session\<close>

text \<open>The transfer coroutine goes on where it waits. What hangs takes no step.\<close>

inductive transfer_step ::
    "('p, 'w, 'am, 'cl, 'os) ftp_env \<Rightarrow> ('p, 'cl, 'w, 'am, 'os) ftp \<Rightarrow> ('p, 'cl, 'w, 'am, 'os) ftp \<Rightarrow> bool"
  for env where
  step_begin: "fx_phase x = Phase_spawned \<Longrightarrow> \<not> fx_hung x \<Longrightarrow> transfer_step env x (transfer_begin env x)"
| step_connect: "fx_phase x = Phase_connecting \<Longrightarrow> \<not> fx_hung x \<Longrightarrow>
    transfer_step env x (transfer_connect env connected x)"
| step_secure: "fx_phase x = Phase_securing \<Longrightarrow> \<not> fx_hung x \<Longrightarrow> transfer_step env x (transfer_secure env secured x)"
| step_send: "fx_phase x = Phase_running \<Longrightarrow> st_transfer (fx_state x) = Transfer_outgoing \<Longrightarrow> \<not> fx_hung x \<Longrightarrow>
    transfer_step env x (snd (send_step env sent x))"
| step_receive: "fx_phase x = Phase_running \<Longrightarrow> st_transfer (fx_state x) = Transfer_incoming \<Longrightarrow> \<not> fx_hung x \<Longrightarrow>
    transfer_step env x (receive_step env event shutdown_ok x)"

text \<open>What runs beside \<open>ProcessCommands\<close>: the transfer, and the task of the pipeline that switches to TLS.\<close>

inductive task_step ::
    "('p, 'w, 'am, 'cl, 'os) ftp_env \<Rightarrow> ('p, 'cl, 'w, 'am, 'os) ftp \<Rightarrow> ('p, 'cl, 'w, 'am, 'os) ftp \<Rightarrow> bool"
  for env where
  step_tls: "fx_tasks x = Suc n \<Longrightarrow> \<not> fx_hung x \<Longrightarrow> task_step env x (start_tls secured (x\<lparr>fx_tasks := n\<rparr>))"
| step_transfer: "transfer_step env x y \<Longrightarrow> task_step env x y"

text \<open>
  What the session manager does to a session: its housekeeping, and closing and dropping it. Closing
  it does nothing when the session is closed already or its socket throws.
\<close>

inductive manager_event :: "('p, 'cl, 'w, 'am, 'os) ftp \<Rightarrow> ('p, 'cl, 'w, 'am, 'os) ftp \<Rightarrow> bool" where
  event_housekeeping: "session_on_housekeeping now (fx_ses x) = (keep, s) \<Longrightarrow> manager_event x (x\<lparr>fx_ses := s\<rparr>)"
| event_close: "manager_event x
    ((if closes then x\<lparr>fx_ses := session_close (fx_ses x), fx_socket_open := False\<rparr> else x)\<lparr>fx_expired := True\<rparr>)"

text \<open>
  The session with all of them. \<open>ProcessCommands\<close> processes the requests it fetched until it closes; between
  its test of the loop and the end of the fetch anything can happen to the session.
\<close>

inductive ftp_step ::
    "('p, 'w, 'am, 'cl, 'os) ftp_env \<Rightarrow> ('p, 'cl, 'w, 'am, 'os) ftp \<Rightarrow> ('p, 'cl, 'w, 'am, 'os) ftp \<Rightarrow> bool"
  for env where
  step_request: "\<not> fx_closed x \<Longrightarrow> \<not> fx_hung x \<Longrightarrow> ftp_step env x (process_request env request x)"
| step_too_big: "\<not> fx_closed x \<Longrightarrow> \<not> fx_hung x \<Longrightarrow>
    ftp_step env x (ftp_do_close (ftp_send env RC_BYE too_long_message False x))"
| step_end: "\<not> fx_closed x \<Longrightarrow> \<not> fx_hung x \<Longrightarrow> ftp_step env x (ftp_do_close x)"
| step_task: "task_step env x y \<Longrightarrow> ftp_step env x y"
| step_event: "manager_event x y \<Longrightarrow> ftp_step env x y"

text \<open>
  The other sessions, the network and the clocks; the authentication manager stays in a state that is
  \<open>ok\<close>. A session starts with the well-formed mounts of its protocol.
\<close>

inductive outside_step ::
    "('am \<Rightarrow> bool) \<Rightarrow> ('p, 'cl, 'w, 'am, 'os) ftp \<Rightarrow> ('p, 'cl, 'w, 'am, 'os) ftp \<Rightarrow> bool" for ok where
  "ok am \<Longrightarrow> outside_step ok x (x\<lparr>fx_am := am, fx_disk := w, fx_os := os\<rparr>)"

inductive ftp_reach ::
    "('p, 'w, 'am, 'cl, 'os) ftp_env \<Rightarrow> ('am \<Rightarrow> bool) \<Rightarrow> ('p, 'cl, 'w, 'am, 'os) ftp \<Rightarrow> bool" for env ok where
  reach_connected: "mounts_ok perms \<Longrightarrow> ok am \<Longrightarrow>
    ftp_reach env ok (handle_connection env garbage time_out perms am w os)"
| reach_step: "ftp_reach env ok x \<Longrightarrow> ftp_step env x y \<Longrightarrow> ftp_reach env ok y"
| reach_outside: "ftp_reach env ok x \<Longrightarrow> outside_step ok x y \<Longrightarrow> ftp_reach env ok y"

inductive_cases ftp_stepE: "ftp_step env x y"
inductive_simps outside_step_iff: "outside_step ok x y"

lemma housekeeping_fields:
  assumes "session_on_housekeeping now s = (b, s')"
  shows "session_ok s' = session_ok s" "ses_client s' = ses_client s"
  using assms
  by (auto simp: session_on_housekeeping_def session_update_idle_time_def session_ok_def Let_def split: if_splits)

lemma transfer_step_inv:
  assumes "ftp_inv env ok x" and "transfer_step env x y"
  shows "ftp_inv env ok y"
  using assms(2)
  by cases (simp_all add: assms(1) transfer_begin_inv transfer_connect_inv transfer_secure_inv send_step_inv receive_step_inv)

lemma task_step_inv:
  assumes "ftp_inv env ok x" and "task_step env x y"
  shows "ftp_inv env ok y"
  using assms(2)
proof cases
  case (step_tls n secured)
  have "ftp_inv env ok (x\<lparr>fx_tasks := n, fx_state := (fx_state x)\<lparr>st_cc_is_encrypted := True\<rparr>\<rparr>)"
    using assms(1) by (simp add: inv_defs del: not_None_eq)
  then show ?thesis using assms(1) by (simp add: step_tls start_tls_def)
qed (rule transfer_step_inv[OF assms(1)])

lemma manager_event_inv:
  assumes "ftp_inv env ok x" and "manager_event x y"
  shows "ftp_inv env ok y"
  using assms(2)
proof cases
  case (event_housekeeping now keep s)
  then show ?thesis using assms(1) housekeeping_fields[OF event_housekeeping(2)]
    by (auto intro!: ftp_inv_session simp: ftp_inv_session_ok)
next
  case (event_close closes)
  have "ftp_inv env ok (x\<lparr>fx_ses := session_close (fx_ses x)\<rparr>)" by (rule session_close_inv[OF assms(1)])
  then show ?thesis using assms(1) by (simp add: event_close)
qed

lemma ftp_step_inv:
  assumes "ftp_inv env ok x" and "mount_provider (e_auth env) ok" and "ftp_step env x y"
  shows "ftp_inv env ok y"
  using assms(3)
  by cases (simp_all add: assms(1,2) process_request_inv ftp_do_close_inv task_step_inv[OF assms(1)]
      manager_event_inv[OF assms(1)])

lemma ftp_new_inv:
  assumes "mounts_ok perms" and "ok am"
  shows "ftp_inv env ok (handle_connection env garbage time_out perms am w os)"
  unfolding handle_connection_def ftp_inv_send
  using assms
  by (simp add: inv_defs ftp_new_def ftp_state_new_def wfde_session_new_def session_set_permissions_def
      session_ok_def session_touch_def no_climb_def sublist_two_Cons Let_def)

lemma outside_inv:
  assumes "ftp_inv env ok x" and "outside_step ok x y"
  shows "ftp_inv env ok y"
proof -
  have "ftp_inv env ok (x\<lparr>fx_am := am\<rparr>)" if "ok am" for am
    using assms(1) that by (simp add: ftp_inv_def login_inv_def transfer_inv_def)
  with assms(2) show ?thesis by cases simp
qed

lemma reach_inv:
  assumes "ftp_reach env ok x" and "mount_provider (e_auth env) ok"
  shows "ftp_inv env ok x"
  using assms(1)
proof induction
  case (reach_step x y)
  show ?case by (rule ftp_step_inv[OF reach_step.IH assms(2) reach_step.hyps(2)])
next
  case (reach_outside x y)
  show ?case by (rule outside_inv[OF reach_outside.IH reach_outside.hyps(2)])
qed (rule ftp_new_inv)

end
