(* ===== verification/FtpTheorems.thy ===== *)
theory FtpTheorems
  imports FtpSystem FtpListFacts
begin

text \<open>
  What an FTP session guarantees in every state it can reach, stated over the whole session: who may
  change the disk, what the gates refuse, how a request is answered and how the reply is framed.
\<close>

section \<open>A server for the witnesses\<close>

text \<open>
  One user with one mount, a disk with two files and a control connection that takes every reply. The
  patterns of the commands are told apart as far as the witnesses use them.
\<close>

definition demo_regex :: "string \<Rightarrow> string \<Rightarrow> string list option" where
  "demo_regex re s =
     (if re = any_param then Some [s, s]
      else if re = some_param then (if s = [] then None else Some [s, s])
      else if s = [] then None else Some [s])"

definition bob_mounts :: "demo_path paths" where
  "bob_mounts =
     [mk_path ''/'' [''srv'']
        (to_perm_bits [CAN_LIST, CAN_ENTER, CAN_READ, CAN_WRITE, CAN_CREATE_FILE, CAN_DELETE_FILE, CAN_RENAME, IS_RECURSIVE])
        DIRECTORY]"

definition bob_auth :: "demo_path auth_manager" where
  "bob_auth = \<lparr>am_clients = [(''bob'', 0)], am_impls = [client_impl_new 0 ''bob'' ''pw'' bob_mounts]\<rparr>"

definition bob_disk :: demo_disk where
  "bob_disk = [([''srv'', ''a''], Reg ''alpha''), ([''srv'', ''b''], Reg ''beta'')]"

definition demo_env :: "(demo_path, demo_disk, demo_path auth_manager, nat, int) ftp_env" where
  "demo_env =
     \<lparr>e_fs = demo_fs, e_dirs = demo_dirs, e_auth = wfded_auth, e_page = 4, e_local_eol = [lf], e_garbage = [],
      e_regex = demo_regex, e_lexical16 = (\<lambda>s. None), e_lexical64 = (\<lambda>s. None), e_make_address = (\<lambda>s. None),
      e_uuid = (\<lambda>t. (''unique'', t + 1)), e_local_address = (\<lambda>t. Inr (V4 (127, 0, 0, 1))),
      e_listen = (\<lambda>t addr. (Inr (addr, 2121), t + 1)), e_clock = (\<lambda>t. t), e_time = (\<lambda>t. t),
      e_write = (\<lambda>t msg. (True, t + 1))\<rparr>"

definition demo_connected :: "(demo_path, nat, demo_disk, demo_path auth_manager, int) ftp" where
  "demo_connected = handle_connection demo_env 0 60 [] bob_auth bob_disk 0"

definition after_requests ::
    "string list \<Rightarrow> (demo_path, nat, demo_disk, demo_path auth_manager, int) ftp" where
  "after_requests requests = fold (process_request demo_env) requests demo_connected"

lemma bob_served: "am_served bob_auth"
  by (simp add: am_served_def am_ok_def bob_auth_def client_impl_new_def bob_mounts_def mounts_ok_def paths_ok_def
      mk_path_def make_valid_def mount_ok_def)

lemma demo_provider: "mount_provider (e_auth demo_env) am_served"
  by (simp add: demo_env_def daemon.mount_provider_axioms)

lemma demo_connected_reach: "ftp_reach demo_env am_served demo_connected"
  unfolding demo_connected_def by (rule reach_connected) (simp_all add: mounts_ok_def bob_served)

text \<open>A run of requests, as long as the control connection is not closed.\<close>

fun all_alive ::
    "('p, 'w, 'am, 'cl, 'os) ftp_env \<Rightarrow> string list \<Rightarrow> ('p, 'cl, 'w, 'am, 'os) ftp \<Rightarrow> bool" where
  "all_alive env [] x = True"
| "all_alive env (r # rs) x = (\<not> fx_closed x \<and> \<not> fx_hung x \<and> all_alive env rs (process_request env r x))"

lemma requests_reach:
  "ftp_reach env ok x \<Longrightarrow> all_alive env requests x \<Longrightarrow> ftp_reach env ok (fold (process_request env) requests x)"
  by (induction requests arbitrary: x) (auto intro: reach_step step_request)

lemma after_requests_reach:
  "all_alive demo_env requests demo_connected \<Longrightarrow> ftp_reach demo_env am_served (after_requests requests)"
  unfolding after_requests_def by (rule requests_reach[OF demo_connected_reach])
section \<open>Changes of the disk\<close>

text \<open>The request that a command makes of the session, for the commands that may change the disk.\<close>

definition cmd_request ::
    "('p, 'w, 'am, 'cl, 'os) ftp_env \<Rightarrow> ftp_cmd \<Rightarrow> string \<Rightarrow> ('p, 'cl, 'w, 'am, 'os) ftp \<Rightarrow> disk_request option" where
  "cmd_request env cmd param x =
     (case cmd of
        Cmd_stor \<Rightarrow> Some (Req_open param WRITE)
      | Cmd_stou \<Rightarrow> Some (Req_open (fst (e_uuid env (fx_os x))) WRITE_NEW)
      | Cmd_appe \<Rightarrow> Some (Req_open param APPEND)
      | Cmd_dele \<Rightarrow> Some (Req_delete param)
      | Cmd_mkd \<Rightarrow> Some (Req_mkdir param)
      | Cmd_rmd \<Rightarrow> Some (Req_rmdir param)
      | Cmd_rnto \<Rightarrow> Some (Req_rename (st_rnfr (fx_state x)) param)
      | _ \<Rightarrow> None)"

abbreviation performed ::
    "('p, 'w, 'am, 'cl, 'os) ftp_env \<Rightarrow> disk_request \<Rightarrow> ('p, 'cl, 'w, 'am, 'os) ftp \<Rightarrow> 'w" where
  "performed env req x \<equiv> perform (e_fs env) (e_page env) (fx_ses x) req (fx_disk x)"

lemma start_transfer_disk [simp]: "fx_disk (start_transfer f x) = fx_disk x"
  by (simp add: start_transfer_def Let_def)

lemma open_and_start_disk:
  "fx_disk (snd (open_and_start env operation x)) = performed env (Req_open (st_requested_path (fx_state x)) operation) x"
  by (simp add: open_and_start_def on_disk_def perform_def split: prod.splits sum.splits)

lemma set_requested_path_st [simp]:
  "st_requested_path (fx_state (set_requested_path p x)) = p" "fx_os (set_requested_path p x) = fx_os x"
  by (simp_all add: set_requested_path_def)

lemma disk_command_disk: "fx_disk (snd (disk_command f clauses x)) = snd (f (fx_disk x))"
  by (simp add: disk_command_def on_disk_def refused_def split: prod.splits sum.splits)

lemma refused_disk [simp]: "fx_disk (snd (refused clauses e x)) = fx_disk x"
  by (simp add: refused_def)

lemma list_failed_disk [simp]: "fx_disk (snd (list_failed e x)) = fx_disk x"
  by (simp add: list_failed_def)

lemma perform_read [simp]: "perform fs page s (Req_open v READ) w = w"
  by (cases "session_get_path fs s v FILE")
     (simp_all add: perform_def session_open_file_def open_file_authorized_def open_read_keeps)

lemma on_opts_cases: "on_opts match x = on_opts_default x \<or> (\<exists>p. on_opts match x = on_opts_mlst p x)"
  unfolding on_opts_def Let_def
  by (cases "map_of (case dc_opts default_ftp_cmds of None \<Rightarrow> [] | Some m \<Rightarrow> m) (map ascii_upper (match ! 1))")
     (auto split: ftp_cmd.splits)

lemma on_stat_disk: "fx_disk (snd (on_stat env param x)) = fx_disk x"
proof -
  have "fx_disk (snd (on_stat_list env param x)) = fx_disk x"
    by (simp add: on_stat_list_def Let_def split: prod.splits sum.splits option.splits)
  then show ?thesis by (simp add: on_stat_def on_stat_state_def Let_def)
qed

lemma on_opts_disk: "fx_disk (snd (on_opts match x)) = fx_disk x"
proof -
  have "fx_disk (snd (on_opts_default x)) = fx_disk x" "fx_disk (snd (on_opts_mlst p x)) = fx_disk x" for p
    by (simp_all add: on_opts_default_def on_opts_mlst_def Let_def)
  then show ?thesis using on_opts_cases[of match x] by metis
qed

lemma on_pasv_disk: "fx_disk (snd (on_pasv env x)) = fx_disk x"
proof -
  have *: "fx_disk (snd (pasv_listen env y)) = fx_disk y" for y
    by (simp add: pasv_listen_def split: sum.splits prod.splits)
  obtain r y where y: "(if st_pasv (fx_state x) = None
            then pasv_listen env (x\<lparr>fx_state := (fx_state x)\<lparr>st_pasv := Some None\<rparr>\<rparr>)
            else (Inr (), x)) = (r, y)" by fastforce
  have "fx_disk y = fx_disk x" using *[of "x\<lparr>fx_state := (fx_state x)\<lparr>st_pasv := Some None\<rparr>\<rparr>"] y
    by (auto split: if_splits)
  then show ?thesis unfolding on_pasv_def y by (cases r) (auto split: option.splits address.splits)
qed

lemma on_files_disk:
  "fx_disk (snd (on_size env param x)) = fx_disk x" "fx_disk (snd (on_mdtm env param x)) = fx_disk x"
  "fx_disk (snd (on_rnfr env param x)) = fx_disk x" "fx_disk (snd (on_mlst env param x)) = fx_disk x"
  "fx_disk (snd (on_allo env param x)) = fx_disk x" "fx_disk (snd (on_help param x)) = fx_disk x"
  "fx_disk (snd (on_rest env param x)) = fx_disk x" "fx_disk (snd (on_port env match x)) = fx_disk x"
  "fx_disk (snd (change_dir env param x)) = fx_disk x"
  "fx_disk (snd (on_authenticate env name pwd rejected x)) = fx_disk x"
proof -
  show "fx_disk (snd (on_mdtm env param x)) = fx_disk x"
    by (cases "session_get_path (e_fs env) (fx_ses x) param FILE")
       (simp_all add: on_mdtm_def Let_def split: sum.splits option.splits)
qed (simp_all add: on_size_def on_rnfr_def on_mlst_def on_allo_def on_help_def on_rest_def on_port_def
    change_dir_def on_authenticate_def Let_def split: sum.splits bool.splits option.splits prod.splits)

lemma on_list_disk:
  "fx_disk (snd (on_list env param x)) = fx_disk x" "fx_disk (snd (on_nlst env param x)) = fx_disk x"
  "fx_disk (snd (on_mlsd env param x)) = fx_disk x"
  by (simp_all add: on_list_def on_nlst_def on_mlsd_def Let_def split: prod.splits sum.splits)

lemma on_stor_disk:
  "fx_disk (snd (on_retr_stor env operation param x)) \<in> {fx_disk x, performed env (Req_open param operation) x}"
  "fx_disk (snd (on_appe env param x)) \<in> {fx_disk x, performed env (Req_open param APPEND) x}"
  "fx_disk (snd (on_stou env x)) \<in> {fx_disk x, performed env (Req_open (fst (e_uuid env (fx_os x))) WRITE_NEW) x}"
  by (auto simp: on_retr_stor_def on_appe_def on_stou_def Let_def open_and_start_disk split: prod.splits)

lemma on_cmd_disk:
  assumes "fx_disk (snd (on_cmd env cmd param match x)) \<noteq> fx_disk x"
  obtains req where "cmd_request env cmd param x = Some req"
    and "fx_disk (snd (on_cmd env cmd param match x)) = performed env req x"
proof -
  have r: "fx_disk (snd (on_retr_stor env READ param x)) = fx_disk x"
    using on_stor_disk(1)[of env READ param x] by simp
  have "fx_disk (snd (on_cmd env cmd param match x)) = fx_disk x
    \<or> (\<exists>req. cmd_request env cmd param x = Some req
          \<and> fx_disk (snd (on_cmd env cmd param match x)) = performed env req x)"
    using r on_stor_disk(1)[of env WRITE param x]
      on_stor_disk(2)[of env param x] on_stor_disk(3)[of env x]
    by (cases cmd)
       (simp_all add: cmd_request_def on_retr_def on_stor_def on_dele_def on_mkd_def on_rmd_def on_rnto_def
          on_cwd_def on_cdup_def on_quit_def on_abor_def on_feat_def on_syst_def on_type_def on_noop_def
          on_pwd_def on_auth_def on_pbsz_def on_prot_def on_user_def on_pass_def Let_def on_files_disk on_list_disk
          on_stat_disk on_opts_disk on_pasv_disk disk_command_disk perform_def)
  then show ?thesis using assms that by blast
qed

lemma run_abort_disk [simp]: "fx_disk (run_abort a x) = fx_disk x"
  by (cases a) (simp_all add: run_abort_def)

lemma run_handler_disk:
  "fx_disk (run_handler env cmd param match x) = fx_disk (snd (on_cmd env cmd param match (x\<lparr>fx_reply := ftp_reply_new\<rparr>)))"
  by (simp add: run_handler_def ftp_close_def Let_def split: prod.splits sum.splits option.splits)

text \<open>The parameter of a request: what follows the name and the spaces after it.\<close>

definition request_param :: "string \<Rightarrow> string \<Rightarrow> string" where
  "request_param cmd_name request = dropWhile (\<lambda>c. c = space) (drop (length cmd_name) request)"

lemma process_request_handler:
  assumes "\<not> fx_expired x"
  obtains (unknown) e where "get_ftp_command request = Inl e"
      "process_request env request x = ftp_send env RC_SYNTAX_ERROR [] False x"
  | (refusal) name cmd code message where "get_ftp_command request = Inr (name, cmd)"
      "gate_refusal cmd (x\<lparr>fx_curr_cmd := name\<rparr>) = Some (code, message)"
      "process_request env request x = ftp_send env code message False (x\<lparr>fx_curr_cmd := name\<rparr>)"
  | (parameter) name cmd where "get_ftp_command request = Inr (name, cmd)"
      "gate_refusal cmd (x\<lparr>fx_curr_cmd := name\<rparr>) = None"
      "process_request env request x = ftp_send env RC_SYNTAX_ERROR_IN_PARAMS [] False (x\<lparr>fx_curr_cmd := name\<rparr>)"
  | (handler) name cmd match where "get_ftp_command request = Inr (name, cmd)"
      "gate_refusal cmd (x\<lparr>fx_curr_cmd := name\<rparr>) = None"
      "process_request env request x =
         run_handler env cmd (request_param name request) match (x\<lparr>fx_curr_cmd := name\<rparr>)"
proof (cases "get_ftp_command request")
  case (Inl e)
  then show ?thesis by (intro unknown) (simp_all add: process_request_def)
next
  case (Inr nc)
  obtain name cmd where nc: "nc = (name, cmd)" by fastforce
  let ?x = "x\<lparr>fx_curr_cmd := name\<rparr>" and ?p = "request_param name request"
  have p: "process_request env request x = on_command env cmd request ?x" by (simp add: process_request_def Inr nc)
  show ?thesis
  proof (cases "gate_refusal cmd ?x")
    case (Some cm)
    then show ?thesis using assms Inr nc p
      by (cases cm) (intro refusal, simp_all add: on_command_def)
  next
    case None
    let ?m = "if can_have_params cmd then e_regex env (get_regex cmd) ?p else Some []"
    have "on_command env cmd request ?x =
        (case ?m of None \<Rightarrow> ftp_send env RC_SYNTAX_ERROR_IN_PARAMS [] False ?x
                  | Some match \<Rightarrow> run_handler env cmd ?p match ?x)"
      using assms None by (simp add: on_command_def request_param_def[symmetric] Let_def)
    then have q: "process_request env request x =
        (case ?m of None \<Rightarrow> ftp_send env RC_SYNTAX_ERROR_IN_PARAMS [] False ?x
                  | Some match \<Rightarrow> run_handler env cmd ?p match ?x)" using p by simp
    show ?thesis
    proof (cases ?m)
      case m: None
      show ?thesis by (rule parameter[of name cmd]) (use Inr nc None q m in simp_all)
    next
      case m: (Some match)
      show ?thesis by (rule handler[of name cmd match]) (use Inr nc None q m in simp_all)
    qed
  qed
qed

lemma gate_refusal_curr [simp]: "gate_refusal cmd (x\<lparr>fx_curr_cmd := n\<rparr>) = gate_refusal cmd x"
  by (simp add: gate_refusal_def)

lemma cmd_request_frame [simp]:
  "cmd_request env cmd param (x\<lparr>fx_curr_cmd := n, fx_reply := r\<rparr>) = cmd_request env cmd param x"
  by (simp add: cmd_request_def split: ftp_cmd.splits)

lemma cmd_request_gates:
  "cmd_request env cmd param x = Some req \<Longrightarrow> must_be_logged_in cmd \<and> must_not_be_in_transfer cmd"
  by (cases cmd) (simp_all add: cmd_request_def must_be_logged_in_def must_not_be_in_transfer_def)

lemma process_request_disk:
  assumes "\<not> fx_expired x" and "fx_disk (process_request env request x) \<noteq> fx_disk x"
  obtains name cmd req where "get_ftp_command request = Inr (name, cmd)" and "gate_refusal cmd x = None"
    and "cmd_request env cmd (request_param name request) x = Some req"
    and "fx_disk (process_request env request x) = performed env req x"
  using assms(1)
proof (cases rule: process_request_handler[of x request env])
  case (handler name cmd match)
  let ?x = "x\<lparr>fx_curr_cmd := name, fx_reply := ftp_reply_new\<rparr>" and ?p = "request_param name request"
  have d: "fx_disk (process_request env request x) = fx_disk (snd (on_cmd env cmd ?p match ?x))"
    by (simp add: handler run_handler_disk)
  then obtain req where "cmd_request env cmd ?p ?x = Some req"
    and "fx_disk (snd (on_cmd env cmd ?p match ?x)) = performed env req ?x"
    using assms(2) on_cmd_disk[of env cmd ?p match ?x] by auto
  then show ?thesis using that handler d by simp
qed (use assms(2) in simp_all)

text \<open>C1: a command changes the disk only for a user who has logged on and only as the mounts allow. When
  a request changes the disk in a state that can be reached, the user of the session was accepted by
  the authentication manager, no transfer is running, and the change is that of the one request the
  command stands for (STOR, STOU, APPE, DELE, MKD, RMD or RNTO), which the mounts of the session
  grant.\<close>
theorem command_disk_granted:
  assumes "ftp_reach env ok x" and "mount_provider (e_auth env) ok" and "\<not> fx_expired x"
    and "fx_disk (process_request env request x) \<noteq> fx_disk x"
  shows "\<exists>name cmd req c. get_ftp_command request = Inr (name, cmd)
    \<and> ses_client (fx_ses x) = Some c \<and> client_accepted (e_auth env) ok c \<and> \<not> is_in_transfer (fx_state x)
    \<and> cmd_request env cmd (request_param name request) x = Some req
    \<and> request_granted (e_fs env) (fx_disk x) (fx_ses x) req
    \<and> fx_disk (process_request env request x)
        = perform (e_fs env) (e_page env) (fx_ses x) req (fx_disk x)"
proof -
  have inv: "ftp_inv env ok x" by (rule reach_inv[OF assms(1,2)])
  obtain name cmd req where g: "get_ftp_command request = Inr (name, cmd)" "gate_refusal cmd x = None"
    and r: "cmd_request env cmd (request_param name request) x = Some req"
    and d: "fx_disk (process_request env request x) = performed env req x"
    by (rule process_request_disk[OF assms(3,4)])
  have in': "st_is_logged_in (fx_state x)" "\<not> is_in_transfer (fx_state x)"
    using gates_passed[OF g(2)] cmd_request_gates[OF r] by simp_all
  then obtain c where c: "ses_client (fx_ses x) = Some c" "client_accepted (e_auth env) ok c"
    using inv by (auto simp: ftp_inv_def login_inv_def)
  have p: "request_granted (e_fs env) (fx_disk x) (fx_ses x) req"
    by (rule perform_granted[OF ftp_inv_session_ok[OF inv]]) (use assms(4) d in simp)
  show ?thesis by (intro exI conjI) (rule g(1) c(1) c(2) in'(2) r p d)+
qed

theorem command_disk_granted_witness:
  "\<exists>c. ses_client (fx_ses (after_requests [''USER bob'', ''PASS pw''])) = Some c
     \<and> client_accepted (e_auth demo_env) am_served c"
proof -
  let ?x = "after_requests [''USER bob'', ''PASS pw'']"
  have *: "all_alive demo_env [''USER bob'', ''PASS pw''] demo_connected \<and> \<not> fx_expired ?x
    \<and> fx_disk (process_request demo_env ''DELE a'' ?x) \<noteq> fx_disk ?x" by code_simp
  note 1 = after_requests_reach[OF conjunct1[OF *]] and 2 = conjunct1[OF conjunct2[OF *]]
    and 3 = conjunct2[OF conjunct2[OF *]]
  show ?thesis using command_disk_granted[OF 1 demo_provider 2 3] by (elim exE conjE) (intro exI conjI)
qed
section \<open>Every step of the session\<close>

lemma ftp_do_close_disk [simp]: "fx_disk (ftp_do_close x) = fx_disk x"
  by (simp add: ftp_do_close_def ftp_close_def Let_def split: option.splits)

lemma process_request_expired_disk: "fx_expired x \<Longrightarrow> fx_disk (process_request env request x) = fx_disk x"
  by (simp add: process_request_def on_command_def split: sum.splits prod.splits)

lemma start_tls_disk [simp]: "fx_disk (start_tls secured x) = fx_disk x"
  by (simp add: start_tls_def)

text \<open>C6: the reachable states of a session. In every state that is reached from a new connection by
  requests, by failing input, by the steps of a transfer, by TLS, by the session manager and by whatever
  other sessions do, the session has well-formed mounts and a current directory that cannot climb;
  it counts as logged on exactly when it has a client, whom the authentication manager has accepted;
  transfers are encrypted only behind an encrypted control connection; and a transfer has its file,
  its coroutine, an announced data connection and a user.\<close>
theorem session_invariant:
  assumes "ftp_reach env ok x" and "mount_provider (e_auth env) ok"
  shows "ftp_inv env ok x"
  by (rule reach_inv[OF assms])

theorem session_invariant_witness: "ftp_inv demo_env am_served (after_requests [''USER bob'', ''PASS pw'', ''PASV'', ''RETR a''])"
  by (rule session_invariant[OF after_requests_reach demo_provider]) code_simp

lemma step_disk_client:
  assumes "ftp_reach env ok x" and "mount_provider (e_auth env) ok" and "ftp_step env x y"
    and "fx_disk y \<noteq> fx_disk x"
  shows "\<exists>c. ses_client (fx_ses x) = Some c \<and> client_accepted (e_auth env) ok c"
proof -
  have inv: "ftp_inv env ok x" by (rule reach_inv[OF assms(1,2)])
  have "st_is_logged_in (fx_state x)"
  proof (rule ccontr)
    assume out: "\<not> st_is_logged_in (fx_state x)"
    then have "fx_phase x = Phase_none" using inv by (auto simp: inv_defs)
    with assms(3,4) show False
    proof cases
      case (step_request request)
      have "\<not> fx_expired x" using step_request assms(4) by (auto simp: process_request_expired_disk)
      then obtain cmd req n where "gate_refusal cmd x = None" "cmd_request env cmd n x = Some req"
        using assms(4) step_request process_request_disk[of x env request] by metis
      then show False using gates_passed(1)[of cmd x] cmd_request_gates out by blast
    next
      case step_task
      then show False using \<open>fx_phase x = Phase_none\<close> assms(4) by cases (auto elim: transfer_step.cases)
    next
      case step_event
      then show False using assms(4) by cases (simp_all split: if_splits)
    qed simp_all
  qed
  then show ?thesis using inv by (auto simp: ftp_inv_def login_inv_def)
qed

text \<open>Nobody changes the disk without having logged on. Whatever step a session takes, whether it
  processes a request, goes on with a transfer, closes or expires: when the disk changes in that
  step, the session has a client whom the authentication manager has accepted.\<close>
theorem step_disk_needs_login:
  assumes "ftp_reach env ok x" and "mount_provider (e_auth env) ok" and "ftp_step env x y"
    and "fx_disk y \<noteq> fx_disk x"
  shows "\<exists>c. ses_client (fx_ses x) = Some c \<and> client_accepted (e_auth env) ok c"
  by (rule step_disk_client[OF assms])

theorem step_disk_needs_login_witness:
  "\<exists>c. ses_client (fx_ses (after_requests [''USER bob'', ''PASS pw'', ''RNFR a''])) = Some c
     \<and> client_accepted (e_auth demo_env) am_served c"
proof (rule step_disk_needs_login[OF _ demo_provider])
  let ?x = "after_requests [''USER bob'', ''PASS pw'', ''RNFR a'']"
  have *: "all_alive demo_env [''USER bob'', ''PASS pw'', ''RNFR a''] demo_connected \<and> \<not> fx_closed ?x
    \<and> \<not> fx_hung ?x \<and> fx_disk (process_request demo_env ''RNTO c'' ?x) \<noteq> fx_disk ?x" by code_simp
  show "ftp_reach demo_env am_served ?x" by (rule after_requests_reach[OF conjunct1[OF *]])
  show "ftp_step demo_env ?x (process_request demo_env ''RNTO c'' ?x)"
    by (rule step_request) (use * in simp_all)
  show "fx_disk (process_request demo_env ''RNTO c'' ?x) \<noteq> fx_disk ?x" using * by simp
qed

end
