(* ===== verification/FtpReplies.thy ===== *)
theory FtpReplies
  imports FtpTheorems
begin

text \<open>
  The replies: every request is answered once, and a request that is refused changes nothing.
\<close>

section \<open>Handlers and the control connection\<close>

text \<open>What a handler leaves alone: the control connection.\<close>

definition conn ::
    "('p, 'cl, 'w, 'am, 'os) ftp \<Rightarrow> string list \<times> bool \<times> bool \<times> bool \<times> bool \<times> bool \<times> abort_action option \<times> nat" where
  "conn x = (fx_sent x, fx_reply_failed x, fx_socket_open x, fx_close_pending x, fx_closed x, fx_expired x,
             fx_abort x, fx_tasks x)"

lemma conn_simps [simp]:
  "conn (answer c t x) = conn x" "conn (answer_verbose c t x) = conn x" "conn (start_transfer f x) = conn x"
  "conn (set_requested_path p x) = conn x" "conn (snd (refused clauses e x)) = conn x"
  "conn (snd (list_failed e x)) = conn x" "conn (fx_reply_update f1 x) = conn x" "conn (fx_os_update f2 x) = conn x"
  "conn (fx_ses_update f3 x) = conn x" "conn (fx_state_update f4 x) = conn x" "conn (fx_disk_update f5 x) = conn x"
  "conn (fx_am_update f6 x) = conn x" "conn (fx_hung_update f7 x) = conn x" "conn (fx_prev_cmd_update f8 x) = conn x"
  "conn (fx_curr_cmd_update f9 x) = conn x"
  by (simp_all add: conn_def answer_def answer_verbose_def start_transfer_def set_requested_path_def refused_def
      list_failed_def Let_def)

lemma open_and_start_conn [simp]: "conn (snd (open_and_start env operation x)) = conn x"
  by (simp add: open_and_start_def on_disk_def split: prod.splits sum.splits)

lemma disk_command_conn [simp]: "conn (snd (disk_command f clauses x)) = conn x"
  by (cases "f (fx_disk x)") (simp add: disk_command_def on_disk_def split: sum.splits)

lemma on_stat_conn: "conn (snd (on_stat env param x)) = conn x"
proof -
  have "conn (snd (on_stat_list env param x)) = conn x"
    by (simp add: on_stat_list_def Let_def split: prod.splits sum.splits option.splits)
  then show ?thesis by (simp add: on_stat_def on_stat_state_def Let_def)
qed

lemma on_opts_conn: "conn (snd (on_opts match x)) = conn x"
proof -
  have "conn (snd (on_opts_default x)) = conn x" "conn (snd (on_opts_mlst p x)) = conn x" for p
    by (simp_all add: on_opts_default_def on_opts_mlst_def Let_def)
  then show ?thesis using on_opts_cases[of match x] by metis
qed

lemma on_pasv_conn: "conn (snd (on_pasv env x)) = conn x"
proof -
  have *: "conn (snd (pasv_listen env y)) = conn y" for y
    by (simp add: pasv_listen_def split: sum.splits prod.splits)
  obtain r y where y: "(if st_pasv (fx_state x) = None
            then pasv_listen env (x\<lparr>fx_state := (fx_state x)\<lparr>st_pasv := Some None\<rparr>\<rparr>)
            else (Inr (), x)) = (r, y)" by fastforce
  have "conn y = conn x" using *[of "x\<lparr>fx_state := (fx_state x)\<lparr>st_pasv := Some None\<rparr>\<rparr>"] y
    by (auto split: if_splits)
  then show ?thesis unfolding on_pasv_def y by (cases r) (auto split: option.splits address.splits)
qed

lemma on_files_conn:
  "conn (snd (on_size env param x)) = conn x" "conn (snd (on_mdtm env param x)) = conn x"
  "conn (snd (on_rnfr env param x)) = conn x" "conn (snd (on_mlst env param x)) = conn x"
  "conn (snd (on_allo env param x)) = conn x" "conn (snd (on_help param x)) = conn x"
  "conn (snd (on_rest env param x)) = conn x" "conn (snd (on_port env match x)) = conn x"
  "conn (snd (change_dir env param x)) = conn x"
  "conn (snd (on_authenticate env name pwd rejected x)) = conn x"
proof -
  show "conn (snd (on_mdtm env param x)) = conn x"
    by (cases "session_get_path (e_fs env) (fx_ses x) param FILE")
       (simp_all add: on_mdtm_def Let_def split: sum.splits option.splits)
qed (simp_all add: on_size_def on_rnfr_def on_mlst_def on_allo_def on_help_def on_rest_def on_port_def
    change_dir_def on_authenticate_def Let_def split: sum.splits bool.splits option.splits prod.splits)

lemma on_list_conn:
  "conn (snd (on_list env param x)) = conn x" "conn (snd (on_nlst env param x)) = conn x"
  "conn (snd (on_mlsd env param x)) = conn x" "conn (snd (on_retr_stor env operation param x)) = conn x"
  "conn (snd (on_appe env param x)) = conn x" "conn (snd (on_stou env x)) = conn x"
  by (simp_all add: on_list_def on_nlst_def on_mlsd_def on_retr_stor_def on_appe_def on_stou_def Let_def
      split: prod.splits sum.splits)

lemma on_cmd_conn: "conn (snd (on_cmd env cmd param match x)) = conn x"
  by (cases cmd)
     (simp_all add: on_retr_def on_stor_def on_dele_def on_mkd_def on_rmd_def on_rnto_def
        on_cwd_def on_cdup_def on_quit_def on_abor_def on_feat_def on_syst_def on_type_def on_noop_def
        on_pwd_def on_auth_def on_pbsz_def on_prot_def on_user_def on_pass_def Let_def on_files_conn on_list_conn
        on_stat_conn on_opts_conn on_pasv_conn)

text \<open>What a handler that returns has done: filled the reply, hung, or (when it may) started a transfer.\<close>

definition answered :: "bool \<Rightarrow> ('p, 'cl, 'w, 'am, 'os) handled \<Rightarrow> bool" where
  "answered starts r \<longleftrightarrow> (case r of (Inl e, x) \<Rightarrow> True
     | (Inr _, x) \<Rightarrow> rp_have_reply (fx_reply x) \<or> fx_hung x \<or> (starts \<and> fx_phase x = Phase_spawned))"

lemma answered_simps [simp]:
  "answered p (Inl e, x)" "answered p (Inr u, answer c t x)" "answered p (Inr u, answer_verbose c t x)"
  "answered True (Inr u, start_transfer f x)" "answered p (Inr u, x\<lparr>fx_hung := True\<rparr>)"
  "answered p (Inr u, x\<lparr>fx_reply := reply_end c b t r\<rparr>)"
  "answered p (refused clauses e x)" "answered p (list_failed e x)"
  by (simp_all add: answered_def answer_def answer_verbose_def reply_end_def verbose_reply_def start_transfer_def
      refused_def list_failed_def Let_def)

lemma open_and_start_answered [simp]: "answered True (open_and_start env operation x)"
  by (simp add: open_and_start_def split: prod.splits sum.splits)

lemma disk_command_answered [simp]: "answered p (disk_command f clauses x)"
  by (simp add: disk_command_def split: prod.splits sum.splits)

lemma on_stat_answered: "answered p (on_stat env param x)"
  by (simp add: on_stat_def on_stat_state_def on_stat_list_def Let_def split: prod.splits sum.splits option.splits)

lemma on_opts_answered: "answered p (on_opts match x)"
proof -
  have "answered p (on_opts_default x)" "answered p (on_opts_mlst q x)" for q
    by (simp_all add: on_opts_default_def on_opts_mlst_def Let_def)
  then show ?thesis using on_opts_cases[of match x] by metis
qed

lemma on_pasv_answered: "answered p (on_pasv env x)"
proof -
  obtain r y where y: "(if st_pasv (fx_state x) = None
            then pasv_listen env (x\<lparr>fx_state := (fx_state x)\<lparr>st_pasv := Some None\<rparr>\<rparr>)
            else (Inr (), x)) = (r, y)" by fastforce
  show ?thesis unfolding on_pasv_def y by (cases r) (auto split: option.splits address.splits)
qed

lemma on_files_answered:
  "answered p (on_size env param x)" "answered p (on_mdtm env param x)" "answered p (on_rnfr env param x)"
  "answered p (on_mlst env param x)" "answered p (on_allo env param x)" "answered p (on_help param x)"
  "answered p (on_rest env param x)" "answered p (on_port env match x)" "answered p (change_dir env param x)"
  "answered p (on_authenticate env name pwd rejected x)"
proof -
  show "answered p (on_mdtm env param x)"
    by (cases "session_get_path (e_fs env) (fx_ses x) param FILE")
       (simp_all add: on_mdtm_def Let_def split: sum.splits option.splits)
qed (simp_all add: on_size_def on_rnfr_def on_mlst_def on_allo_def on_help_def on_rest_def on_port_def
    change_dir_def on_authenticate_def Let_def split: sum.splits bool.splits option.splits prod.splits)

lemma on_list_answered:
  "answered True (on_list env param x)" "answered True (on_nlst env param x)" "answered True (on_mlsd env param x)"
  "answered True (on_retr_stor env operation param x)" "answered True (on_appe env param x)" "answered True (on_stou env x)"
  by (simp_all add: on_list_def on_nlst_def on_mlsd_def on_retr_stor_def on_appe_def on_stou_def Let_def
      split: prod.splits sum.splits)

lemma on_cmd_answered: "cmd \<noteq> Cmd_abor \<Longrightarrow> answered (need_post_or_pasv cmd) (on_cmd env cmd param match x)"
  by (cases cmd)
     (simp_all add: on_retr_def on_stor_def on_dele_def on_mkd_def on_rmd_def on_rnto_def
        on_cwd_def on_cdup_def on_quit_def on_feat_def on_syst_def on_type_def on_noop_def
        on_pwd_def on_auth_def on_pbsz_def on_prot_def on_user_def on_pass_def Let_def need_post_or_pasv_def on_files_answered
        on_list_answered on_stat_answered on_opts_answered on_pasv_answered)

section \<open>One reply for one request\<close>

lemma ftp_send_sent:
  assumes "\<And>os m. fst (e_write env os m)" and "\<not> fx_reply_failed x" and "fx_socket_open x"
  shows "fx_sent (ftp_send env code message multi x) = fx_sent x @ [format_reply code message multi]"
  using assms(1)[of "fx_os x" "format_reply code message multi"] assms(2,3)
  by (cases "e_write env (fx_os x) (format_reply code message multi)") (simp add: ftp_send_def Let_def)

lemma run_abort_sent [simp]: "fx_sent (run_abort a x) = fx_sent x"
  by (cases a) (simp_all add: run_abort_def)

lemma run_handler_sent:
  assumes "\<And>os m. fst (e_write env os m)" and "\<not> fx_reply_failed x" and "fx_socket_open x" and "cmd \<noteq> Cmd_abor"
    and y_def: "y = run_handler env cmd param match x"
  shows "(\<exists>code message multi. fx_sent y = fx_sent x @ [format_reply code message multi])
    \<or> (fx_sent y = fx_sent x \<and> (fx_hung y \<or> need_post_or_pasv cmd \<and> fx_phase y = Phase_spawned))"
proof -
  let ?x = "x\<lparr>fx_reply := ftp_reply_new\<rparr>"
  obtain r z where z: "on_cmd env cmd param match ?x = (r, z)" by fastforce
  have conn: "fx_sent z = fx_sent x" "\<not> fx_reply_failed z" "fx_socket_open z"
    using on_cmd_conn[of env cmd param match ?x] assms(2,3) by (simp_all add: z conn_def)
  let ?z = "z\<lparr>fx_ses := session_touch (e_clock env (fx_os z)) (fx_ses z), fx_prev_cmd := get_name cmd\<rparr>"
  have sent: "fx_sent (ftp_send env code message multi (?z\<lparr>fx_reply := rp\<rparr>)) = fx_sent x @ [format_reply code message multi]"
    for code message multi rp
    using conn by (subst ftp_send_sent[OF assms(1)]) simp_all
  have sent': "fx_sent (ftp_send env code message multi z) = fx_sent x @ [format_reply code message multi]"
    for code message multi
    using conn by (subst ftp_send_sent[OF assms(1)]) simp_all
  have y: "y = (case r of
        Inl e \<Rightarrow> (ftp_send env RC_BYE ''Internal server error'' False z)\<lparr>fx_close_pending := True\<rparr>
      | Inr _ \<Rightarrow>
          if fx_hung z then z
          else if rp_have_reply (fx_reply z) then
            (let w = ftp_send env (rp_code (fx_reply z)) (rp_message (fx_reply z)) (rp_multi_line (fx_reply z))
                       (?z\<lparr>fx_reply := (fx_reply z)\<lparr>rp_has_replied := True\<rparr>\<rparr>)
             in if rp_do_end_session (fx_reply z) then ftp_close w else w)
          else if st_abort_pending (fx_state z) then
            (case fx_abort z of None \<Rightarrow> ?z | Some a \<Rightarrow> (run_abort a ?z)\<lparr>fx_abort := None\<rparr>)
          else ?z)"
    unfolding y_def run_handler_def z by (cases r) (simp_all add: Let_def get_reply_def)
  show ?thesis
  proof (cases r)
    case (Inl e)
    then show ?thesis using sent' by (auto simp: y)
  next
    case (Inr u)
    have "rp_have_reply (fx_reply z) \<or> fx_hung z \<or> need_post_or_pasv cmd \<and> fx_phase z = Phase_spawned"
      using on_cmd_answered[OF assms(4), of env param match ?x] by (simp add: z Inr answered_def)
    then show ?thesis using Inr conn sent
      by (auto simp: y Let_def ftp_close_def run_abort_def split: option.splits abort_action.splits)
  qed
qed
text \<open>C24: every request is answered once. While the control connection takes what is written to it, a
  request other than ABOR, whatever it holds and whatever it does, is followed by exactly one reply of
  the server, unless it has started a transfer, whose coroutine replies next, or the handler hangs.\<close>
theorem request_answered_once:
  assumes "\<And>os m. fst (e_write env os m)" and "ftp_alive x" and "\<And>name. get_ftp_command request \<noteq> Inr (name, Cmd_abor)"
  shows "(\<exists>code message multi. fx_sent (process_request env request x) = fx_sent x @ [format_reply code message multi])
    \<or> (fx_sent (process_request env request x) = fx_sent x
        \<and> (fx_hung (process_request env request x)
            \<or> \<not> is_in_transfer (fx_state x) \<and> have_pasv_or_post (fx_state x)
              \<and> fx_phase (process_request env request x) = Phase_spawned))"
proof -
  have x: "\<not> fx_expired x" "\<not> fx_reply_failed x" "fx_socket_open x" using assms(2) by (simp_all add: ftp_alive_def)
  have sent: "fx_sent (ftp_send env code message multi (x\<lparr>fx_curr_cmd := n\<rparr>)) = fx_sent x @ [format_reply code message multi]"
    "fx_sent (ftp_send env code message multi x) = fx_sent x @ [format_reply code message multi]"
    for code message multi n
    using x by (subst ftp_send_sent[OF assms(1)]; simp)+
  from x(1) show ?thesis
  proof (cases rule: process_request_handler[of x request env])
    case (handler name cmd match)
    let ?x = "x\<lparr>fx_curr_cmd := name\<rparr>" and ?y = "process_request env request x"
    have "cmd \<noteq> Cmd_abor" using handler(1) assms(3) by blast
    then have h: "(\<exists>code message multi. fx_sent ?y = fx_sent x @ [format_reply code message multi])
        \<or> (fx_sent ?y = fx_sent x \<and> (fx_hung ?y \<or> need_post_or_pasv cmd \<and> fx_phase ?y = Phase_spawned))"
      using run_handler_sent[of env ?x cmd ?y "request_param name request" match, OF assms(1)] x handler(3) by simp
    have "\<not> is_in_transfer (fx_state x) \<and> have_pasv_or_post (fx_state x)" if "need_post_or_pasv cmd"
      using gates_passed[of cmd x] handler(2) that by (auto simp: need_post_or_pasv_def must_not_be_in_transfer_def)
    then show ?thesis using h by blast
  qed (simp_all only: sent; blast)+
qed

theorem request_answered_once_witness:
  "\<exists>code message multi. fx_sent (process_request demo_env ''NOOP'' demo_connected)
     = fx_sent demo_connected @ [format_reply code message multi]"
proof -
  have 1: "fst (e_write demo_env os m)" for os m by (simp add: demo_env_def)
  have *: "ftp_alive demo_connected \<and> get_ftp_command ''NOOP'' = Inr (''NOOP'', Cmd_noop)
    \<and> \<not> fx_hung (process_request demo_env ''NOOP'' demo_connected)
    \<and> fx_phase (process_request demo_env ''NOOP'' demo_connected) \<noteq> Phase_spawned" by code_simp
  note 2 = conjunct1[OF *] and 3 = conjunct1[OF conjunct2[OF *]] and 4 = conjunct2[OF conjunct2[OF *]]
  have 5: "get_ftp_command ''NOOP'' \<noteq> Inr (name, Cmd_abor)" for name by (simp add: 3)
  show ?thesis
    by (rule disjE[OF request_answered_once[OF 1 2 5]]) (assumption, use 4 in simp)
qed

section \<open>Refusals\<close>

text \<open>C25: a request that is refused has no effect. When a gate of the command refuses (a missing command
  before it, no login or one too many, a running transfer, no PASV or PORT, no encryption), when its
  parameters do not have the form of the command, or when the request names no known command, then on a
  connection that is in order and takes what is written to it the server sends exactly one reply,
  with the code and the text of the refusal. Apart from that the name of the command is noted, and tasks
  that waited for a reply are handed to the pipeline; everything else is as before: session, protocol
  state, transfer, connection, user cache and disk.\<close>
theorem refused_request_harmless:
  assumes "ftp_alive x" and "fst (e_write env (fx_os x) (format_reply code message False))"
    and "get_ftp_command request = Inl e \<and> name = fx_curr_cmd x \<and> code = RC_SYNTAX_ERROR \<and> message = []
      \<or> get_ftp_command request = Inr (name, cmd) \<and> gate_refusal cmd x = Some (code, message)
      \<or> get_ftp_command request = Inr (name, cmd) \<and> gate_refusal cmd x = None \<and> can_have_params cmd
        \<and> e_regex env (get_regex cmd) (request_param name request) = None
        \<and> code = RC_SYNTAX_ERROR_IN_PARAMS \<and> message = []"
  shows "process_request env request x =
    x\<lparr>fx_curr_cmd := name,
      fx_os := snd (e_write env (fx_os x) (format_reply code message False)),
      fx_sent := fx_sent x @ [format_reply code message False],
      fx_tasks := fx_tasks x + st_tasks (fx_state x),
      fx_state := (fx_state x)\<lparr>st_tasks := 0\<rparr>\<rparr>"
proof -
  have alive: "\<not> fx_expired x" "\<not> fx_reply_failed x" "fx_socket_open x" using assms(1) by (simp_all add: ftp_alive_def)
  have "process_request env request x = ftp_send env code message False (x\<lparr>fx_curr_cmd := name\<rparr>)"
    using assms(3) alive(1)
    by (elim disjE) (auto simp: process_request_def on_command_def request_param_def)
  then show ?thesis using assms(2) alive
    by (simp add: ftp_send_def Let_def split: prod.splits bool.splits)
qed

theorem refused_request_harmless_witness:
  "process_request demo_env ''DELE a'' demo_connected =
    demo_connected\<lparr>fx_curr_cmd := ''DELE'',
      fx_os := snd (e_write demo_env (fx_os demo_connected) (format_reply RC_NOT_LOGGED_ON [] False)),
      fx_sent := fx_sent demo_connected @ [format_reply RC_NOT_LOGGED_ON [] False],
      fx_tasks := fx_tasks demo_connected + st_tasks (fx_state demo_connected),
      fx_state := (fx_state demo_connected)\<lparr>st_tasks := 0\<rparr>\<rparr>"
proof -
  have *: "ftp_alive demo_connected \<and> get_ftp_command ''DELE a'' = Inr (''DELE'', Cmd_dele)
    \<and> gate_refusal Cmd_dele demo_connected = Some (RC_NOT_LOGGED_ON, [])" by code_simp
  note 1 = conjunct1[OF *] and 3 = conjI[OF conjunct1[OF conjunct2[OF *]] conjunct2[OF conjunct2[OF *]]]
  have 2: "fst (e_write demo_env (fx_os demo_connected) (format_reply RC_NOT_LOGGED_ON [] False))" by (simp add: demo_env_def)
  show ?thesis by (rule refused_request_harmless[OF 1 2 disjI2[OF disjI1[OF 3]]])
qed

end
