(* ===== verification/FtpControl.thy ===== *)
theory FtpControl
  imports FtpInput FtpReplies
begin

text \<open>
  The coroutine of the control connection: \<open>ProcessCommands\<close> of \<open>src/wfde/ftp/WfdeFtpSession.cpp\<close> with the
  line reader of \<open>FtpInput\<close>. It is modelled twice: as a function of everything the client will send,
  and, with the rest of the session interleaved, as a step relation that refines \<open>ftp_step\<close>.
\<close>

section \<open>The loop\<close>

text \<open>
  What is left to be used: the bytes that were received, and the segments. When the offsets point
  outside of the buffer, the next fetch does not return.
\<close>

definition input_left :: "ftp_input \<Rightarrow> nat" where
  "input_left inp = (if in_current inp + in_leftover inp > input_cap then 0 else in_leftover inp)"

definition segments_left :: "string list \<Rightarrow> nat" where
  "segments_left segs = sum_list (map (\<lambda>s. Suc (length s)) segs)"

lemma scan_input_left:
  assumes "scan_input n inp = (Some (Request r), inp')" and "n + in_current inp \<le> k" and "0 < k"
  shows "input_left inp' < k"
proof -
  let ?cmd = "take (n + in_current inp) (in_buffer inp)"
  have req: "length r \<noteq> length ?cmd" "r = takeWhile (\<lambda>c. c \<noteq> cr \<and> c \<noteq> lf) ?cmd"
    and inp': "inp' = (let leftover = u64_sub (u64_sub (length ?cmd) (length r)) 2
        in if leftover > 0 then inp\<lparr>in_leftover := leftover, in_current := length r + 2\<rparr> else inp\<lparr>in_leftover := leftover\<rparr>)"
    using assms(1) by (auto simp: scan_input_def Let_def split: if_splits)
  have less: "length r < length ?cmd" using req length_takeWhile_le[of _ ?cmd] by (metis le_neq_implies_less)
  have "length ?cmd \<le> k" using assms(2) by simp
  then show ?thesis using less assms(3) unfolding inp'
    by (auto simp: input_left_def u64_sub_def input_cap_def Let_def)
qed

lemma scan_input_none: "scan_input n inp = (None, inp') \<Longrightarrow> in_current inp' = in_current inp + n"
  by (auto simp: scan_input_def Let_def split: if_splits)

lemma read_some_left:
  assumes "read_some n segs = (Inr s, segs')"
  shows "length s + segments_left segs' \<le> segments_left segs"
  using assms by (cases segs) (auto simp: segments_left_def split: if_splits)

lemma fetch_loop_left:
  assumes "fetch_loop inp segs = (Request r, inp', segs')"
  shows "input_left inp' + segments_left segs' < in_current inp + segments_left segs"
  using assms
proof (induction inp segs rule: fetch_loop.induct)
  case (1 inp segs)
  note [simp] = fetch_loop.simps[of inp segs]
  obtain rd segs1 where rd: "read_some (input_cap - in_current inp) segs = (rd, segs1)" by fastforce
  obtain s where s: "rd = Inr s" "s \<noteq> []" using 1(2) rd by (cases rd) (auto split: if_splits)
  let ?i = "inp\<lparr>in_buffer := buf_put (in_buffer inp) (in_current inp) s\<rparr>"
  have left: "length s + segments_left segs1 \<le> segments_left segs" 
    using read_some_left rd s(1) by simp
  obtain ro i2 where sc: "scan_input (length s) ?i = (ro, i2)" by fastforce
  show ?case
  proof (cases ro)
    case None
    then have "fetch_loop i2 segs1 = (Request r, inp', segs')" using 1(2) rd s sc by simp
    from 1(1)[OF rd[symmetric] s sc[symmetric] None this] scan_input_none[of "length s" ?i i2] sc None left
    show ?thesis by simp
  next
    case (Some r')
    then have "r' = Request r" "i2 = inp'" "segs1 = segs'" using 1(2) rd s sc by auto
    with sc Some have "scan_input (length s) ?i = (Some (Request r), inp')" by simp
    from scan_input_left[OF this, of "length s + in_current inp"] s(2) left \<open>segs1 = segs'\<close> show ?thesis by simp
  qed
qed

lemma fetch_left:
  assumes "fetch_next_command inp segs = (Request r, inp', segs')"
  shows "input_left inp' + segments_left segs' < input_left inp + segments_left segs"
proof (cases "in_leftover inp = 0")
  case True
  then show ?thesis using assms fetch_loop_left[of "inp\<lparr>in_current := 0\<rparr>" segs r inp' segs']
    by (simp add: fetch_next_command_def input_left_def)
next
  case False
  then have fits: "\<not> in_current inp + in_leftover inp > input_cap"
    using assms by (auto simp: fetch_next_command_def)
  let ?m = "inp\<lparr>in_buffer := buf_put (in_buffer inp) 0 (take (in_leftover inp) (drop (in_current inp) (in_buffer inp))),
      in_current := in_leftover inp\<rparr>"
  obtain ro i2 where sc: "scan_input 0 ?m = (ro, i2)" by fastforce
  show ?thesis
  proof (cases ro)
    case None
    then have "fetch_loop i2 segs = (Request r, inp', segs')"
      using assms False fits sc by (simp add: fetch_next_command_def Let_def)
    from fetch_loop_left[OF this] scan_input_none[of 0 ?m i2] sc None fits show ?thesis by (simp add: input_left_def)
  next
    case (Some r')
    then have "r' = Request r" "i2 = inp'" "segs' = segs"
      using assms False fits sc by (auto simp: fetch_next_command_def Let_def)
    with sc Some have "scan_input 0 ?m = (Some (Request r), inp')" by simp
    from scan_input_left[OF this, of "in_leftover inp"] False fits \<open>segs' = segs\<close> show ?thesis
      by (simp add: input_left_def)
  qed
qed

text \<open>
  The loop. \<open>others k\<close> is what the rest of the program does to the session while the fetch after the
  next \<open>k\<close> requests waits; every exception but the two that are told apart is handled like
  \<open>NoInputException\<close>. An access outside of the buffer ends the model of the run.
\<close>

function command_loop ::
    "('p, 'w, 'am, 'cl, 'os) ftp_env \<Rightarrow> (nat \<Rightarrow> ('p, 'cl, 'w, 'am, 'os) ftp \<Rightarrow> ('p, 'cl, 'w, 'am, 'os) ftp) \<Rightarrow>
     ftp_input \<Rightarrow> string list \<Rightarrow> ('p, 'cl, 'w, 'am, 'os) ftp \<Rightarrow> ('p, 'cl, 'w, 'am, 'os) ftp" where
  "command_loop env others inp segs x =
     (if fx_hung x then x
      else if \<not> ftp_alive x then ftp_do_close x
      else
        let x = others 0 x
        in if fx_hung x then x
           else (case fetch_next_command inp segs of
                   (Request request, inp, segs) \<Rightarrow>
                     command_loop env (\<lambda>k. others (Suc k)) inp segs (process_request env request x)
                 | (Throws e, inp, segs) \<Rightarrow>
                     ftp_do_close (if e = InputTooBigException then ftp_send env RC_BYE too_long_message False x else x)
                 | (Undefined_access, inp, segs) \<Rightarrow> x\<lparr>fx_hung := True\<rparr>))"
  by pat_completeness auto
termination
  by (relation "measure (\<lambda>(env, others, inp, segs, x). input_left inp + segments_left segs)")
     (auto dest!: fetch_left[OF sym])

declare command_loop.simps [simp del]

definition process_commands ::
    "('p, 'w, 'am, 'cl, 'os) ftp_env \<Rightarrow> (nat \<Rightarrow> ('p, 'cl, 'w, 'am, 'os) ftp \<Rightarrow> ('p, 'cl, 'w, 'am, 'os) ftp) \<Rightarrow>
     ftp_input \<Rightarrow> string list \<Rightarrow> ('p, 'cl, 'w, 'am, 'os) ftp \<Rightarrow> ('p, 'cl, 'w, 'am, 'os) ftp" where
  "process_commands env others inp segs x =
     (if fx_expired x then ftp_do_close x else command_loop env others inp segs (ftp_send env RC_READY [] False x))"
section \<open>A byte stream of lines\<close>

text \<open>
  The specification: the lines of the client are processed one by one while the control connection
  lives; then, or when no line is left, the session is closed.
\<close>

fun serve_lines ::
    "('p, 'w, 'am, 'cl, 'os) ftp_env \<Rightarrow> (nat \<Rightarrow> ('p, 'cl, 'w, 'am, 'os) ftp \<Rightarrow> ('p, 'cl, 'w, 'am, 'os) ftp) \<Rightarrow>
     string list \<Rightarrow> ('p, 'cl, 'w, 'am, 'os) ftp \<Rightarrow> ('p, 'cl, 'w, 'am, 'os) ftp" where
  "serve_lines env others [] x =
     (if fx_hung x then x else if \<not> ftp_alive x then ftp_do_close x
      else let x = others 0 x in if fx_hung x then x else ftp_do_close x)"
| "serve_lines env others (line # rest) x =
     (if fx_hung x then x else if \<not> ftp_alive x then ftp_do_close x
      else let x = others 0 x in if fx_hung x then x
           else serve_lines env (\<lambda>k. others (Suc k)) rest (process_request env line x))"

definition wire :: "string list \<Rightarrow> string" where
  "wire requests = concat (map (\<lambda>l. l @ crlf) requests)"

text \<open>
  Segments \<open>pieces\<close> that spell \<open>lines\<close>: the first line may be cut anywhere but in its line end, the
  others come in the same segment as that line end, and all of them fit the buffer.
\<close>

definition spelled :: "string list \<Rightarrow> string list \<Rightarrow> bool" where
  "spelled requests pieces \<longleftrightarrow> requests \<noteq> [] \<and> list_all no_eol requests \<and> [] \<notin> set pieces
     \<and> concat pieces = wire requests \<and> length (wire requests) \<le> input_cap
     \<and> length (concat (butlast pieces)) \<le> length (hd requests)"

lemma wire_simps [simp]: "wire [] = []" "wire (l # ls) = l @ crlf @ wire ls"
  by (simp_all add: wire_def)

lemma in_hand_empty:
  assumes "input_ok inp" and "in_hand inp = []"
  shows "in_leftover inp = 0"
proof (rule ccontr)
  assume "in_leftover inp \<noteq> 0"
  then have "length (in_hand inp) = in_leftover inp" using assms(1) by (auto simp: in_hand_def input_ok_def)
  then show False using assms(2) \<open>in_leftover inp \<noteq> 0\<close> by simp
qed

lemma fetch_nothing:
  assumes "input_ok inp" and "in_hand inp = []"
  shows "fetch_next_command inp [] = (Throws ExceptionLibrary, inp\<lparr>in_current := 0\<rparr>, [])"
  by (simp add: fetch_next_command_def in_hand_empty[OF assms] fetch_loop.simps)

text \<open>One line, from what is in hand and \<open>pre\<close>.\<close>

lemma fetch_wire:
  assumes "input_ok inp" and "in_hand inp @ concat pre = wire (l # ls)" and "no_eol l" and "[] \<notin> set pre"
    and "pre = [] \<or> length (in_hand inp @ concat (butlast pre)) \<le> length l"
    and "length (wire (l # ls)) \<le> input_cap"
  obtains inp' where "input_ok inp'" and "in_hand inp' = wire ls"
    and "fetch_next_command inp (pre @ post) = (Request l, inp', post)"
proof -
  have "in_hand inp @ concat pre = l @ crlf @ wire ls" "length l + 2 \<le> input_cap"
    "length (in_hand inp @ concat pre) \<le> input_cap" using assms(2,6) by simp_all
  with fetch_line_at[OF assms(1) this(1) assms(3) this(2) assms(4,5), of post] show ?thesis using that by blast
qed

lemma loop_fetched:
  assumes "fetch_next_command inp segs = (Request l, inp', post)"
  shows "command_loop env others inp segs x
    = (if fx_hung x then x else if \<not> ftp_alive x then ftp_do_close x
       else if fx_hung (others 0 x) then others 0 x
       else command_loop env (\<lambda>k. others (Suc k)) inp' post (process_request env l (others 0 x)))"
  by (subst command_loop.simps) (simp add: assms Let_def)

lemma loop_serves:
  assumes "input_ok inp" and "in_hand inp = wire ls" and "list_all no_eol ls" and "length (wire ls) \<le> input_cap"
    and "list_all (\<lambda>(requests, pieces). spelled requests pieces) groups"
  shows "command_loop env others inp (concat (map snd groups)) x = serve_lines env others (ls @ concat (map fst groups)) x"
  using assms
proof (induction groups arbitrary: ls inp others x)
  case Nil
  then show ?case
  proof (induction ls arbitrary: inp others x)
    case Nil
    then show ?case using fetch_nothing[of inp] by (simp add: command_loop.simps Let_def)
  next
    case (Cons l ls)
    have 1: "in_hand inp @ concat [] = wire (l # ls)" and 2: "no_eol l" using Cons.prems(2,3) by simp_all
    have 3: "list_all no_eol ls" and 4: "length (wire ls) \<le> input_cap" using Cons.prems(3,4) by simp_all
    obtain inp' where i: "input_ok inp'" "in_hand inp' = wire ls" and
      fetch: "fetch_next_command inp ([] @ []) = (Request l, inp', [])"
      by (rule fetch_wire[OF Cons.prems(1) 1 2 _ _ Cons.prems(4)]) simp_all
    show ?case using loop_fetched[OF fetch, of env others x] Cons.IH[OF i 3 4] by (simp add: Let_def)
  qed
next
  case (Cons g groups)
  note outer = Cons.IH
  obtain requests pieces where g: "g = (requests, pieces)" by fastforce
  from Cons.prems(5) g have gs: "list_all (\<lambda>(requests, pieces). spelled requests pieces) groups"
    and sp: "spelled requests pieces" by simp_all
  from Cons.prems(1-4) show ?case
  proof (induction ls arbitrary: inp others x)
    case Nil
    obtain l ls where r: "requests = l # ls" using sp by (cases requests) (auto simp: spelled_def)
    have 1: "in_hand inp @ concat pieces = wire (l # ls)" "no_eol l" "[] \<notin> set pieces"
      "pieces = [] \<or> length (in_hand inp @ concat (butlast pieces)) \<le> length l" "length (wire (l # ls)) \<le> input_cap"
      "list_all no_eol ls" "length (wire ls) \<le> input_cap"
      using sp Nil.prems(2) r by (simp_all add: spelled_def)
    obtain inp' where i: "input_ok inp'" "in_hand inp' = wire ls" and
      fetch: "fetch_next_command inp (pieces @ concat (map snd groups)) = (Request l, inp', concat (map snd groups))"
      by (rule fetch_wire[OF Nil.prems(1) 1(1-5)])
    show ?case using loop_fetched[OF fetch, of env others x] outer[OF i 1(6,7) gs] r g by (simp add: Let_def)
  next
    case (Cons l ls)
    have 1: "in_hand inp @ concat [] = wire (l # ls)" and 2: "no_eol l" using Cons.prems(2,3) by simp_all
    have 3: "list_all no_eol ls" and 4: "length (wire ls) \<le> input_cap" using Cons.prems(3,4) by simp_all
    obtain inp' where i: "input_ok inp'" "in_hand inp' = wire ls" and
      fetch: "fetch_next_command inp ([] @ concat (map snd (g # groups))) = (Request l, inp', concat (map snd (g # groups)))"
      by (rule fetch_wire[OF Cons.prems(1) 1 2 _ _ Cons.prems(4)]) simp_all
    show ?case using loop_fetched[OF fetch, of env others x] Cons.IH[OF i 3 4] by (simp add: Let_def)
  qed
qed

text \<open>C10: the control connection is a fold over lines. When the segments of the client come in groups
  that each spell some request lines (one line in pieces that do not cut its line end, or several
  lines at once, up to the size of the buffer), \<open>ProcessCommands\<close> on a fresh buffer greets the client and
  then does exactly what processing the lines one by one does, whatever the rest of the program does
  in between, and in the end closes the session.\<close>
theorem commands_in_order:
  assumes "length garbage = input_cap" and "\<not> fx_expired x"
    and "list_all (\<lambda>(requests, pieces). spelled requests pieces) groups"
  shows "process_commands env others (ftp_input_new garbage) (concat (map snd groups)) x
    = serve_lines env others (concat (map fst groups)) (ftp_send env RC_READY [] False x)"
  using loop_serves[OF input_ok_new[OF assms(1)], of "[]" groups] assms(2,3)
  by (simp add: process_commands_def in_hand_def ftp_input_new_def)
section \<open>The coroutine among the others\<close>

text \<open>
  Where \<open>ProcessCommands\<close> is: before the test of its loop, in \<open>FetchNextCommand\<close>, at its end, or in undefined
  behaviour. A connection steps by its coroutine or by a task of its session.
\<close>

datatype control_pc = Ctl_test | Ctl_fetch | Ctl_done | Ctl_crashed

type_synonym ('p, 'cl, 'w, 'am, 'os) control = "control_pc \<times> ftp_input \<times> string list \<times> ('p, 'cl, 'w, 'am, 'os) ftp"

inductive control_own ::
    "('p, 'w, 'am, 'cl, 'os) ftp_env \<Rightarrow> ('p, 'cl, 'w, 'am, 'os) control \<Rightarrow> ('p, 'cl, 'w, 'am, 'os) control \<Rightarrow> bool"
  for env where
  ctl_goes_on: "ftp_alive x \<Longrightarrow> control_own env (Ctl_test, inp, segs, x) (Ctl_fetch, inp, segs, x)"
| ctl_ends: "\<not> ftp_alive x \<Longrightarrow> \<not> fx_hung x \<Longrightarrow>
    control_own env (Ctl_test, inp, segs, x) (Ctl_done, inp, segs, ftp_do_close x)"
| ctl_request: "\<not> fx_hung x \<Longrightarrow> fetch_next_command inp segs = (Request request, inp', segs') \<Longrightarrow>
    control_own env (Ctl_fetch, inp, segs, x) (Ctl_test, inp', segs', process_request env request x)"
| ctl_throws: "\<not> fx_hung x \<Longrightarrow> fetch_next_command inp segs = (Throws e, inp', segs') \<Longrightarrow>
    control_own env (Ctl_fetch, inp, segs, x) (Ctl_done, inp', segs',
      ftp_do_close (if e = InputTooBigException then ftp_send env RC_BYE too_long_message False x else x))"
| ctl_crash: "\<not> fx_hung x \<Longrightarrow> fetch_next_command inp segs = (Undefined_access, inp', segs') \<Longrightarrow>
    control_own env (Ctl_fetch, inp, segs, x) (Ctl_crashed, inp', segs', x)"
| ctl_task: "pc \<noteq> Ctl_crashed \<Longrightarrow> task_step env x y \<Longrightarrow> control_own env (pc, inp, segs, x) (pc, inp, segs, y)"

text \<open>While it waits, the session manager and the other sessions run.\<close>

inductive control_step ::
    "('p, 'w, 'am, 'cl, 'os) ftp_env \<Rightarrow> ('am \<Rightarrow> bool) \<Rightarrow> ('p, 'cl, 'w, 'am, 'os) control \<Rightarrow>
     ('p, 'cl, 'w, 'am, 'os) control \<Rightarrow> bool" for env ok where
  ctl_own: "control_own env c c' \<Longrightarrow> control_step env ok c c'"
| ctl_event: "manager_event x y \<Longrightarrow> control_step env ok (pc, inp, segs, x) (pc, inp, segs, y)"
| ctl_outside: "outside_step ok x y \<Longrightarrow> control_step env ok (pc, inp, segs, x) (pc, inp, segs, y)"

inductive control_reach ::
    "('p, 'w, 'am, 'cl, 'os) ftp_env \<Rightarrow> ('am \<Rightarrow> bool) \<Rightarrow> ('p, 'cl, 'w, 'am, 'os) control \<Rightarrow> bool" for env ok where
  control_start: "mounts_ok perms \<Longrightarrow> ok am \<Longrightarrow> length garbage = input_cap \<Longrightarrow>
    control_reach env ok (Ctl_test, ftp_input_new garbage, segs, handle_connection env g time_out perms am w os)"
| control_next: "control_reach env ok c \<Longrightarrow> control_step env ok c c' \<Longrightarrow> control_reach env ok c'"

text \<open>The marks of a session that is coming to its end: only \<open>DoClose\<close> and the manager set them.\<close>

definition marks :: "('p, 'cl, 'w, 'am, 'os) ftp \<Rightarrow> bool \<times> bool" where
  "marks x = (fx_closed x, fx_expired x)"

lemma conn_marks: "conn y = conn x \<Longrightarrow> marks y = marks x"
  by (simp add: conn_def marks_def)

lemma on_file_marks: "on_file call x = (r, y) \<Longrightarrow> marks y = marks x"
  by (simp add: marks_def on_file_fields)

lemma marks_updates [simp]:
  "marks (fx_ses_update g1 x) = marks x" "marks (fx_state_update g2 x) = marks x" "marks (fx_reply_update g3 x) = marks x"
  "marks (fx_prev_cmd_update g4 x) = marks x" "marks (fx_curr_cmd_update g5 x) = marks x" "marks (fx_file_update g6 x) = marks x"
  "marks (fx_phase_update g7 x) = marks x" "marks (fx_abort_update g8 x) = marks x" "marks (fx_transfer_open_update g9 x) = marks x"
  "marks (fx_close_pending_update h1 x) = marks x" "marks (fx_socket_open_update h2 x) = marks x"
  "marks (fx_hung_update h3 x) = marks x" "marks (fx_last_touch_update h4 x) = marks x" "marks (fx_tasks_update h5 x) = marks x"
  "marks (ftp_send env c t m x) = marks x"
  by (simp_all add: marks_def)

lemma on_file_snd_marks: "marks (snd (on_file call x)) = marks x"
  by (rule on_file_marks[OF prod.collapse[symmetric]])

lemma transfer_marks [simp]:
  "marks (reset_file env x) = marks x" "marks (notify_failed env x) = marks x" "marks (cleanup_transfer env x) = marks x"
  "marks (transfer_returned env x) = marks x" "marks (transfer_threw env x) = marks x"
  "marks (transfer_touch env x) = marks x" "marks (transfer_enter env x) = marks x"
  "marks (start_tls ok x) = marks x" "marks (run_abort a x) = marks x" "marks (ftp_close x) = marks x"
  by (simp_all add: reset_file_def on_file_snd_marks notify_failed_def cleanup_transfer_def Let_def transfer_returned_def
      transfer_threw_def transfer_touch_def transfer_enter_def start_tls_def run_abort_def ftp_close_def
      split: abort_action.split)

lemma on_file_case_marks:
  assumes "\<And>e x. marks (f e x) = marks x" and "\<And>u x. marks (g u x) = marks x"
  shows "marks (case on_file call z of (Inl e, x) \<Rightarrow> f e x | (Inr u, x) \<Rightarrow> g u x) = marks z"
proof -
  obtain r y where y: "on_file call z = (r, y)" by fastforce
  show ?thesis using on_file_marks[OF y] by (cases r) (simp_all add: y assms)
qed

lemma transfer_done_marks: "marks (transfer_done env verb x) = marks x"
  unfolding transfer_done_def by (subst on_file_case_marks) simp_all

lemma send_step_marks: "marks (snd (send_step env sent x)) = marks x"
proof -
  obtain r y where y: "on_file (\<lambda>(f, w). case tf_read env w f of (r, f) \<Rightarrow> (r, f, w)) x = (r, y)" by fastforce
  then show ?thesis using on_file_marks[OF y] by (simp add: send_step_def transfer_done_marks split: sum.split)
qed

lemma receive_step_marks: "marks (receive_step env event shutdown_ok x) = marks x"
proof -
  obtain r y where y: "on_file (tf_write env) x = (r, y)" by fastforce
  note 1 = on_file_marks[OF y]
  have 3: "marks (if b then ftp_send env c t m z else z) = marks z" for b c t m z by simp
  show ?thesis
    by (cases r; cases event)
       (simp_all add: receive_step_def y Let_def 1 3 on_file_snd_marks on_file_case_marks transfer_done_marks)
qed

lemma transfer_step_marks: "transfer_step env x y \<Longrightarrow> marks y = marks x"
  by (induction rule: transfer_step.induct)
     (simp_all add: send_step_marks receive_step_marks transfer_begin_def transfer_connect_def transfer_secure_def Let_def)

lemma task_step_marks: "task_step env x y \<Longrightarrow> marks y = marks x"
  by (induction rule: task_step.induct) (simp_all add: transfer_step_marks)

lemma process_request_marks: "marks (process_request env request x) = marks x"
proof -
  have h: "marks (run_handler env cmd param match z) = marks z" for cmd param match z
  proof -
    obtain r y where y: "on_cmd env cmd param match (z\<lparr>fx_reply := ftp_reply_new\<rparr>) = (r, y)" by fastforce
    have "marks y = marks z"
      using conn_marks[OF on_cmd_conn[of env cmd param match "z\<lparr>fx_reply := ftp_reply_new\<rparr>"]] y by simp
    then show ?thesis by (simp add: run_handler_def y Let_def split: sum.split prod.split option.split)
  qed
  show ?thesis
    by (simp add: process_request_def on_command_def Let_def h split: sum.split prod.split option.split)
qed

lemma manager_event_closed: "manager_event x y \<Longrightarrow> fx_closed y = fx_closed x"
  by (induction rule: manager_event.induct) simp_all

lemma run_abort_closed [simp]: "fx_closed (run_abort a x) = fx_closed x"
  using transfer_marks(9)[of a x] by (simp add: marks_def)

lemma ftp_do_close_closed [simp]: "fx_closed (ftp_do_close x)"
  by (simp add: ftp_do_close_def Let_def split: option.split)

lemma marks_closed: "marks y = marks x \<Longrightarrow> fx_closed y = fx_closed x"
  by (simp add: marks_def)

text \<open>The invariant of the line reader: the buffer is in order, or a cut line end has spoilt it.\<close>

definition reader_ok :: "ftp_input \<Rightarrow> bool" where
  "reader_ok inp \<longleftrightarrow> input_ok inp \<or> in_leftover inp = 2 ^ 64 - 1"
lemma reader_ok_fetch:
  assumes "reader_ok inp" and "fetch_next_command inp segs = (r, inp', segs')"
  shows "r = Request request \<Longrightarrow> reader_ok inp' \<and> no_eol request \<and> length request < input_cap"
    and "r = Undefined_access \<Longrightarrow> in_leftover inp' = 2 ^ 64 - 1"
proof -
  have spoilt: "r = Undefined_access \<and> inp' = inp" if "in_leftover inp = 2 ^ 64 - 1"
    using that assms(2) by (simp add: fetch_next_command_def input_cap_def)
  show "r = Request request \<Longrightarrow> reader_ok inp' \<and> no_eol request \<and> length request < input_cap"
    using assms fetch_safe[of inp segs r inp' segs' request] spoilt unfolding reader_ok_def by blast
  show "r = Undefined_access \<Longrightarrow> in_leftover inp' = 2 ^ 64 - 1"
    using assms fetch_safe[of inp segs r inp' segs'] spoilt unfolding reader_ok_def by metis
qed

definition control_inv ::
    "('p, 'w, 'am, 'cl, 'os) ftp_env \<Rightarrow> ('am \<Rightarrow> bool) \<Rightarrow> ('p, 'cl, 'w, 'am, 'os) control \<Rightarrow> bool" where
  "control_inv env ok = (\<lambda>(pc, inp, segs, x).
     ftp_reach env ok x \<and> (fx_closed x \<longleftrightarrow> pc = Ctl_done) \<and> (pc \<noteq> Ctl_done \<longrightarrow> reader_ok inp)
     \<and> (pc = Ctl_crashed \<longrightarrow> in_leftover inp = 2 ^ 64 - 1))"

lemma control_own_inv:
  assumes "control_own env c c'" and "control_inv env ok c"
  shows "control_inv env ok c'"
  using assms
proof (induction rule: control_own.induct)
  case (ctl_ends x inp segs)
  then show ?case by (auto simp: control_inv_def intro: reach_step step_end)
next
  case (ctl_request x inp segs request inp' segs')
  then show ?case
    using reader_ok_fetch(1)[OF _ ctl_request.hyps(2) refl] marks_closed[OF process_request_marks[of env request x]]
    by (auto simp: control_inv_def intro: reach_step step_request)
next
  case (ctl_throws x inp segs e inp' segs')
  then show ?case by (auto simp: control_inv_def intro: reach_step step_end step_too_big)
next
  case (ctl_crash x inp segs inp' segs')
  then show ?case using reader_ok_fetch(2)[OF _ ctl_crash.hyps(2) refl]
    by (auto simp: control_inv_def reader_ok_def)
next
  case (ctl_task pc x y inp segs)
  then show ?case using marks_closed[OF task_step_marks[OF ctl_task.hyps(2)]]
    by (auto simp: control_inv_def intro: reach_step step_task)
qed (simp add: control_inv_def)

lemma control_step_inv:
  assumes "control_step env ok c c'" and "control_inv env ok c"
  shows "control_inv env ok c'"
  using assms
proof (induction rule: control_step.induct)
  case (ctl_event x y pc inp segs)
  then show ?case using manager_event_closed[OF ctl_event.hyps]
    by (auto simp: control_inv_def intro: reach_step step_event)
next
  case (ctl_outside x y pc inp segs)
  then have "fx_closed y = fx_closed x" by (auto simp: outside_step_iff)
  then show ?case using ctl_outside by (auto simp: control_inv_def intro: reach_outside)
qed (rule control_own_inv)

lemma control_reach_inv: "control_reach env ok c \<Longrightarrow> control_inv env ok c"
proof (induction rule: control_reach.induct)
  case (control_start perms am garbage segs g time_out w os)
  have "\<not> fx_closed (handle_connection env g time_out perms am w os)" by (simp add: handle_connection_def ftp_new_def)
  then show ?case using control_start by (simp add: control_inv_def reach_connected reader_ok_def input_ok_new)
qed (rule control_step_inv)

text \<open>C8: the coroutine of the control connection implements the steps of the session. Whatever
  segments arrive and however the coroutine is interleaved with the tasks of its session, with the
  session manager and with the other sessions, the session is in a state that \<open>ftp_step\<close> can reach;
  it counts as closed exactly when the coroutine is at its end; and the coroutine leaves the buffer
  only after a cut line end.\<close>
theorem control_refines:
  assumes "control_reach env ok (pc, inp, segs, x)"
  shows "ftp_reach env ok x \<and> (fx_closed x \<longleftrightarrow> pc = Ctl_done)
    \<and> (pc = Ctl_crashed \<longrightarrow> in_leftover inp = 2 ^ 64 - 1)"
  using control_reach_inv[OF assms] by (simp add: control_inv_def)

section \<open>A connection for the witnesses\<close>

text \<open>Two lines at once, and one in two pieces; the replies are read by their codes.\<close>

definition demo_accepted :: "(demo_path, nat, demo_disk, demo_path auth_manager, int) ftp" where
  "demo_accepted =
     ftp_new (session_set_permissions (wfde_session_new 0 (e_clock demo_env 0) None 60) []) bob_auth bob_disk 0"

theorem commands_in_order_witness:
  "map (take 3) (fx_sent (process_commands demo_env (\<lambda>k x. x) demo_input
       [''USER bob'' @ crlf @ ''PASS pw'' @ crlf, ''NO'', ''OP'' @ crlf] demo_accepted))
     = [''220'', ''331'', ''230'', ''200'']"
proof -
  let ?groups = "[([''USER bob'', ''PASS pw''], [''USER bob'' @ crlf @ ''PASS pw'' @ crlf]), ([''NOOP''], [''NO'', ''OP'' @ crlf])]"
  have 1: "list_all (\<lambda>(requests, pieces). spelled requests pieces) ?groups" by (simp add: spelled_def input_cap_def)
  have *: "\<not> fx_expired demo_accepted
    \<and> map (take 3) (fx_sent (serve_lines demo_env (\<lambda>k x. x) (concat (map fst ?groups)) (ftp_send demo_env RC_READY [] False demo_accepted)))
     = [''220'', ''331'', ''230'', ''200'']" by code_simp
  have 2: "length (replicate input_cap nul) = input_cap" by simp
  show ?thesis using * commands_in_order[OF 2 conjunct1[OF *] 1, of demo_env "\<lambda>k x. x"]
    by (simp add: demo_input_def)
qed

lemma demo_line_reach:
  assumes "no_eol l" and "length l + 2 \<le> input_cap"
  obtains inp segs where
    "control_reach demo_env am_served (Ctl_test, inp, segs, process_request demo_env l demo_connected)"
proof -
  have alive: "ftp_alive demo_connected" by code_simp
  then have hung: "\<not> fx_hung demo_connected" by (simp add: ftp_alive_def)
  have "control_reach demo_env am_served (Ctl_test, ftp_input_new (replicate input_cap nul), [l @ crlf], demo_connected)"
    unfolding demo_connected_def by (rule control_start) (simp_all add: mounts_ok_def bob_served)
  then have 1: "control_reach demo_env am_served (Ctl_fetch, demo_input, [l @ crlf], demo_connected)"
    unfolding demo_input_def by (rule control_next) (rule ctl_own[OF ctl_goes_on[OF alive]])
  from fetch_line_at[OF demo_input_ok, of "[l @ crlf]" l "[]" "[]"] assms obtain inp' segs' where
    f: "fetch_next_command demo_input [l @ crlf] = (Request l, inp', segs')"
    by (auto simp: demo_input_in_hand)
  show ?thesis by (rule that) (rule control_next[OF 1 ctl_own[OF ctl_request[OF hung f]]])
qed

theorem control_refines_witness:
  "\<exists>inp segs. control_reach demo_env am_served (Ctl_test, inp, segs, process_request demo_env ''NOOP'' demo_connected)
     \<and> ftp_reach demo_env am_served (process_request demo_env ''NOOP'' demo_connected)"
proof -
  obtain inp segs where
    1: "control_reach demo_env am_served (Ctl_test, inp, segs, process_request demo_env ''NOOP'' demo_connected)"
    by (rule demo_line_reach[of "''NOOP''"]) (simp_all add: input_cap_def)
  show ?thesis by (intro exI conjI) (rule 1, rule conjunct1[OF control_refines[OF 1]])
qed

end
