(* ===== verification/FtpFraming.thy ===== *)
theory FtpFraming
  imports FtpDispatch
begin

text \<open>
  The text of a reply, read back by a client that follows RFC 959, section 4.2: a reply is one line, or
  it starts with the code and a hyphen and goes on to a line that starts with the code and a space.
\<close>

abbreviation digits :: string where
  "digits \<equiv> ''0123456789''"

section \<open>A client\<close>

fun next_line :: "string \<Rightarrow> (string \<times> string) option" where
  "next_line (a # b # s) =
     (if a = cr \<and> b = lf then Some ([], s)
      else (case next_line (b # s) of None \<Rightarrow> None | Some (l, r) \<Rightarrow> Some (a # l, r)))"
| "next_line s = None"

lemma next_line_shorter: "next_line s = Some (l, r) \<Longrightarrow> length r < length s"
  by (induction s arbitrary: l rule: next_line.induct) (auto split: if_splits option.splits)

function skip_to :: "string \<Rightarrow> string \<Rightarrow> string option" where
  "skip_to tag s =
     (case next_line s of
        None \<Rightarrow> None
      | Some (l, r) \<Rightarrow> if take (length tag) l = tag then Some r else skip_to tag r)"
  by pat_completeness auto
termination
  by (relation "measure (\<lambda>(tag, s). length s)") (auto dest: next_line_shorter)

declare skip_to.simps [simp del]

definition read_reply :: "string \<Rightarrow> (string \<times> string) option" where
  "read_reply s =
     (case next_line s of
        None \<Rightarrow> None
      | Some (l, r) \<Rightarrow>
          if length l < 4 \<or> \<not> list_all (\<lambda>c. c \<in> set digits) (take 3 l) then None
          else if l ! 3 = space then Some (take 3 l, r)
          else if l ! 3 = CHR ''-'' then map_option (Pair (take 3 l)) (skip_to (take 3 l @ [space]) r)
          else None)"

lemma skip_to_shorter: "skip_to tag s = Some r \<Longrightarrow> length r < length s"
proof (induction tag s rule: skip_to.induct)
  case (1 tag s)
  show ?case using 1(1) 1(2)[unfolded skip_to.simps[of tag s]]
    by (fastforce split: option.splits if_splits dest: next_line_shorter)
qed

lemma read_reply_shorter: "read_reply s = Some (d, r) \<Longrightarrow> length r < length s"
  by (auto simp: read_reply_def split: option.splits if_splits dest!: next_line_shorter skip_to_shorter)

text \<open>The codes of all the replies of a stream, which has to end with one.\<close>

function read_replies :: "string \<Rightarrow> string list option" where
  "read_replies s =
     (if s = [] then Some []
      else (case read_reply s of
              None \<Rightarrow> None
            | Some (code, r) \<Rightarrow> map_option (Cons code) (read_replies r)))"
  by pat_completeness auto
termination
  by (relation "measure length") (auto dest: read_reply_shorter)

declare read_replies.simps [simp del]

section \<open>Lines\<close>

lemma next_line_append: "\<not> sublist [cr, lf] l \<Longrightarrow> next_line (l @ cr # lf # r) = Some (l, r)"
proof (induction l)
  case (Cons a l)
  then have "\<not> sublist [cr, lf] l" by (meson sublist_Cons_right)
  then show ?case using Cons
    by (cases l) (auto simp: sublist_two_Cons)
qed simp

lemma first_line:
  obtains "\<not> sublist [cr, lf] s"
  | l r where "s = l @ cr # lf # r" and "\<not> sublist [cr, lf] l"
proof (induction s arbitrary: thesis)
  case (Cons a s)
  show ?case
  proof (cases "a = cr \<and> (\<exists>r. s = lf # r)")
    case True
    then obtain r where "a # s = [] @ cr # lf # r" by auto
    then show ?thesis by (rule Cons.prems(2)) simp
  next
    case a: False
    show ?thesis
    proof (rule Cons.IH)
      assume "\<not> sublist [cr, lf] s"
      then have "\<not> sublist [cr, lf] (a # s)" using a by (cases s) (auto simp: sublist_two_Cons)
      then show ?thesis by (rule Cons.prems(1))
    next
      fix l r assume s: "s = l @ cr # lf # r" "\<not> sublist [cr, lf] l"
      then have "\<not> sublist [cr, lf] (a # l)" using a by (cases l) (auto simp: sublist_two_Cons)
      then show ?thesis using s by (intro Cons.prems(2)[of "a # l" r]) simp
    qed
  qed
qed simp

text \<open>No line of the text starts with the tag, the first one not counting.\<close>

definition no_line_starts :: "string \<Rightarrow> string \<Rightarrow> bool" where
  "no_line_starts tag s \<longleftrightarrow> (\<forall>l r. s = l @ cr # lf # r \<longrightarrow> \<not> prefix tag r)"

lemma no_line_starts_rest: "no_line_starts tag (l @ cr # lf # r) \<Longrightarrow> no_line_starts tag r \<and> \<not> prefix tag r"
  unfolding no_line_starts_def by (metis append.assoc append_Cons)

lemma skip_to_tag: "prefix tag e \<Longrightarrow> \<not> sublist [cr, lf] e \<Longrightarrow> skip_to tag (e @ crlf @ rest) = Some rest"
  by (subst skip_to.simps) (auto simp: next_line_append prefix_def)

lemma skip_to_end:
  assumes "no_line_starts tag s" and "\<not> prefix tag s" and "prefix tag e" and "\<not> sublist [cr, lf] e"
  shows "skip_to tag (s @ crlf @ e @ crlf @ rest) = Some rest"
  using assms(1,2)
proof (induction s rule: length_induct)
  case (1 s)
  have e: "skip_to tag (e @ crlf @ rest) = Some rest"
    by (rule skip_to_tag[OF assms(3,4)])
  have np: "take (length tag) l \<noteq> tag" if "\<not> prefix tag l" for l
    using that by (metis take_is_prefix)
  show ?case
  proof (rule first_line[of s])
    assume "\<not> sublist [cr, lf] s"
    then show ?thesis using e np[OF 1(3)] by (subst skip_to.simps) (simp add: next_line_append)
  next
    fix l r assume s: "s = l @ cr # lf # r" "\<not> sublist [cr, lf] l"
    have r: "no_line_starts tag r" "\<not> prefix tag r" using no_line_starts_rest[of tag l r] 1(2) s(1) by simp_all
    have "\<not> prefix tag l" using 1(3) s(1) by (auto simp: prefix_def)
    then show ?thesis using 1(1) r s np[of l]
      by (subst skip_to.simps) (simp add: next_line_append)
  qed
qed

section \<open>Replies\<close>

lemma resolve_code_mem: "resolve_code code \<in> set reply_messages"
proof -
  have "length reply_messages = 35" by (simp add: reply_messages_def)
  moreover have "reply_index code < 35" by (cases code) simp_all
  ultimately show ?thesis unfolding resolve_code_def by (intro nth_mem) simp
qed

lemma reply_messages_plain:
  "list_all (\<lambda>m. length (dec (fst m)) = 3 \<and> list_all (\<lambda>c. c \<in> set digits) (dec (fst m)) \<and> cr \<notin> set (snd m))
     reply_messages"
  by code_simp

lemma reply_digits:
  "length (dec (fst (resolve_code code))) = 3"
  "list_all (\<lambda>c. c \<in> set digits) (dec (fst (resolve_code code)))"
  and default_text_one_line: "\<not> sublist [cr, lf] (snd (resolve_code code))"
proof -
  note m = reply_messages_plain[unfolded list_all_iff[of _ reply_messages], THEN bspec, OF resolve_code_mem[of code]]
  from m show "length (dec (fst (resolve_code code))) = 3" by (rule conjunct1)
  from m show "list_all (\<lambda>c. c \<in> set digits) (dec (fst (resolve_code code)))" by (elim conjE)
  from m have "cr \<notin> set (snd (resolve_code code))" by (elim conjE)
  then show "\<not> sublist [cr, lf] (snd (resolve_code code))" using sublist_mem by fast
qed

lemma digits_no_cr: "list_all (\<lambda>c. c \<in> set digits) d \<Longrightarrow> cr \<notin> set d"
  by (induction d) auto

lemma digits_line:
  assumes "list_all (\<lambda>c. c \<in> set digits) d" and "\<not> sublist [cr, lf] s" and "a \<noteq> cr"
  shows "\<not> sublist [cr, lf] (d @ a # s)"
  using assms(2,3) digits_no_cr[OF assms(1)] by (induction d) (auto simp: sublist_two_Cons)

text \<open>A reply of several lines is read up to its last line.\<close>

lemma read_multi_line:
  assumes d: "length d = 3" "list_all (\<lambda>c. c \<in> set digits) d" and m: "no_line_starts (d @ [space]) m"
  shows "read_reply ((d @ ''- '' @ m) @ crlf @ (d @ '' END'') @ crlf @ rest) = Some (d, rest)"
proof -
  let ?tag = "d @ [space]" and ?e = "d @ '' END''"
  have e: "prefix ?tag ?e" "\<not> sublist [cr, lf] ?e"
    using digits_line[OF d(2), of "''END''" space] by (auto simp: sublist_two_Cons)
  have line: "next_line ((d @ ''- '' @ l) @ cr # lf # r) = Some (d @ ''- '' @ l, r)" if "\<not> sublist [cr, lf] l" for l r
    using digits_line[OF d(2), of "space # l" "CHR ''-''"] that by (intro next_line_append) (simp add: sublist_two_Cons)
  show ?thesis
  proof (rule first_line[of m])
    assume "\<not> sublist [cr, lf] m"
    from line[OF this, of "?e @ crlf @ rest"] show ?thesis
      using d skip_to_tag[OF e, of rest] by (simp add: read_reply_def nth_append)
  next
    fix l r assume s: "m = l @ cr # lf # r" "\<not> sublist [cr, lf] l"
    have "skip_to ?tag (r @ crlf @ ?e @ crlf @ rest) = Some rest"
      using no_line_starts_rest[of ?tag l r] m s(1) e by (intro skip_to_end) simp_all
    then show ?thesis using line[OF s(2), of "r @ crlf @ ?e @ crlf @ rest"] d s(1)
      by (simp add: read_reply_def nth_append)
  qed
qed

text \<open>A reply can be read back as one reply. A client that follows RFC 959 and reads what \<open>Reply\<close> sends,
  followed by anything else, gets exactly this reply with its code and is left with what follows, when the text
  of a one-line reply has no line end and no further line of a longer text starts with the code and a space.
  \<open>FtpReplyText\<close> shows that the texts of the server are of this kind.\<close>

lemma framed_reply:
  assumes "if multi_line then no_line_starts (dec (fst (resolve_code code)) @ [space]) message
           else \<not> sublist [cr, lf] message"
  shows "read_reply (format_reply code message multi_line @ rest) = Some (dec (fst (resolve_code code)), rest)"
proof -
  define d where "d = dec (fst (resolve_code code))"
  define m where "m = (if message = [] then snd (resolve_code code) else message)"
  have d: "length d = 3" "list_all (\<lambda>c. c \<in> set digits) d" unfolding d_def by (rule reply_digits)+
  show ?thesis
  proof (cases multi_line)
    case False
    then have "\<not> sublist [cr, lf] m" using assms default_text_one_line by (simp add: m_def)
    then have "next_line ((d @ [space] @ m) @ cr # lf # rest) = Some (d @ [space] @ m, rest)"
      using digits_line[OF d(2), of m space] by (intro next_line_append) simp
    moreover have "format_reply code message multi_line @ rest = (d @ [space] @ m) @ cr # lf # rest"
      using False by (simp add: format_reply_def Let_def d_def m_def)
    ultimately show ?thesis using d by (simp add: read_reply_def nth_append d_def[symmetric])
  next
    case True
    have "no_line_starts (d @ [space]) m"
      using assms True default_text_one_line[of code] by (auto simp: m_def d_def no_line_starts_def sublist_def)
    note r = read_multi_line[OF d this, of rest]
    have "format_reply code message multi_line @ rest = (d @ ''- '' @ m) @ crlf @ (d @ '' END'') @ crlf @ rest"
      using True by (simp add: format_reply_def Let_def d_def m_def)
    then show ?thesis using r by (simp only: d_def)
  qed
qed

end
