(* ===== verification/FtpReplyText.thy ===== *)
theory FtpReplyText
  imports FtpControl FtpFraming
begin

text \<open>
  What the server itself puts into its replies: fixed texts, numbers, dates, the parameter of the request,
  the requested path, the current directory, tables and listings. The paths come from request lines,
  which hold no line end, and tables and listings start no line with a digit; so every reply that a
  session sends can be told from the next one by a client that follows RFC 959 (\<open>FtpFraming\<close>).
\<close>

section \<open>Texts that can be framed\<close>

text \<open>No line but the first starts with a digit.\<close>

fun indented :: "string \<Rightarrow> bool" where
  "indented (a # b # s) =
     ((a = cr \<and> b = lf \<longrightarrow> s = [] \<or> hd s \<notin> set digits) \<and> indented (b # s))"
| "indented s = True"

definition text_ok :: "bool \<Rightarrow> string \<Rightarrow> bool" where
  "text_ok multi_line message \<longleftrightarrow> (if multi_line then indented message else cr \<notin> set message)"

lemma indented_Cons: "a \<noteq> cr \<Longrightarrow> indented (a # s) = indented s"
  by (cases s) simp_all

lemma indented_append: "cr \<notin> set s \<Longrightarrow> indented (s @ t) = indented t"
  by (induction s) (auto simp: indented_Cons)

lemma indented_crlf [simp]: "indented (cr # lf # s) \<longleftrightarrow> (s = [] \<or> hd s \<notin> set digits) \<and> indented s"
  by (simp add: indented_Cons)

lemma indented_plain: "cr \<notin> set s \<Longrightarrow> indented s"
  using indented_append[of s "[]"] by simp

lemma indented_prefix: "indented (s @ t) \<Longrightarrow> indented s"
proof (induction s rule: indented.induct)
  case (1 a b s)
  then show ?case by (cases s) auto
qed simp_all

lemma indented_starts:
  assumes "indented s" and "hd tag \<in> set digits" and "tag \<noteq> []"
  shows "no_line_starts tag s"
  unfolding no_line_starts_def
proof (intro allI impI)
  fix l r assume s: "s = l @ cr # lf # r"
  have "indented (l @ cr # lf # r) \<Longrightarrow> indented (cr # lf # r)"
  proof (induction l)
    case (Cons a l)
    have "indented (a # x # y) \<Longrightarrow> indented (x # y)" for x y by simp
    then show ?case using Cons by (cases l) simp_all
  qed simp
  then have "r = [] \<or> hd r \<notin> set digits" using assms(1) s by simp
  then show "\<not> prefix tag r" using assms(2,3) by (cases r; cases tag) auto
qed

text \<open>A text that is in order makes a reply that can be read back, whatever follows it.\<close>

lemma framed_text:
  assumes "text_ok multi_line message"
  shows "read_reply (format_reply code message multi_line @ rest) = Some (dec (fst (resolve_code code)), rest)"
proof (rule framed_reply)
  let ?d = "dec (fst (resolve_code code))"
  have d: "?d \<noteq> []" "hd ?d \<in> set digits"
    using reply_digits[of code] by (cases ?d; auto)+
  show "if multi_line then no_line_starts (?d @ [space]) message else \<not> sublist [cr, lf] message"
    using assms d indented_starts[of message "?d @ [space]"] sublist_mem[of cr lf message]
    by (auto simp: text_ok_def)
qed

section \<open>Numbers, dates, tables and listings\<close>

lemma digit_not_cr: "d < 16 \<Longrightarrow> digit_char d \<noteq> cr"
proof -
  assume "d < 16"
  moreover have "list_all (\<lambda>d. digit_char d \<noteq> cr) [0..<16]" by code_simp
  ultimately show ?thesis by (simp add: list_all_iff)
qed

lemma dec_not_cr [simp]: "cr \<notin> set (dec n)"
proof (induction n rule: less_induct)
  case (less n)
  show ?case
  proof (cases "n < 10")
    case True
    then show ?thesis using digit_not_cr[of n] by (subst digits_in.simps) auto
  next
    case False
    have "n mod 10 < 16" using mod_less_divisor[of 10 n] by linarith
    then show ?thesis using False less[of "n div 10"] digit_not_cr[of "n mod 10"] by (subst digits_in.simps) auto
  qed
qed

lemma print_timeval_not_cr [simp]: "cr \<notin> set (print_timeval ops t)"
  by (auto simp: print_timeval_def Let_def dec_int_def pad_left_def)

lemma upper_not_cr: "cr \<notin> set s \<Longrightarrow> cr \<notin> set (map ascii_upper s)"
proof -
  have "ascii_upper c = cr \<Longrightarrow> c = cr" for c
  proof (rule ccontr)
    assume u: "ascii_upper c = cr" and "c \<noteq> cr"
    then have n: "97 \<le> (of_char c :: nat)" "(of_char c :: nat) \<le> 122" "char_of ((of_char c :: nat) - 32) = cr"
      by (auto simp: ascii_upper_def split: if_splits)
    have "(of_char (char_of ((of_char c :: nat) - 32) :: char) :: nat) = of_char cr" by (simp only: n(3))
    then show False using n(1,2) by (simp add: of_char_of)
  qed
  then show "cr \<notin> set s \<Longrightarrow> cr \<notin> set (map ascii_upper s)" by (metis image_iff set_map)
qed

text \<open>What \<open>STAT\<close> makes of a listing, whatever that holds.\<close>

lemma indented_indent: "indented (indent_lines s)"
proof (induction s)
  case (Cons c s)
  have cons: "indented (cr # indent_lines s)" if "indented (indent_lines s)"
    using that by (cases s) (auto simp: indent_lines_def indented_Cons)
  have lf: "indented (lf # space # indent_lines s)" using Cons by (simp add: indented_Cons)
  show ?case
  proof (cases "c = lf")
    case True
    then show ?thesis using lf by (simp add: indent_lines_def)
  next
    case False
    then have "indent_lines (c # s) = c # indent_lines s" by (simp add: indent_lines_def)
    then show ?thesis using Cons cons by (cases "c = cr") (auto simp: indented_Cons)
  qed
qed (simp add: indent_lines_def)

lemma stat_text_indented:
  assumes "cr \<notin> set param"
  shows "indented (param @ crlf @ take n (space # indent_lines s))"
proof -
  have "indented (take n (space # indent_lines s) @ drop n (space # indent_lines s))"
    using indented_indent[of s] by (simp add: indented_Cons)
  then have "indented (take n (space # indent_lines s))" by (rule indented_prefix)
  then show ?thesis by (cases n) (simp_all add: indented_append[OF assms])
qed

lemma help_text_indented:
  "indented (''Available commands:'' @ help_rows 0 (map fst (case dc_help default_ftp_cmds of None \<Rightarrow> [] | Some m \<Rightarrow> m)))"
  by code_simp

lemma feature_names_not_cr:
  "list_all (\<lambda>f. cr \<notin> set (fst f)) (case dc_feat default_ftp_cmds of None \<Rightarrow> [] | Some fs \<Rightarrow> fs)"
  by code_simp

lemma fact_list_not_cr [simp]: "cr \<notin> set (get_fact_list bits)"
  by (simp add: get_fact_list_def all_facts_def get_fact_name_def fact_names_def)

lemma feat_lines_indented: "list_all (\<lambda>f. cr \<notin> set (fst f)) fs \<Longrightarrow> indented (concat (map (feat_line st) fs))"
proof (induction fs)
  case (Cons f fs)
  then have "cr \<notin> set ('' '' @ (if snd f then ''MLST '' @ get_fact_list (st_mdtx st) else fst f))" by simp
  then show ?case using Cons by (simp add: feat_line_def indented_append indented_Cons)
qed simp

lemma command_texts_not_cr:
  "cr \<notin> set (get_name c)" "cr \<notin> set (get_help c)"
proof -
  have *: "cr \<notin> set (fst (cmd_data c)) \<and> cr \<notin> set (fst (snd (cmd_data c)))" by (cases c) simp_all
  show "cr \<notin> set (get_name c)" "cr \<notin> set (get_help c)" using * by (simp_all add: get_name_def get_help_def)
qed

text \<open>The facts of one path, with its name behind them: one line.\<close>

lemma mlsd_line:
  assumes "st_small (fl_st f)"
  obtains u where "mlsd_print ops facts old f = (space # u) @ fl_name f @ crlf" and "cr \<notin> set u"
proof -
  let ?d = "dec (fst_size (fl_st f))"
  have "length ?d \<le> 14" using assms by (intro length_digits) (auto simp: st_small_def)
  then have d: "snprintf16 old' ?d = ?d" for old' by (simp add: snprintf16_short)
  show ?thesis
    by (rule that[of "if is_enabled facts F_SIZE then ''Size='' @ ?d @ ''; '' else []"])
      (simp_all add: mlsd_print_size mlsd_fact_def d get_fact_name_def fact_names_def Let_def)
qed

lemma single_loop:
  fixes fs :: "('p, 'w) fs_ops"
  assumes "fl_dir (dl_fli d) = None" and "\<not> fl_is_eof (dl_fli d)" and "\<not> fl_have_vpath (dl_fli d)"
    and "\<not> dl_show_hidden d" and "dl_cur d = 0" and "dl_bytes_used d = 0" and "dl_format d = Mlsd_format facts"
    and "fl_name (dl_fli d) = name"
    and line: "line = mlsd_print ops facts (dl_buffer d) (fli_stat fs ops w (dl_fli d))"
  shows "dir_lister_get_buffer (snd (list_loop (Suc (Suc n)) fs ops w d)) =
    (if hidden_name name \<or> list_cap \<le> length name + 128 then [] else line)"
  using assms(1-8)
  by (simp add: fli_advance_def fli_not_end_def formatter_print_def dir_lister_get_buffer_def buf_put_def
      line Let_def)

lemma mlst_facts_line:
  assumes "dir_printable ops" and "get_mlst_facts fs ops garbage w facts path = Inr t" and "cr \<notin> set (p_vpath path)"
  shows "cr \<notin> set t \<and> (t = [] \<or> hd t = space)"
proof -
  let ?d = "dir_lister_single garbage (Mlsd_format facts) path"
  let ?f = "fli_stat fs ops w (fli_single path (p_vpath path))"
  have "st_small (fl_st ?f)"
    using stat_or_zero_small[OF assms(1), of w "p_ppath path"]
    by (simp add: fli_single_def fli_stat_def is_fake_def stat_or_zero_def)
  then obtain u where u: "mlsd_print ops facts garbage ?f = (space # u) @ p_vpath path @ crlf" "cr \<notin> set u"
    by (rule mlsd_line[of ?f ops facts garbage]) (simp add: fli_single_def)
  let ?line = "(space # u) @ p_vpath path @ crlf"
  have "dir_lister_get_buffer (snd (list_loop (Suc (Suc 0)) fs ops w (?d\<lparr>dl_bytes_used := 0\<rparr>))) = [] \<or>
    dir_lister_get_buffer (snd (list_loop (Suc (Suc 0)) fs ops w (?d\<lparr>dl_bytes_used := 0\<rparr>))) = ?line"
    using u(1) by (subst (1 2) single_loop) (auto simp: dir_lister_single_def fli_single_def)
  moreover have "fli_left (dl_fli ?d) = Suc 0"
    by (simp add: dir_lister_single_def fli_single_def fli_left_def)
  ultimately have "t = [] \<or> t = take (length ?line - 2) ?line"
    using assms(2) by (auto simp: get_mlst_facts_def dir_lister_list_def Let_def simp del: list_loop.simps
        split: prod.splits sum.splits if_splits)
  then show ?thesis using u(2) assms(3) by auto
qed

section \<open>Paths\<close>

text \<open>What the session resolves holds the characters of the request, of the current directory, and slashes.\<close>

lemma norm_loop_chars: "norm_loop parts s = Inr r \<Longrightarrow> set (concat r) \<subseteq> set (concat parts) \<union> set s"
proof (induction parts s rule: norm_loop.induct)
  case (2 parts c cs)
  from "2.prems" show ?case
  proof (cases rule: norm_loop_cases)
    case skip
    then show ?thesis using "2.IH"(1) by auto
  next
    case dot_end
    then show ?thesis using "2.IH"(2) by auto
  next
    case dot_slash
    then have "set (concat r) \<subseteq> set (concat parts) \<union> set (tl cs)" using "2.IH"(3) by blast
    with dot_slash show ?thesis by (cases cs) auto
  next
    case up
    then have "set (concat r) \<subseteq> set (concat (butlast parts)) \<union> set (if tl cs = [] then [] else tl (tl cs))"
      using "2.IH"(4) by blast
    moreover have "set (concat (butlast parts)) \<subseteq> set (concat parts)" by (auto dest: in_set_butlastD)
    ultimately show ?thesis by (cases cs; cases "tl cs") auto
  next
    case (part part rest)
    have "\<not> (c = dot \<and> cs = [])" "\<not> (c = dot \<and> hd cs = slash)" "\<not> (c = dot \<and> hd cs = dot)"
      using part(2) by auto
    then have "set (concat r) \<subseteq> set (concat (parts @ [part])) \<union> set rest"
      using "2.IH"(5)[of "(part, rest)" part rest] part by blast
    then show ?thesis using scan_part_split[OF part(3)] by (auto simp del: scan_part.simps)
  qed
qed simp

lemma split_not_cr: "cr \<notin> set s \<Longrightarrow> cr \<notin> set (concat (split_path s))"
  using split_path_chars by fastforce

lemma join_not_cr: "cr \<notin> set (concat ps) \<Longrightarrow> cr \<notin> set (join_parts ps)"
  by (induction ps rule: join_parts.induct) auto

lemma normalize_not_cr:
  assumes "normalize vpath cwd = Inr v" and "cr \<notin> set vpath" and "cr \<notin> set cwd"
  shows "cr \<notin> set v"
proof -
  obtain parts where p: "normalize_and_split vpath cwd = Inr parts" "v = to_vpath parts True"
    using assms(1) by (rule normalize_cases)
  have "cr \<notin> set (concat parts)"
    using p(1) assms(2) split_not_cr[OF assms(3)] norm_loop_chars[of "[]" vpath parts]
      norm_loop_chars[of "split_path cwd" vpath parts]
    by (simp add: normalize_and_split_def split: if_splits) blast+
  then show ?thesis using join_not_cr by (simp add: p(2) to_vpath_def)
qed

lemma subpath_not_cr:
  "cr \<notin> set vp \<Longrightarrow> cr \<notin> set (concat ps) \<Longrightarrow> cr \<notin> set (snd (subpath_loop fs pp vp ps))"
  by (induction ps arbitrary: pp vp) auto

lemma session_get_path_not_cr:
  assumes "session_ok s" and "session_get_path fs s vpath ty = Inr p" and "cr \<notin> set vpath" and "cr \<notin> set (ses_cwd s)"
  shows "cr \<notin> set (p_vpath p)"
proof -
  from assms(2) obtain v m r where
    v: "normalize vpath (ses_cwd s) = Inr v"
    and m: "permissions_get_path (ses_permissions s) v [] = Inr (m, r)"
    and p: "p = create_subpath fs m r ty" by (rule session_get_path_InrE)
  have ok: "mounts_ok (ses_permissions s)" using assms(1) by (simp add: session_ok_def)
  have "sublist (p_vpath m) v" "sublist r v"
    using wp.lookup_sound[OF ok m]
    by (auto intro: sublist_order.order.trans[OF sublist_dropWhile sublist_append_leftI])
  then have "cr \<notin> set (p_vpath m)" "cr \<notin> set r"
    using normalize_not_cr[OF v assms(3,4)] set_mono_sublist by blast+
  then have "cr \<notin> set (snd (subpath_loop fs (p_ppath m) (p_vpath m) (split_path r)))"
    by (intro subpath_not_cr split_not_cr)
  then show ?thesis unfolding p create_subpath_vpath by (simp add: make_valid_def)
qed

section \<open>What a handler answers\<close>

text \<open>The strings of the session that go into replies hold no line end.\<close>

definition lines_ok :: "('p, 'cl, 'w, 'am, 'os) ftp \<Rightarrow> bool" where
  "lines_ok x \<longleftrightarrow> cr \<notin> set (ses_cwd (fx_ses x)) \<and> cr \<notin> set (st_requested_path (fx_state x))"

definition fresh_reply :: "('p, 'cl, 'w, 'am, 'os) ftp \<Rightarrow> bool" where
  "fresh_reply x \<longleftrightarrow> lines_ok x \<and> rp_message (fx_reply x) = [] \<and> \<not> rp_multi_line (fx_reply x)"

definition worded :: "('p, 'cl, 'w, 'am, 'os) handled \<Rightarrow> bool" where
  "worded r \<longleftrightarrow> (case r of (_, x) \<Rightarrow> lines_ok x \<and> text_ok (rp_multi_line (fx_reply x)) (rp_message (fx_reply x)))"

lemma worded_simps [simp]:
  "fresh_reply x \<Longrightarrow> worded (r, x)"
  "fresh_reply x \<Longrightarrow> worded (r, answer c t x) \<longleftrightarrow> cr \<notin> set t"
  "fresh_reply x \<Longrightarrow> worded (r, answer_verbose c t x) \<longleftrightarrow> indented t"
  "fresh_reply x \<Longrightarrow> worded (r, x\<lparr>fx_reply := reply_end c b [] (fx_reply x)\<rparr>)"
  "worded (r, start_transfer f x) \<longleftrightarrow> worded (r, x)"
  "worded (r, fx_hung_update h x) \<longleftrightarrow> worded (r, x)"
  by (simp_all add: worded_def fresh_reply_def answer_def answer_verbose_def reply_end_def verbose_reply_def
      lines_ok_def start_transfer_def text_ok_def Let_def)

lemma worded_state [simp]:
  "st_requested_path st = st_requested_path (fx_state x) \<Longrightarrow> worded (r, x\<lparr>fx_state := st\<rparr>) \<longleftrightarrow> worded (r, x)"
  by (simp add: worded_def lines_ok_def)

lemma fresh_reply_simps [simp]:
  "st_requested_path st = st_requested_path (fx_state x) \<Longrightarrow> fresh_reply (x\<lparr>fx_state := st\<rparr>) \<longleftrightarrow> fresh_reply x"
  "fresh_reply (fx_os_update f1 x) \<longleftrightarrow> fresh_reply x" "fresh_reply (fx_disk_update f2 x) \<longleftrightarrow> fresh_reply x"
  "fresh_reply (fx_am_update f3 x) \<longleftrightarrow> fresh_reply x"
  "fresh_reply x \<Longrightarrow> cr \<notin> set p \<Longrightarrow> fresh_reply (set_requested_path p x)"
  "fresh_reply x \<Longrightarrow> cr \<notin> set (ses_cwd s) \<Longrightarrow> fresh_reply (x\<lparr>fx_ses := s\<rparr>)"
  by (simp_all add: fresh_reply_def lines_ok_def set_requested_path_def)

lemma fresh_reply_strings: "fresh_reply x \<Longrightarrow> cr \<notin> set (ses_cwd (fx_ses x)) \<and> cr \<notin> set (st_requested_path (fx_state x))"
  by (simp add: fresh_reply_def lines_ok_def)

lemma refused_worded [simp]:
  assumes "fresh_reply x" and "list_all (\<lambda>(e, t). cr \<notin> set t) clauses"
  shows "worded (refused clauses e x)"
proof -
  have "cr \<notin> set t" if "map_of clauses e = Some t" for t
    using map_of_SomeD[OF that] assms(2) by (auto simp: list_all_iff)
  then show ?thesis using assms(1) by (auto simp: refused_def split: option.split)
qed

lemma list_failed_worded [simp]: "fresh_reply x \<Longrightarrow> worded (list_failed e x)"
  by (simp add: list_failed_def)

lemma open_and_start_worded: "fresh_reply x \<Longrightarrow> worded (open_and_start env operation x)"
  by (simp add: open_and_start_def on_disk_def split: prod.splits sum.splits)

lemma disk_command_worded:
  "fresh_reply x \<Longrightarrow> list_all (\<lambda>(e, t). cr \<notin> set t) clauses \<Longrightarrow> worded (disk_command f clauses x)"
  by (simp add: disk_command_def on_disk_def split: prod.splits sum.splits)

lemma on_stat_worded: "fresh_reply x \<Longrightarrow> cr \<notin> set param \<Longrightarrow> worded (on_stat env param x)"
proof -
  assume x: "fresh_reply x" and p: "cr \<notin> set param"
  have "indented (param @ crlf @ (if b then take n (space # indent_lines s) else []))" for b n s
    using stat_text_indented[OF p, of n s] stat_text_indented[OF p, of 0 s] by simp
  then have "worded (on_stat_list env param x)"
    using x by (simp add: on_stat_list_def Let_def split: prod.splits sum.splits option.splits)
  moreover have "worded (on_stat_state x)"
    using x fresh_reply_strings[OF x] by (simp add: on_stat_state_def show_type_def Let_def)
  ultimately show ?thesis by (simp add: on_stat_def)
qed

lemma on_opts_worded: "fresh_reply x \<Longrightarrow> worded (on_opts match x)"
proof -
  assume x: "fresh_reply x"
  have "worded (on_opts_default x)" using x by (simp add: on_opts_default_def)
  moreover have "worded (on_opts_mlst q x)" for q
    using x by (auto simp: on_opts_mlst_def all_facts_def get_fact_name_def fact_names_def Let_def)
  ultimately show ?thesis using on_opts_cases[of match x] by metis
qed

lemma on_pasv_worded: "fresh_reply x \<Longrightarrow> worded (on_pasv env x)"
proof -
  assume x: "fresh_reply x"
  obtain r y where y: "(if st_pasv (fx_state x) = None
            then pasv_listen env (x\<lparr>fx_state := (fx_state x)\<lparr>st_pasv := Some None\<rparr>\<rparr>)
            else (Inr (), x)) = (r, y)" by fastforce
  have "fresh_reply y" using y x
    by (auto simp: pasv_listen_def split: if_splits sum.splits prod.splits)
  then show ?thesis unfolding on_pasv_def y
    by (cases r) (auto simp: pasv_text_def set_pasv_def split: option.splits address.splits)
qed

lemma change_dir_worded:
  assumes "fresh_reply x" and "session_ok (fx_ses x)" and "cr \<notin> set path"
  shows "worded (change_dir env path x)"
proof -
  obtain r s where s: "session_set_cwd (e_fs env) (fx_disk x) path (fx_ses x) = (r, s)" by fastforce
  have "cr \<notin> set (ses_cwd s)"
  proof (cases "session_get_path (e_fs env) (fx_ses x) path DIRECTORY")
    case (Inr dir)
    have "cr \<notin> set (p_vpath dir)"
      by (rule session_get_path_not_cr[OF assms(2) Inr assms(3)]) (use fresh_reply_strings[OF assms(1)] in simp)
    then show ?thesis using s fresh_reply_strings[OF assms(1)]
      by (cases "path_exists (e_fs env) (fx_disk x) dir") (auto simp: session_set_cwd_def Inr split: if_splits)
  qed (use s fresh_reply_strings[OF assms(1)] in \<open>auto simp: session_set_cwd_def\<close>)
  then show ?thesis using assms(1)
    by (simp add: change_dir_def s session_get_cwd_def Let_def split: sum.split)
qed

lemma on_mlst_worded:
  assumes "fresh_reply x" and "session_ok (fx_ses x)" and "cr \<notin> set param" and "dir_printable (e_dirs env)"
  shows "worded (on_mlst env param x)"
proof (cases "session_get_path (e_fs env) (fx_ses x) param ANY")
  case (Inr path)
  have p: "cr \<notin> set (p_vpath path)"
    by (rule session_get_path_not_cr[OF assms(2) Inr assms(3)]) (use fresh_reply_strings[OF assms(1)] in simp)
  have "indented (''Listing '' @ param @ crlf @ t)"
    if "get_mlst_facts (e_fs env) (e_dirs env) (e_garbage env) (fx_disk x) (st_mdtx (fx_state x)) path = Inr t" for t
  proof -
    have t: "cr \<notin> set t" "t = [] \<or> hd t = space" using mlst_facts_line[OF assms(4) that p] by simp_all
    have "indented (crlf @ t)" using t by (auto simp: indented_plain)
    then show ?thesis using indented_append[of "''Listing '' @ param" "crlf @ t"] assms(3) by simp
  qed
  then show ?thesis using assms(1) by (auto simp: on_mlst_def Inr Let_def split: sum.splits if_splits)
qed (use assms(1) in \<open>simp add: on_mlst_def\<close>)

lemma on_files_worded:
  assumes "fresh_reply x" and "cr \<notin> set param"
  shows "worded (on_size env param x)" "worded (on_mdtm env param x)" "worded (on_rnfr env param x)"
    "worded (on_rest env param x)" "worded (on_allo env param x)" "worded (on_port env match x)"
proof -
  show "worded (on_mdtm env param x)"
  proof (cases "session_get_path (e_fs env) (fx_ses (set_requested_path param x)) param FILE")
    case (Inr path)
    have "cr \<notin> set t" if "get_rfc3659_file_time (e_dirs env) w path = Inr t" for w t
      using that by (auto simp: get_rfc3659_file_time_def split: if_splits option.splits)
    then show ?thesis using assms Inr
      by (auto simp: on_mdtm_def Let_def split: sum.splits option.splits if_splits)
  qed (use assms in \<open>simp add: on_mdtm_def Let_def\<close>)
qed (use assms in \<open>simp_all add: on_size_def on_rnfr_def on_rest_def on_allo_def on_port_def set_port_def Let_def
    split: sum.split option.split bool.split\<close>)

lemma on_help_worded:
  assumes "fresh_reply x" and "cr \<notin> set param"
  shows "worded (on_help param x)"
  using assms help_text_indented upper_not_cr[OF assms(2)] command_texts_not_cr
  by (simp add: on_help_def Let_def split: option.split)

lemma on_feat_worded: "fresh_reply x \<Longrightarrow> worded (on_feat x)"
  using feat_lines_indented[OF feature_names_not_cr, of "fx_state x"]
  by (simp add: on_feat_def Let_def indented_append indented_Cons)

lemma on_authenticate_worded:
  assumes "fresh_reply x"
  shows "worded (on_authenticate env name pwd rejected x)"
proof -
  obtain r am s where a: "authenticate_with_passwd (e_auth env) name pwd (fx_am x, fx_ses x) = (r, am, s)"
    by (metis prod_cases3)
  have "ses_cwd s = ses_cwd (fx_ses x)"
    using a by (auto simp: authenticate_with_passwd_def session_set_permissions_def Let_def
        split: if_splits sum.splits prod.splits option.splits)
  then show ?thesis using assms fresh_reply_strings[OF assms]
    by (simp add: on_authenticate_def a Let_def split: sum.split bool.split)
qed

lemma on_list_worded:
  assumes "fresh_reply x" and "cr \<notin> set param" and "cr \<notin> set (fst (e_uuid env (fx_os x)))"
  shows "worded (on_list env param x)" "worded (on_nlst env param x)" "worded (on_mlsd env param x)"
    "worded (on_retr_stor env operation param x)" "worded (on_appe env param x)" "worded (on_stou env x)"
proof -
  obtain uuid os where u: "e_uuid env (fx_os x) = (uuid, os)" by fastforce
  show "worded (on_list env param x)" "worded (on_nlst env param x)" "worded (on_mlsd env param x)"
    "worded (on_retr_stor env operation param x)" "worded (on_appe env param x)" "worded (on_stou env x)"
    using assms u
    by (simp_all add: on_list_def on_nlst_def on_mlsd_def on_retr_stor_def on_appe_def on_stou_def open_and_start_worded
        Let_def split: prod.split sum.split)
qed

lemma on_cmd_worded:
  assumes "fresh_reply x" and "session_ok (fx_ses x)" and "cr \<notin> set param" and "dir_printable (e_dirs env)"
    and "cr \<notin> set (fst (e_uuid env (fx_os x)))"
  shows "worded (on_cmd env cmd param match x)"
  using assms
  by (cases cmd)
    (simp_all add: on_retr_def on_stor_def on_dele_def on_mkd_def on_rmd_def on_rnto_def on_cwd_def on_cdup_def
      on_quit_def on_abor_def on_syst_def on_type_def on_noop_def on_pwd_def on_auth_def on_pbsz_def on_prot_def
      on_user_def on_pass_def show_type_def set_abort_def session_get_cwd_def Let_def fresh_reply_strings
      disk_command_worded on_stat_worded on_opts_worded on_pasv_worded change_dir_worded on_mlst_worded on_files_worded
      on_help_worded on_feat_worded on_authenticate_worded on_list_worded)

section \<open>What a session sends\<close>

definition framed :: "string \<Rightarrow> bool" where
  "framed m \<longleftrightarrow> (\<exists>code message multi_line. m = format_reply code message multi_line \<and> text_ok multi_line message)"

definition told :: "('p, 'cl, 'w, 'am, 'os) ftp \<Rightarrow> bool" where
  "told x \<longleftrightarrow> lines_ok x \<and> list_all framed (fx_sent x)"

lemma told_updates [simp]:
  "told (fx_reply_update g1 x) = told x" "told (fx_prev_cmd_update g2 x) = told x" "told (fx_curr_cmd_update g3 x) = told x"
  "told (fx_file_update g4 x) = told x" "told (fx_phase_update g5 x) = told x" "told (fx_abort_update g6 x) = told x"
  "told (fx_transfer_open_update g7 x) = told x" "told (fx_close_pending_update g8 x) = told x"
  "told (fx_closed_update g9 x) = told x" "told (fx_socket_open_update h1 x) = told x" "told (fx_expired_update h2 x) = told x"
  "told (fx_hung_update h3 x) = told x" "told (fx_last_touch_update h4 x) = told x" "told (fx_tasks_update h5 x) = told x"
  "told (fx_am_update h6 x) = told x" "told (fx_disk_update h7 x) = told x" "told (fx_os_update h8 x) = told x"
  "st_requested_path st = st_requested_path (fx_state x) \<Longrightarrow> told (x\<lparr>fx_state := st\<rparr>) = told x"
  "ses_cwd s = ses_cwd (fx_ses x) \<Longrightarrow> told (x\<lparr>fx_ses := s\<rparr>) = told x"
  by (simp_all add: told_def lines_ok_def)

lemma told_on_file: "on_file call x = (r, y) \<Longrightarrow> told y = told x"
  by (simp add: told_def lines_ok_def on_file_fields)

lemma told_snd_on_file [simp]: "told (snd (on_file call x)) = told x"
  by (rule told_on_file[OF prod.collapse[symmetric]])

lemma told_send: "told x \<Longrightarrow> text_ok multi message \<Longrightarrow> told (ftp_send env code message multi x)"
  by (auto simp: ftp_send_def told_def lines_ok_def framed_def Let_def split: prod.split bool.split)

lemma told_plain [simp]: "told x \<Longrightarrow> cr \<notin> set message \<Longrightarrow> told (ftp_send env code message False x)"
  by (rule told_send) (simp_all add: text_ok_def)

lemma told_abort [simp]: "told (run_abort a x) = told x"
  by (simp add: run_abort_def split: abort_action.split)

lemma told_close: "told x \<Longrightarrow> told (ftp_do_close x)"
  by (simp add: ftp_do_close_def ftp_close_def Let_def split: option.split)

lemma run_handler_told:
  assumes "told x" and "session_ok (fx_ses x)" and "cr \<notin> set param" and "dir_printable (e_dirs env)"
    and "\<And>os. cr \<notin> set (fst (e_uuid env os))"
  shows "told (run_handler env cmd param match x)"
proof -
  let ?x = "x\<lparr>fx_reply := ftp_reply_new\<rparr>"
  obtain r y where y: "on_cmd env cmd param match ?x = (r, y)" by fastforce
  have "fresh_reply ?x" using assms(1) by (simp add: fresh_reply_def ftp_reply_new_def told_def lines_ok_def)
  then have "worded (r, y)" using on_cmd_worded[of ?x param env cmd match] assms(2-5) by (simp add: y)
  moreover have "fx_sent y = fx_sent x" using on_cmd_conn[of env cmd param match ?x] by (simp add: y conn_def)
  ultimately have t: "told y" and m: "text_ok (rp_multi_line (fx_reply y)) (rp_message (fx_reply y))"
    using assms(1) by (simp_all add: worded_def told_def)
  show ?thesis using t m
    by (simp add: run_handler_def y told_send get_reply_def ftp_close_def Let_def split: sum.split option.split)
qed

lemma gate_refusal_not_cr: "gate_refusal cmd x = Some (code, message) \<Longrightarrow> cr \<notin> set message"
  using command_texts_not_cr[of cmd] by (auto simp: gate_refusal_def split: if_splits)

lemma process_request_told:
  assumes "told x" and "session_ok (fx_ses x)" and "cr \<notin> set request" and "dir_printable (e_dirs env)"
    and "\<And>os. cr \<notin> set (fst (e_uuid env os))"
  shows "told (process_request env request x)"
proof -
  have "cr \<notin> set (dropWhile (\<lambda>c. c = space) (drop n request))" for n
    using assms(3) by (auto dest!: set_dropWhileD in_set_dropD)
  then have "told (run_handler env cmd (dropWhile (\<lambda>c. c = space) (drop n request)) match (x\<lparr>fx_curr_cmd := name\<rparr>))"
    for cmd n match name
    by (intro run_handler_told) (use assms in simp_all)
  then show ?thesis using assms(1)
    by (auto simp: process_request_def on_command_def Let_def dest: gate_refusal_not_cr
        split: sum.split option.split prod.split)
qed

section \<open>The transfer\<close>

lemma transfer_told [simp]:
  "told (reset_file env x) = told x" "told x \<Longrightarrow> told (notify_failed env x)"
  "told (cleanup_transfer env x) = told x" "told (transfer_returned env x) = told x"
  "told x \<Longrightarrow> told (transfer_threw env x)" "told (transfer_touch env x) = told x"
  "told x \<Longrightarrow> told (transfer_enter env x)" "told (start_tls ok x) = told x"
proof -
  show r: "told (reset_file env x) = told x" for x by (simp add: reset_file_def)
  show n: "told x \<Longrightarrow> told (notify_failed env x)" for x by (simp add: notify_failed_def Let_def)
  show c: "told (cleanup_transfer env x) = told x" for x
    by (simp add: cleanup_transfer_def Let_def r reset_transfer_def)
  show t: "told (transfer_returned env x) = told x" for x by (simp add: transfer_returned_def c)
  show "told x \<Longrightarrow> told (transfer_threw env x)" by (simp add: transfer_threw_def t)
  show "told (transfer_touch env x) = told x" by (simp add: transfer_touch_def Let_def)
  show "told x \<Longrightarrow> told (transfer_enter env x)" by (simp add: transfer_enter_def n t)
  show "told (start_tls ok x) = told x" by (simp add: start_tls_def)
qed

lemma transfer_done_told:
  assumes "told x" and "cr \<notin> set verb"
  shows "told (transfer_done env verb x)"
proof -
  obtain r y where y: "on_file (tf_close env) (x\<lparr>fx_transfer_open := Some False\<rparr>) = (r, y)" by fastforce
  have "told y" using told_on_file[OF y] assms(1) by simp
  moreover from this have "cr \<notin> set (st_requested_path (fx_state y))" by (simp add: told_def lines_ok_def)
  ultimately show ?thesis using assms(2) by (simp add: transfer_done_def y split: sum.split)
qed

lemma send_step_told:
  assumes "told x"
  shows "told (snd (send_step env sent x))"
proof -
  obtain r y where y: "on_file (\<lambda>(f, w). case tf_read env w f of (r, f) \<Rightarrow> (r, f, w)) x = (r, y)" by fastforce
  have "told y" using told_on_file[OF y] assms by simp
  then show ?thesis using assms by (simp add: send_step_def y transfer_done_told split: sum.split)
qed

lemma receive_step_told:
  assumes "told x"
  shows "told (receive_step env event shutdown_ok x)"
proof -
  obtain r y where y: "on_file (tf_write env) x = (r, y)" by fastforce
  have t: "told y" using told_on_file[OF y] assms by simp
  have f: "told (case on_file call z of (Inl e, x) \<Rightarrow> transfer_threw env x | (Inr u, x) \<Rightarrow> g x)"
    if "told z" and "\<And>x. told x \<Longrightarrow> told (g x)" for call :: "_ \<Rightarrow> (exn + unit) \<times> _" and z g
  proof -
    obtain r1 y1 where y1: "on_file call z = (r1, y1)" by fastforce
    show ?thesis using told_on_file[OF y1] that by (simp add: y1 split: sum.split)
  qed
  show ?thesis
    by (cases r; cases event) (simp_all add: receive_step_def y t f transfer_done_told Let_def)
qed

lemma transfer_step_told: "transfer_step env x y \<Longrightarrow> told x \<Longrightarrow> told y"
  by (induction rule: transfer_step.induct)
     (simp_all add: send_step_told receive_step_told transfer_begin_def transfer_connect_def transfer_secure_def
        reset_transfer_def Let_def)

lemma task_step_told: "task_step env x y \<Longrightarrow> told x \<Longrightarrow> told y"
  by (induction rule: task_step.induct) (simp_all add: transfer_step_told)

lemma manager_event_told: "manager_event x y \<Longrightarrow> told y = told x"
  by (induction rule: manager_event.induct)
    (auto simp: session_on_housekeeping_def session_update_idle_time_def Let_def split: if_splits)

section \<open>The stream of replies\<close>

lemma framed_read:
  assumes "framed m"
  shows "read_reply (m @ rest) = Some (take 3 m, rest)" and "m \<noteq> []"
proof -
  from assms obtain code message multi_line
    where m: "m = format_reply code message multi_line" "text_ok multi_line message" by (auto simp: framed_def)
  have "take 3 m = dec (fst (resolve_code code))" "m \<noteq> []"
    using reply_digits(1)[of code] by (simp_all add: m(1) format_reply_def Let_def)
  then show "read_reply (m @ rest) = Some (take 3 m, rest)" "m \<noteq> []"
    using framed_text[OF m(2), of code rest] by (simp_all add: m(1))
qed

lemma framed_stream: "list_all framed ms \<Longrightarrow> read_replies (concat ms) = Some (map (take 3) ms)"
proof (induction ms)
  case (Cons m ms)
  then show ?case using framed_read(1)[of m "concat ms"] framed_read(2)[of m] by (subst read_replies.simps) simp
qed (simp add: read_replies.simps)

lemma control_own_told:
  assumes "control_own env (pc, inp, segs, x) (pc', inp', segs', y)" and "told x" and "session_ok (fx_ses x)"
    and "pc \<noteq> Ctl_done \<longrightarrow> reader_ok inp" and "dir_printable (e_dirs env)" and "\<And>os. cr \<notin> set (fst (e_uuid env os))"
  shows "told y"
  using assms(1)
proof cases
  case (ctl_request request)
  have "no_eol request" using reader_ok_fetch(1)[OF _ ctl_request(5) refl] assms(4) ctl_request(1) by simp
  then show ?thesis using ctl_request assms by (simp add: process_request_told)
next
  case (ctl_throws e)
  then show ?thesis using assms(2) by (simp add: told_close too_long_message_def)
next
  case ctl_task
  then show ?thesis using assms(2) task_step_told by blast
qed (use assms(2) in \<open>simp_all add: told_close\<close>)

lemma control_reach_told:
  assumes "control_reach env ok c" and "mount_provider (e_auth env) ok" and "dir_printable (e_dirs env)"
    and "\<And>os. cr \<notin> set (fst (e_uuid env os))"
  shows "told (snd (snd (snd c)))"
  using assms(1)
proof induction
  case (control_start perms am garbage segs g time_out w os)
  show ?case unfolding handle_connection_def snd_conv
    by (rule told_plain) (simp_all add: told_def lines_ok_def ftp_new_def ftp_state_new_def wfde_session_new_def
        session_set_permissions_def)
next
  case (control_next c c')
  have inv: "control_inv env ok c" by (rule control_reach_inv[OF control_next.hyps(1)])
  show ?case using control_next.hyps(2)
  proof cases
    case ctl_own
    obtain pc inp segs x where c: "c = (pc, inp, segs, x)" by (metis prod_cases4)
    obtain pc' inp' segs' y where c': "c' = (pc', inp', segs', y)" by (metis prod_cases4)
    have "ftp_reach env ok x" "pc \<noteq> Ctl_done \<longrightarrow> reader_ok inp" using inv by (simp_all add: control_inv_def c)
    moreover from this(1) have "session_ok (fx_ses x)" by (rule ftp_inv_session_ok[OF reach_inv[OF _ assms(2)]])
    ultimately show ?thesis
      using control_own_told[OF ctl_own[unfolded c c'] _ _ _ assms(3,4)] control_next.IH by (simp add: c c')
  next
    case (ctl_event x y pc inp segs)
    then show ?thesis using control_next.IH manager_event_told by fastforce
  next
    case (ctl_outside x y pc inp segs)
    then show ?thesis using control_next.IH by (auto simp: outside_step_iff)
  qed
qed

text \<open>C33: the replies can be told from each other. Whatever the client sends and however the control connection
  is interleaved with the tasks of the session, the session manager and the other sessions: a client that
  follows RFC 959 and reads the stream of all that was written to the control connection finds exactly the
  replies that were sent, each with its code. This holds for every text the server puts into a
  reply, names, paths and \<open>STAT\<close> listings included, when the authentication manager gives out well-formed
  mounts, times and sizes are of this age, and the names \<open>STOU\<close> makes up hold no carriage return.\<close>
theorem replies_framed:
  assumes "control_reach env ok (pc, inp, segs, x)" and "mount_provider (e_auth env) ok"
    and "dir_printable (e_dirs env)" and "\<And>os. cr \<notin> set (fst (e_uuid env os))"
  shows "read_replies (concat (fx_sent x)) = Some (map (take 3) (fx_sent x))"
proof (rule framed_stream)
  show "list_all framed (fx_sent x)" using control_reach_told[OF assms] by (simp add: told_def)
qed

text \<open>The greeting, and the features, a reply of several lines.\<close>

theorem replies_framed_witness:
  "\<exists>inp segs x. control_reach demo_env am_served (Ctl_test, inp, segs, x)
     \<and> read_replies (concat (fx_sent x)) = Some [''220'', ''211'']"
proof -
  obtain inp segs where
    1: "control_reach demo_env am_served (Ctl_test, inp, segs, process_request demo_env ''FEAT'' demo_connected)"
    by (rule demo_line_reach[of "''FEAT''"]) (simp_all add: input_cap_def)
  have 2: "dir_printable (e_dirs demo_env)" "\<And>os. cr \<notin> set (fst (e_uuid demo_env os))"
    using demo_dirs_printable by (simp_all add: demo_env_def)
  have "map (take 3) (fx_sent (process_request demo_env ''FEAT'' demo_connected)) = [''220'', ''211'']" by code_simp
  with replies_framed[OF 1 demo_provider 2] 1 show ?thesis by auto
qed

end
