(* ===== verification/FtpCases.thy ===== *)
theory FtpCases
  imports FtpTheorems
begin

text \<open>
  Single commands and their corner cases: how a request is taken apart, the numbers of PASV and PORT, a
  refused RNFR and a passive transfer whose connection fails.
\<close>

section \<open>The name of a command\<close>

lemma default_commands_name:
  assumes "default_commands n = Some cmd"
  shows "n = get_name cmd" and "length n \<in> {3, 4}"
proof -
  have "(n, cmd) \<in> set (map (\<lambda>c. (get_name c, c)) (dc_commands default_ftp_cmds))"
    using assms unfolding default_commands_def by (rule map_of_SomeD)
  then show "n = get_name cmd" by auto
  then show "length n \<in> {3, 4}" by (cases cmd) (simp_all add: get_name_def)
qed

lemma default_commands_all: "default_commands (get_name cmd) = Some cmd"
  by (cases cmd) (simp_all add: default_commands_code get_name_def)

text \<open>The command of a request. \<open>GetFtpCommand\<close> finds a command exactly when the letters the request
  begins with, in any mixture of cases, spell its name; all 36 commands can be reached; what follows
  the letters does not matter; and the limit of eight letters never hides a command.\<close>
theorem get_ftp_command_iff:
  "get_ftp_command request = Inr (name, cmd) \<longleftrightarrow>
     name = get_name cmd \<and> map ascii_upper (takeWhile is_alpha request) = get_name cmd"
proof -
  let ?n = "map ascii_upper (takeWhile is_alpha request)"
  show ?thesis
  proof (cases "default_commands ?n")
    case None
    then have "?n \<noteq> get_name cmd" using default_commands_all[of cmd] by (metis option.distinct(1))
    then show ?thesis using None by (simp add: get_ftp_command_def Let_def)
  next
    case (Some c)
    note n = default_commands_name[OF Some]
    have "?n \<noteq> []" "length ?n \<le> max_cmd_name_length" using n(2) by (auto simp: max_cmd_name_length_def)
    then have "get_ftp_command request = Inr (?n, c)"
      unfolding get_ftp_command_def Let_def using Some by (simp del: map_is_Nil_conv length_map)
    moreover have "?n = get_name cmd \<longleftrightarrow> c = cmd"
      using n(1) Some default_commands_all[of cmd] by (metis option.inject)
    ultimately show ?thesis using n(1) by auto
  qed
qed

section \<open>PASV and PORT\<close>

lemma split_any_sep: "c \<in> set seps \<Longrightarrow> set d \<inter> set seps = {} \<Longrightarrow> split_any seps (d @ c # s) = d # split_any seps s"
  by (induction d) auto

lemma split_any_end: "set d \<inter> set seps = {} \<Longrightarrow> split_any seps d = [d]"
  by (induction d) auto

lemma digit_char_no_comma: "k < 10 \<Longrightarrow> digit_char k \<noteq> CHR '',''"
proof
  assume k: "k < 10" and "digit_char k = CHR '',''"
  then have "char_of (48 + k) = CHR '',''" by (simp add: digit_char_def)
  then have "(of_char (char_of (48 + k)) :: nat) = of_char (CHR '','')" by (rule arg_cong)
  then show False using k by (simp only: of_char_of) simp
qed

lemma dec_no_comma: "CHR '','' \<notin> set (dec n)"
proof (induction n rule: less_induct)
  case (less n)
  show ?case
  proof (cases "n < 10")
    case True
    then show ?thesis using digit_char_no_comma[of n] by (subst digits_in.simps) simp
  next
    case False
    then have "CHR '','' \<notin> set (dec (n div 10))" by (intro less) simp
    then show ?thesis using False digit_char_no_comma[of "n mod 10"] by (subst digits_in.simps) auto
  qed
qed

lemma port_bytes:
  fixes port :: "16 word"
  shows "push_bit 8 (ucast (ucast (drop_bit 8 port AND 0xff) :: 8 word)) OR ucast (ucast (port AND 0xff) :: 8 word) = port"
proof -
  have m: "(0xff :: 16 word) = mask 8" by (simp add: mask_eq_exp_minus_1)
  show ?thesis unfolding m by (rule bit_word_eqI) (auto simp: bit_simps)
qed

text \<open>C34: the numbers of PASV are those of PORT. The text that answers PASV names six numbers; when a
  client hands these to PORT, taken apart at the commas, the address and the port that PORT notes
  for the data connection are those that PASV announced, for every address and every port. The
  hypotheses are the documented conversions of numbers below 256 and of a dotted address.\<close>
theorem pasv_port_roundtrip:
  fixes a b c d :: "8 word" and port :: "16 word"
  assumes "\<And>n. n < 256 \<Longrightarrow> e_lexical16 env (dec n) = Some (of_nat n)"
    and "e_make_address env (dec (unat a) @ ''.'' @ dec (unat b) @ ''.'' @ dec (unat c) @ ''.'' @ dec (unat d))
      = Some (a, b, c, d)"
  shows "\<exists>numbers. pasv_text (a, b, c, d) port = ''Entering Passive Mode ('' @ numbers @ '')''
    \<and> st_port_endpoint (fx_state (snd (on_port env (numbers # split_any [CHR '',''] numbers) x))) = (V4 (a, b, c, d), port)"
proof -
  let ?p1 = "drop_bit 8 port AND 0xff" and ?p2 = "port AND 0xff"
  let ?n = "dec (unat a) @ '','' @ dec (unat b) @ '','' @ dec (unat c) @ '','' @ dec (unat d) @ '',''
    @ dec (unat ?p1) @ '','' @ dec (unat ?p2)"
  have split: "split_any [CHR '',''] ?n
      = [dec (unat a), dec (unat b), dec (unat c), dec (unat d), dec (unat ?p1), dec (unat ?p2)]"
    using dec_no_comma by (simp add: split_any_sep split_any_end)
  have "?p1 \<le> 0xff" "?p2 \<le> 0xff" by (rule word_and_le1)+
  then have "unat ?p1 < 256" "unat ?p2 < 256" by (simp_all add: word_le_nat_alt)
  then have lex: "e_lexical16 env (dec (unat ?p1)) = Some ?p1" "e_lexical16 env (dec (unat ?p2)) = Some ?p2"
    using assms(1) by simp_all
  have "snd (on_port env (?n # split_any [CHR '',''] ?n) x)
      = answer RC_OK [] (x\<lparr>fx_state := set_port (V4 (a, b, c, d), port) (fx_state x)\<rparr>)"
    unfolding split on_port_def using lex assms(2) port_bytes[of port] by (simp add: Let_def)
  then have "st_port_endpoint (fx_state (snd (on_port env (?n # split_any [CHR '',''] ?n) x))) = (V4 (a, b, c, d), port)"
    by (simp add: set_port_def)
  moreover have "pasv_text (a, b, c, d) port = ''Entering Passive Mode ('' @ ?n @ '')''"
    by (simp add: pasv_text_def)
  ultimately show ?thesis by blast
qed
definition demo_number :: "string \<Rightarrow> nat" where
  "demo_number s = foldl (\<lambda>n c. 10 * n + (of_char c - 48)) 0 s"

lemma demo_number_dec: "demo_number (dec n) = n"
proof (induction n rule: less_induct)
  case (less n)
  have digit: "(of_char (digit_char k) :: nat) - 48 = k" if "k < 10" for k
    using that by (simp add: digit_char_def of_char_of del: of_char_eq_iff)
  show ?case
  proof (cases "n < 10")
    case True
    then show ?thesis using digit[of n] by (subst digits_in.simps) (simp add: demo_number_def)
  next
    case False
    then have "demo_number (dec (n div 10)) = n div 10" by (intro less) simp
    then show ?thesis using False digit[of "n mod 10"] by (subst digits_in.simps) (simp add: demo_number_def)
  qed
qed

theorem pasv_port_roundtrip_witness:
  "\<exists>numbers. pasv_text (127, 0, 0, 1) 2121 = ''Entering Passive Mode ('' @ numbers @ '')''
    \<and> st_port_endpoint (fx_state (snd (on_port
          (demo_env\<lparr>e_lexical16 := (\<lambda>s. Some (of_nat (demo_number s))), e_make_address := (\<lambda>s. Some (127, 0, 0, 1))\<rparr>)
          (numbers # split_any [CHR '',''] numbers) demo_connected))) = (V4 (127, 0, 0, 1), 2121)"
  by (rule pasv_port_roundtrip) (simp_all add: demo_number_dec)

section \<open>RNFR and RNTO\<close>

text \<open>A rejected RNFR does not take back an earlier one. When the handler of RNFR answers 550, the path
  of an earlier RNFR is still noted and RNFR still counts as the previous command, so that RNTO passes
  its gates and renames the file of the earlier RNFR.\<close>
theorem rejected_rnfr_not_forgotten:
  assumes "gate_refusal Cmd_rnfr x = None" and "\<not> fx_hung x"
    and "rp_code (fx_reply (snd (on_rnfr env param (x\<lparr>fx_reply := ftp_reply_new\<rparr>)))) = RC_ACTION_NOT_TAKEN"
    and "fst (on_rnfr env param (x\<lparr>fx_reply := ftp_reply_new\<rparr>)) = Inr ()"
  shows "gate_refusal Cmd_rnto (run_handler env Cmd_rnfr param match x) = None
    \<and> st_rnfr (fx_state (run_handler env Cmd_rnfr param match x)) = st_rnfr (fx_state x)"
proof -
  let ?x = "x\<lparr>fx_reply := ftp_reply_new\<rparr>" and ?y = "run_handler env Cmd_rnfr param match x"
  obtain t where h: "on_rnfr env param ?x = (Inr (), answer RC_ACTION_NOT_TAKEN t ?x)"
    using assms(3,4) by (auto simp: on_rnfr_def refused_def answer_def reply_end_def Let_def split: sum.splits bool.splits if_splits)
  have y: "fx_prev_cmd ?y = ''RNFR''" "st_rnfr (fx_state ?y) = st_rnfr (fx_state x)"
    "st_is_logged_in (fx_state ?y) = st_is_logged_in (fx_state x)" "st_transfer (fx_state ?y) = st_transfer (fx_state x)"
    using assms(2) unfolding run_handler_def on_cmd.simps h
    by (simp_all add: Let_def get_reply_def answer_def reply_end_def ftp_reply_new_def get_name_def)
  have "st_is_logged_in (fx_state x)" "\<not> is_in_transfer (fx_state x)"
    using gates_passed[OF assms(1)] by (simp_all add: must_be_logged_in_def must_not_be_in_transfer_def)
  then show ?thesis using y by (simp add: gate_refusal_def cmd_gates is_in_transfer_def)
qed

theorem rejected_rnfr_not_forgotten_witness:
  "gate_refusal Cmd_rnto (run_handler demo_env Cmd_rnfr ''none'' [] (after_requests [''USER bob'', ''PASS pw'', ''RNFR a''])) = None
    \<and> fx_disk (after_requests [''USER bob'', ''PASS pw'', ''RNFR a'', ''RNFR none'', ''RNTO c''])
        = [([''srv'', ''c''], Reg ''alpha''), ([''srv'', ''b''], Reg ''beta'')]"
proof
  let ?x = "after_requests [''USER bob'', ''PASS pw'', ''RNFR a'']"
  have 1: "gate_refusal Cmd_rnfr ?x = None" "\<not> fx_hung ?x" by code_simp+
  have 2: "rp_code (fx_reply (snd (on_rnfr demo_env ''none'' (?x\<lparr>fx_reply := ftp_reply_new\<rparr>)))) = RC_ACTION_NOT_TAKEN"
    "fst (on_rnfr demo_env ''none'' (?x\<lparr>fx_reply := ftp_reply_new\<rparr>)) = Inr ()" by code_simp+
  show "gate_refusal Cmd_rnto (run_handler demo_env Cmd_rnfr ''none'' [] ?x) = None"
    by (rule rejected_rnfr_not_forgotten[OF 1 2, THEN conjunct1])
  show "fx_disk (after_requests [''USER bob'', ''PASS pw'', ''RNFR a'', ''RNFR none'', ''RNTO c''])
        = [([''srv'', ''c''], Reg ''alpha''), ([''srv'', ''b''], Reg ''beta'')]" by code_simp
qed

section \<open>A passive transfer without a connection\<close>

lemma cleanup_fields:
  "fx_abort (cleanup_transfer env x) = fx_abort x" "fx_closed (cleanup_transfer env x) = fx_closed x"
  "fx_expired (cleanup_transfer env x) = fx_expired x" "fx_phase (cleanup_transfer env x) = Phase_none"
  "st_pasv (fx_state (cleanup_transfer env x)) = None"
  unfolding cleanup_transfer_def Let_def
  by (subst reset_file_frame; simp add: reset_transfer_def)+

text \<open>A failed accept leaves a function that follows a null pointer. When accepting the data connection
  of a passive transfer fails, the transfer is over and its acceptor is gone, but \<open>abort_transfer_\<close>
  still is the function that closes this acceptor; closing the control connection next calls it and
  follows the null pointer \<open>state_.pasv\<close>.\<close>
lemma failed_accept_dangles:
  assumes "fx_phase x = Phase_connecting" and "fx_abort x = Some Abort_accept" and "\<not> fx_closed x" and "\<not> fx_expired x"
  shows "fx_phase (transfer_connect env False x) = Phase_none
    \<and> st_pasv (fx_state (transfer_connect env False x)) = None
    \<and> fx_abort (transfer_connect env False x) = Some Abort_accept
    \<and> fx_hung (ftp_do_close (transfer_connect env False x))"
  using assms
  by (simp add: transfer_connect_def cleanup_fields ftp_do_close_def ftp_close_def run_abort_def Let_def)

lemma failed_accept_dangles_demo:
  "fx_hung (ftp_do_close (transfer_connect demo_env False
     (transfer_begin demo_env (after_requests [''USER bob'', ''PASS pw'', ''PASV'', ''RETR a'']))))"
proof -
  let ?x = "transfer_begin demo_env (after_requests [''USER bob'', ''PASS pw'', ''PASV'', ''RETR a''])"
  have 1: "fx_phase ?x = Phase_connecting" "fx_abort ?x = Some Abort_accept" "\<not> fx_closed ?x" "\<not> fx_expired ?x"
    by code_simp+
  show ?thesis using failed_accept_dangles[OF 1, of demo_env] by (elim conjE)
qed

end
