(* ===== verification/WfdeSocket.thy ===== *)
theory WfdeSocket
  imports Prelude
begin

text \<open>
  The sockets of connections: the class \<open>Socket\<close> of \<open>include/wfde/wfde.h\<close> as the record of its operations,
  and its two implementations, \<open>src/wfde/WfdeSocket.h\<close> for plain TCP and \<open>src/wfde/WfdeTlsSocket.h\<close> for
  TCP that can be switched to TLS. Both hand everything to \<open>boost::asio\<close>, whose calls are the record
  \<open>asio_ops\<close> of parameters; \<open>'k\<close> is the state of a socket of asio with its SSL stream, \<open>'e\<close> an endpoint.
  The locale \<open>channel\<close> is what a protocol relies on when it writes to a socket.
\<close>

section \<open>asio\<close>

text \<open>Where a read or a write goes: to the TCP socket itself or to the SSL stream that owns it.\<close>

datatype layer = In_clear | Encrypted

record ('k, 'e, 'p) asio_ops =
  as_connect :: "'k \<Rightarrow> 'e \<Rightarrow> (exn + unit) \<times> 'k"
  as_read :: "layer \<Rightarrow> 'k \<Rightarrow> nat \<Rightarrow> (exn + string) \<times> 'k"
  as_read_some :: "layer \<Rightarrow> 'k \<Rightarrow> nat \<Rightarrow> (exn + string) \<times> 'k"
  as_write :: "layer \<Rightarrow> 'k \<Rightarrow> string \<Rightarrow> (exn + unit) \<times> 'k"
  as_handshake :: "'k \<Rightarrow> (exn + unit) \<times> 'k"
  as_shutdown :: "'k \<Rightarrow> (exn + unit) \<times> 'k"
  as_close :: "'k \<Rightarrow> (exn + unit) \<times> 'k"
  as_is_open :: "'k \<Rightarrow> bool"
  as_native_handle :: "'k \<Rightarrow> 32 word"
  as_local_endpoint :: "'k \<Rightarrow> exn + 'e"
  as_remote_endpoint :: "'k \<Rightarrow> exn + 'e"
  as_no_endpoint :: 'e
  as_use_certificate :: "'p \<Rightarrow> exn + unit"
  as_use_private_key :: "'p \<Rightarrow> exn + unit"

section \<open>The interface\<close>

text \<open>The virtual functions of \<open>Socket\<close>, over the socket object \<open>'s\<close>; the accessors of the pipeline and of the socket of asio are left out.\<close>

record ('s, 'e, 'p) socket_ops =
  so_get_socket_val :: "'s \<Rightarrow> 32 word"
  so_get_name :: "'s \<Rightarrow> string"
  so_read_some :: "nat \<Rightarrow> 's \<Rightarrow> (exn + string) \<times> 's"
  so_read :: "nat \<Rightarrow> 's \<Rightarrow> (exn + string) \<times> 's"
  so_write :: "string \<Rightarrow> 's \<Rightarrow> (exn + unit) \<times> 's"
  so_write_buffers :: "string list \<Rightarrow> 's \<Rightarrow> (exn + unit) \<times> 's"
  so_connect :: "'e \<Rightarrow> 's \<Rightarrow> (exn + unit) \<times> 's"
  so_shutdown :: "'s \<Rightarrow> (exn + unit) \<times> 's"
  so_close :: "'s \<Rightarrow> (exn + unit) \<times> 's"
  so_is_open :: "'s \<Rightarrow> bool"
  so_get_local_endpoint :: "'s \<Rightarrow> 'e"
  so_get_remote_endpoint :: "'s \<Rightarrow> 'e"
  so_upgrade_to_tls :: "'s \<Rightarrow> (exn + unit) \<times> 's"
  so_get_cert_path :: "'s \<Rightarrow> 'p option"

text \<open>An endpoint that cannot be had is the default one.\<close>

definition endpoint_or_none :: "('k, 'e, 'p) asio_ops \<Rightarrow> exn + 'e \<Rightarrow> 'e" where
  "endpoint_or_none ops r = (case r of Inr e \<Rightarrow> e | Inl _ \<Rightarrow> as_no_endpoint ops)"

section \<open>Plain sockets\<close>

record 'k wfde_socket =
  sk_socket :: 'k
  sk_id :: string

definition wfde_socket_new :: "string \<Rightarrow> 'k \<Rightarrow> 'k wfde_socket" where
  "wfde_socket_new uuid k = \<lparr>sk_socket = k, sk_id = uuid\<rparr>"

definition on_socket :: "('k \<Rightarrow> 'r \<times> 'k) \<Rightarrow> 'k wfde_socket \<Rightarrow> 'r \<times> 'k wfde_socket" where
  "on_socket call s = (case call (sk_socket s) of (r, k) \<Rightarrow> (r, s\<lparr>sk_socket := k\<rparr>))"

definition wfde_socket_ops :: "('k, 'e, 'p) asio_ops \<Rightarrow> ('k wfde_socket, 'e, 'p) socket_ops" where
  "wfde_socket_ops ops =
     \<lparr>so_get_socket_val = (\<lambda>s. as_native_handle ops (sk_socket s)),
      so_get_name = sk_id,
      so_read_some = (\<lambda>n. on_socket (\<lambda>k. as_read_some ops In_clear k n)),
      so_read = (\<lambda>n. on_socket (\<lambda>k. as_read ops In_clear k n)),
      so_write = (\<lambda>d. on_socket (\<lambda>k. as_write ops In_clear k d)),
      so_write_buffers = (\<lambda>ds. on_socket (\<lambda>k. as_write ops In_clear k (concat ds))),
      so_connect = (\<lambda>ep. on_socket (\<lambda>k. as_connect ops k ep)),
      so_shutdown = (\<lambda>s. (Inr (), s)),
      so_close = on_socket (as_close ops),
      so_is_open = (\<lambda>s. as_is_open ops (sk_socket s)),
      so_get_local_endpoint = (\<lambda>s. endpoint_or_none ops (as_local_endpoint ops (sk_socket s))),
      so_get_remote_endpoint = (\<lambda>s. endpoint_or_none ops (as_remote_endpoint ops (sk_socket s))),
      so_upgrade_to_tls = (\<lambda>s. (Inl ExceptionNotImplemented, s)),
      so_get_cert_path = (\<lambda>s. None)\<rparr>"

section \<open>Sockets that can use TLS\<close>

record ('k, 'p) wfde_tls_socket =
  ts_id :: string
  ts_using_tls :: bool
  ts_ssl_socket :: 'k
  ts_cert_path :: 'p

text \<open>The constructor with \<open>InitSocket\<close>; \<open>k\<close> is the new SSL stream. A certificate that cannot be read throws.\<close>

definition wfde_tls_socket_new ::
    "('k, 'e, 'p) asio_ops \<Rightarrow> string \<Rightarrow> 'p \<Rightarrow> 'k \<Rightarrow> exn + ('k, 'p) wfde_tls_socket" where
  "wfde_tls_socket_new ops uuid cert k =
     bindE (as_use_certificate ops cert) (\<lambda>_.
       bindE (as_use_private_key ops cert) (\<lambda>_.
         Inr \<lparr>ts_id = uuid, ts_using_tls = False, ts_ssl_socket = k, ts_cert_path = cert\<rparr>))"

definition on_stream :: "('k \<Rightarrow> 'r \<times> 'k) \<Rightarrow> ('k, 'p) wfde_tls_socket \<Rightarrow> 'r \<times> ('k, 'p) wfde_tls_socket" where
  "on_stream call s = (case call (ts_ssl_socket s) of (r, k) \<Rightarrow> (r, s\<lparr>ts_ssl_socket := k\<rparr>))"

definition ts_layer :: "('k, 'p) wfde_tls_socket \<Rightarrow> layer" where
  "ts_layer s = (if ts_using_tls s then Encrypted else In_clear)"

definition tls_shutdown ::
    "('k, 'e, 'p) asio_ops \<Rightarrow> ('k, 'p) wfde_tls_socket \<Rightarrow> (exn + unit) \<times> ('k, 'p) wfde_tls_socket" where
  "tls_shutdown ops s =
     (if \<not> ts_using_tls s then (Inr (), s)
      else bindS (on_stream (as_shutdown ops) s) (\<lambda>_ s. (Inr (), s\<lparr>ts_using_tls := False\<rparr>)))"

definition tls_upgrade ::
    "('k, 'e, 'p) asio_ops \<Rightarrow> ('k, 'p) wfde_tls_socket \<Rightarrow> (exn + unit) \<times> ('k, 'p) wfde_tls_socket" where
  "tls_upgrade ops s =
     bindS (on_stream (as_handshake ops) s) (\<lambda>_ s. (Inr (), s\<lparr>ts_using_tls := True\<rparr>))"

definition wfde_tls_socket_ops :: "('k, 'e, 'p) asio_ops \<Rightarrow> (('k, 'p) wfde_tls_socket, 'e, 'p) socket_ops" where
  "wfde_tls_socket_ops ops =
     \<lparr>so_get_socket_val = (\<lambda>s. as_native_handle ops (ts_ssl_socket s)),
      so_get_name = ts_id,
      so_read_some = (\<lambda>n s. on_stream (\<lambda>k. as_read_some ops (ts_layer s) k n) s),
      so_read = (\<lambda>n s. on_stream (\<lambda>k. as_read ops (ts_layer s) k n) s),
      so_write = (\<lambda>d s. on_stream (\<lambda>k. as_write ops (ts_layer s) k d) s),
      so_write_buffers = (\<lambda>ds s. on_stream (\<lambda>k. as_write ops (ts_layer s) k (concat ds)) s),
      so_connect = (\<lambda>ep. on_stream (\<lambda>k. as_connect ops k ep)),
      so_shutdown = tls_shutdown ops,
      so_close = on_stream (as_close ops),
      so_is_open = (\<lambda>s. as_is_open ops (ts_ssl_socket s)),
      so_get_local_endpoint = (\<lambda>s. endpoint_or_none ops (as_local_endpoint ops (ts_ssl_socket s))),
      so_get_remote_endpoint = (\<lambda>s. endpoint_or_none ops (as_remote_endpoint ops (ts_ssl_socket s))),
      so_upgrade_to_tls = tls_upgrade ops,
      so_get_cert_path = (\<lambda>s. Some (ts_cert_path s))\<rparr>"

text \<open>
  What the accept loop of an interface creates (\<open>src/wfde/WfdeInterface.cpp\<close>), and in the same way a
  transfer for its data connection: the socket depends on whether there is a certificate.
\<close>

definition new_socket ::
    "('k, 'e, 'p) asio_ops \<Rightarrow> string \<Rightarrow> 'p option \<Rightarrow> 'k \<Rightarrow> exn + ('k wfde_socket + ('k, 'p) wfde_tls_socket)" where
  "new_socket ops uuid cert k =
     (case cert of
        Some c \<Rightarrow> bindE (wfde_tls_socket_new ops uuid c k) (\<lambda>s. Inr (Inr s))
      | None \<Rightarrow> Inr (Inl (wfde_socket_new uuid k)))"

section \<open>Calls\<close>

text \<open>A call on a socket through the interface, and what it gives.\<close>

datatype 'e socket_call =
    Call_get_socket_val | Call_get_name | Call_read_some nat | Call_read nat | Call_write string
  | Call_write_buffers "string list" | Call_connect 'e | Call_shutdown | Call_close | Call_is_open
  | Call_get_local_endpoint | Call_get_remote_endpoint | Call_upgrade_to_tls | Call_get_cert_path

datatype ('e, 'p) socket_answer =
    Answer_done | Answer_threw exn | Answer_bytes string | Answer_handle "32 word" | Answer_name string
  | Answer_open bool | Answer_endpoint 'e | Answer_cert_path "'p option"

definition answer_unit :: "(exn + unit) \<times> 's \<Rightarrow> ('e, 'p) socket_answer \<times> 's" where
  "answer_unit = map_prod (case_sum Answer_threw (\<lambda>_. Answer_done)) id"

definition answer_bytes :: "(exn + string) \<times> 's \<Rightarrow> ('e, 'p) socket_answer \<times> 's" where
  "answer_bytes = map_prod (case_sum Answer_threw Answer_bytes) id"

fun run_call :: "('s, 'e, 'p) socket_ops \<Rightarrow> 'e socket_call \<Rightarrow> 's \<Rightarrow> ('e, 'p) socket_answer \<times> 's" where
  "run_call so Call_get_socket_val s = (Answer_handle (so_get_socket_val so s), s)"
| "run_call so Call_get_name s = (Answer_name (so_get_name so s), s)"
| "run_call so (Call_read_some n) s = answer_bytes (so_read_some so n s)"
| "run_call so (Call_read n) s = answer_bytes (so_read so n s)"
| "run_call so (Call_write d) s = answer_unit (so_write so d s)"
| "run_call so (Call_write_buffers ds) s = answer_unit (so_write_buffers so ds s)"
| "run_call so (Call_connect ep) s = answer_unit (so_connect so ep s)"
| "run_call so Call_shutdown s = answer_unit (so_shutdown so s)"
| "run_call so Call_close s = answer_unit (so_close so s)"
| "run_call so Call_is_open s = (Answer_open (so_is_open so s), s)"
| "run_call so Call_get_local_endpoint s = (Answer_endpoint (so_get_local_endpoint so s), s)"
| "run_call so Call_get_remote_endpoint s = (Answer_endpoint (so_get_remote_endpoint so s), s)"
| "run_call so Call_upgrade_to_tls s = answer_unit (so_upgrade_to_tls so s)"
| "run_call so Call_get_cert_path s = (Answer_cert_path (so_get_cert_path so s), s)"

fun run_calls :: "('s, 'e, 'p) socket_ops \<Rightarrow> 'e socket_call list \<Rightarrow> 's \<Rightarrow> ('e, 'p) socket_answer list \<times> 's" where
  "run_calls so [] s = ([], s)"
| "run_calls so (c # cs) s =
     (case run_call so c s of (a, s) \<Rightarrow> (case run_calls so cs s of (as, s) \<Rightarrow> (a # as, s)))"

text \<open>A TLS socket that has not been upgraded stands for a plain socket.\<close>

definition not_upgraded :: "('k, 'p) wfde_tls_socket \<Rightarrow> 'k wfde_socket \<Rightarrow> bool" where
  "not_upgraded t s \<longleftrightarrow> \<not> ts_using_tls t \<and> ts_ssl_socket t = sk_socket s \<and> ts_id t = sk_id s"

lemmas socket_defs = wfde_socket_ops_def wfde_tls_socket_ops_def answer_unit_def answer_bytes_def
  on_stream_def on_socket_def tls_shutdown_def tls_upgrade_def ts_layer_def bindS_def

lemma not_upgraded_call:
  assumes "not_upgraded t s" and "c \<noteq> Call_upgrade_to_tls" and "c \<noteq> Call_get_cert_path"
  shows "fst (run_call (wfde_tls_socket_ops ops) c t) = fst (run_call (wfde_socket_ops ops) c s)
    \<and> not_upgraded (snd (run_call (wfde_tls_socket_ops ops) c t)) (snd (run_call (wfde_socket_ops ops) c s))"
  using assms by (cases c) (auto simp: not_upgraded_def socket_defs split: prod.splits)

lemma not_upgraded_calls:
  assumes "not_upgraded t s" and "Call_upgrade_to_tls \<notin> set cs" and "Call_get_cert_path \<notin> set cs"
  shows "fst (run_calls (wfde_tls_socket_ops ops) cs t) = fst (run_calls (wfde_socket_ops ops) cs s)
    \<and> not_upgraded (snd (run_calls (wfde_tls_socket_ops ops) cs t)) (snd (run_calls (wfde_socket_ops ops) cs s))"
  using assms
proof (induction cs arbitrary: t s)
  case (Cons c cs)
  have "c \<noteq> Call_upgrade_to_tls" "c \<noteq> Call_get_cert_path" using Cons.prems(2,3) by auto
  note c = not_upgraded_call[OF Cons.prems(1) this, of ops]
  have "Call_upgrade_to_tls \<notin> set cs" "Call_get_cert_path \<notin> set cs" using Cons.prems(2,3) by simp_all
  note IH = Cons.IH[OF conjunct2[OF c] this]
  show ?case using c IH by (simp add: case_prod_beta)
qed simp

text \<open>C36: without an upgrade the two kinds of socket do the same, and only two calls tell them apart. Whatever
  calls a protocol makes on them, apart from \<open>UpgradeToTls\<close> and \<open>GetCertPath\<close>, a TLS socket that is
  not using TLS gives the same answers, exceptions included, as a plain socket over the same TCP
  socket, and both leave it in the same state. \<open>GetCertPath\<close> changes neither, and gives the path of the
  certificate for the one and none for the other, by which a transfer chooses the kind of its socket;
  \<open>UpgradeToTls\<close> throws for the plain socket, which it leaves as it was.\<close>
theorem tls_socket_plain:
  assumes "not_upgraded t s" and "Call_upgrade_to_tls \<notin> set cs" and "Call_get_cert_path \<notin> set cs"
  shows "fst (run_calls (wfde_tls_socket_ops ops) cs t) = fst (run_calls (wfde_socket_ops ops) cs s)
    \<and> not_upgraded (snd (run_calls (wfde_tls_socket_ops ops) cs t)) (snd (run_calls (wfde_socket_ops ops) cs s))
    \<and> run_call (wfde_tls_socket_ops ops) Call_get_cert_path t = (Answer_cert_path (Some (ts_cert_path t)), t)
    \<and> run_call (wfde_socket_ops ops) Call_get_cert_path s = (Answer_cert_path None, s)
    \<and> run_call (wfde_socket_ops ops) Call_upgrade_to_tls s = (Answer_threw ExceptionNotImplemented, s)"
proof (intro conjI)
  note r = not_upgraded_calls[OF assms, of ops]
  show "fst (run_calls (wfde_tls_socket_ops ops) cs t) = fst (run_calls (wfde_socket_ops ops) cs s)" by (rule conjunct1[OF r])
  show "not_upgraded (snd (run_calls (wfde_tls_socket_ops ops) cs t)) (snd (run_calls (wfde_socket_ops ops) cs s))"
    by (rule conjunct2[OF r])
qed (simp_all add: wfde_tls_socket_ops_def wfde_socket_ops_def answer_unit_def)

section \<open>What is written\<close>

text \<open>
  \<open>wire k\<close> is what the peer of the socket has been sent, in chunks, each with the layer it was written to.
  A write sends its data, or a part of it when it fails; nothing else sends data of the caller.
\<close>

definition asio_lawful :: "('k, 'e, 'p) asio_ops \<Rightarrow> ('k \<Rightarrow> (layer \<times> string) list) \<Rightarrow> bool" where
  "asio_lawful ops wire \<longleftrightarrow>
     (\<forall>l k d. case as_write ops l k d of
        (Inr _, k') \<Rightarrow> wire k' = wire k @ [(l, d)]
      | (Inl _, k') \<Rightarrow> \<exists>n. wire k' = wire k @ [(l, take n d)])
     \<and> (\<forall>l k n. wire (snd (as_read_some ops l k n)) = wire k \<and> wire (snd (as_read ops l k n)) = wire k)
     \<and> (\<forall>k ep. wire (snd (as_connect ops k ep)) = wire k) \<and> (\<forall>k. wire (snd (as_handshake ops k)) = wire k)
     \<and> (\<forall>k. wire (snd (as_shutdown ops k)) = wire k) \<and> (\<forall>k. wire (snd (as_close ops k)) = wire k)"

text \<open>
  The contract: \<open>layer_of\<close> is where a socket writes to, \<open>stream\<close> its state of asio. A write goes to that
  layer and does not change it; only upgrading does, when it succeeds.
\<close>

locale channel =
  fixes so :: "('k, 'e, 'p) asio_ops \<Rightarrow> ('s, 'e, 'p) socket_ops"
    and stream :: "'s \<Rightarrow> 'k"
    and layer_of :: "'s \<Rightarrow> layer"
  assumes write_done: "asio_lawful ops wire \<Longrightarrow> so_write_buffers (so ops) ds s = (Inr u, s') \<Longrightarrow>
      layer_of s' = layer_of s \<and> wire (stream s') = wire (stream s) @ [(layer_of s, concat ds)]"
    and write_failed: "asio_lawful ops wire \<Longrightarrow> so_write_buffers (so ops) ds s = (Inl e, s') \<Longrightarrow>
      layer_of s' = layer_of s \<and> (\<exists>n. wire (stream s') = wire (stream s) @ [(layer_of s, take n (concat ds))])"
    and write_one: "so_write (so ops) d s = so_write_buffers (so ops) [d] s"
    and close_keeps: "asio_lawful ops wire \<Longrightarrow> so_close (so ops) s = (r, s') \<Longrightarrow>
      layer_of s' = layer_of s \<and> wire (stream s') = wire (stream s)"
    and upgrade_done: "asio_lawful ops wire \<Longrightarrow> so_upgrade_to_tls (so ops) s = (Inr u, s') \<Longrightarrow>
      layer_of s' = Encrypted \<and> wire (stream s') = wire (stream s)"
    and upgrade_failed: "asio_lawful ops wire \<Longrightarrow> so_upgrade_to_tls (so ops) s = (Inl e, s') \<Longrightarrow>
      layer_of s' = layer_of s \<and> wire (stream s') = wire (stream s)"

lemma asio_lawfulD:
  assumes "asio_lawful ops wire"
  shows "as_write ops l k d = (Inr u, k') \<Longrightarrow> wire k' = wire k @ [(l, d)]"
    and "as_write ops l k d = (Inl e, k') \<Longrightarrow> \<exists>n. wire k' = wire k @ [(l, take n d)]"
    and "as_handshake ops k = (r, k') \<Longrightarrow> wire k' = wire k" and "as_close ops k = (r, k') \<Longrightarrow> wire k' = wire k"
proof -
  have w: "case as_write ops l k d of
        (Inr _, k') \<Rightarrow> wire k' = wire k @ [(l, d)] | (Inl _, k') \<Rightarrow> \<exists>n. wire k' = wire k @ [(l, take n d)]"
    by (rule spec[OF spec[OF spec[OF conjunct1[OF assms[unfolded asio_lawful_def]]]]])
  show "as_write ops l k d = (Inr u, k') \<Longrightarrow> wire k' = wire k @ [(l, d)]"
    and "as_write ops l k d = (Inl e, k') \<Longrightarrow> \<exists>n. wire k' = wire k @ [(l, take n d)]"
    using w by simp_all
  have "wire (snd (as_handshake ops k)) = wire k" "wire (snd (as_close ops k)) = wire k"
    using assms by (simp_all add: asio_lawful_def)
  then show "as_handshake ops k = (r, k') \<Longrightarrow> wire k' = wire k" and "as_close ops k = (r, k') \<Longrightarrow> wire k' = wire k" by simp_all
qed

interpretation plain_channel: channel wfde_socket_ops sk_socket "\<lambda>_. In_clear"
  by unfold_locales
     (auto simp: wfde_socket_ops_def on_socket_def split: prod.splits dest: asio_lawfulD)

interpretation tls_channel: channel wfde_tls_socket_ops ts_ssl_socket ts_layer
  by unfold_locales
     (auto simp: wfde_tls_socket_ops_def on_stream_def ts_layer_def tls_upgrade_def bindS_def
        split: prod.splits sum.splits dest: asio_lawfulD)

section \<open>A network for the witnesses\<close>

text \<open>A socket of asio that is open or not and remembers what it was given to send; the handshake works.\<close>

definition demo_asio :: "(bool \<times> (layer \<times> string) list, nat, string) asio_ops" where
  "demo_asio =
     \<lparr>as_connect = (\<lambda>k ep. (Inr (), True, snd k)),
      as_read = (\<lambda>l k n. (Inr (replicate n space), k)), as_read_some = (\<lambda>l k n. (Inr [space], k)),
      as_write = (\<lambda>l k d. if fst k then (Inr (), fst k, snd k @ [(l, d)]) else (Inl ExceptionLibrary, fst k, snd k @ [(l, [])])),
      as_handshake = (\<lambda>k. (Inr (), k)), as_shutdown = (\<lambda>k. (Inr (), k)), as_close = (\<lambda>k. (Inr (), False, snd k)),
      as_is_open = fst, as_native_handle = (\<lambda>k. 3), as_local_endpoint = (\<lambda>k. if fst k then Inr 21 else Inl ExceptionLibrary),
      as_remote_endpoint = (\<lambda>k. Inl ExceptionLibrary), as_no_endpoint = 0,
      as_use_certificate = (\<lambda>p. if p = [] then Inl ExceptionLibrary else Inr ()), as_use_private_key = (\<lambda>p. Inr ())\<rparr>"

lemma demo_asio_lawful: "asio_lawful demo_asio snd"
  by (auto simp: asio_lawful_def demo_asio_def intro: exI[of _ 0])

definition demo_tls_socket :: "(bool \<times> (layer \<times> string) list, string) wfde_tls_socket" where
  "demo_tls_socket = \<lparr>ts_id = ''a'', ts_using_tls = False, ts_ssl_socket = (True, []), ts_cert_path = ''cert''\<rparr>"

theorem tls_socket_plain_witness:
  "fst (run_calls (wfde_tls_socket_ops demo_asio) [Call_write ''x'', Call_shutdown, Call_close, Call_get_local_endpoint] demo_tls_socket)
     = [Answer_done, Answer_done, Answer_done, Answer_endpoint 0]"
proof -
  let ?cs = "[Call_write ''x'', Call_shutdown, Call_close, Call_get_local_endpoint]"
  have 1: "not_upgraded demo_tls_socket (wfde_socket_new ''a'' (True, []))"
    by (simp add: not_upgraded_def demo_tls_socket_def wfde_socket_new_def)
  have 2: "Call_upgrade_to_tls \<notin> set ?cs" "Call_get_cert_path \<notin> set ?cs" by simp_all
  have "fst (run_calls (wfde_socket_ops demo_asio) ?cs (wfde_socket_new ''a'' (True, [])))
      = [Answer_done, Answer_done, Answer_done, Answer_endpoint 0]" by code_simp
  then show ?thesis using conjunct1[OF tls_socket_plain[OF 1 2, of demo_asio]] by simp
qed

end
