(* ===== verification/FtpSecure.thy ===== *)
theory FtpSecure
  imports FtpReplies WfdeSocket
begin

text \<open>
  The control connection on its socket. The FTP session writes replies and upgrades to TLS through the
  interface of \<open>WfdeSocket\<close>; its flag \<open>st_cc_is_encrypted\<close> and the flag of the socket are set apart from each other.
  The session is put on a socket here, and both are shown to agree: what the client was told is what
  went over the wire, and nothing goes over it in clear once the connection counts as encrypted.
\<close>

section \<open>What a step says\<close>

text \<open>
  What matters to the socket: the state of the network, the replies, whether one failed, and whether the
  connection counts as encrypted. All that changes it, but for the switch to TLS, are writes, and the calls
  for a unique name and for a port to listen on.
\<close>

definition voice ::
    "('p, 'cl, 'w, 'am, 'os) ftp \<Rightarrow> 'os \<times> string list \<times> bool \<times> bool" where
  "voice x = (fx_os x, fx_sent x, fx_reply_failed x, st_cc_is_encrypted (fx_state x))"

inductive talk ::
    "('p, 'w, 'am, 'cl, 'os) ftp_env \<Rightarrow> 'os \<times> string list \<times> bool \<times> bool \<Rightarrow> 'os \<times> string list \<times> bool \<times> bool \<Rightarrow> bool"
  for env v where
  talk_nothing: "talk env v v"
| talk_sent: "talk env v (os, sent, False, b) \<Longrightarrow> e_write env os m = (True, os') \<Longrightarrow> talk env v (os', sent @ [m], False, b)"
| talk_failed: "talk env v (os, sent, False, b) \<Longrightarrow> e_write env os m = (False, os') \<Longrightarrow> talk env v (os', sent, True, b)"
| talk_uuid: "talk env v (os, sent, failed, b) \<Longrightarrow> e_uuid env os = (u, os') \<Longrightarrow> talk env v (os', sent, failed, b)"
| talk_listen: "talk env v (os, sent, failed, b) \<Longrightarrow> e_listen env os a = (r, os') \<Longrightarrow> talk env v (os', sent, failed, b)"

lemma voice_updates [simp]:
  "voice (fx_ses_update g1 x) = voice x" "voice (fx_reply_update g3 x) = voice x"
  "voice (fx_prev_cmd_update g4 x) = voice x" "voice (fx_curr_cmd_update g5 x) = voice x" "voice (fx_file_update g6 x) = voice x"
  "voice (fx_phase_update g7 x) = voice x" "voice (fx_abort_update g8 x) = voice x" "voice (fx_transfer_open_update g9 x) = voice x"
  "voice (fx_close_pending_update h1 x) = voice x" "voice (fx_socket_open_update h2 x) = voice x"
  "voice (fx_hung_update h3 x) = voice x" "voice (fx_last_touch_update h4 x) = voice x" "voice (fx_tasks_update h5 x) = voice x"
  "voice (fx_closed_update h6 x) = voice x" "voice (fx_expired_update h7 x) = voice x"
  "voice (fx_am_update h8 x) = voice x" "voice (fx_disk_update h9 x) = voice x"
  by (simp_all add: voice_def)

lemma voice_state: "st_cc_is_encrypted s = st_cc_is_encrypted (fx_state x) \<Longrightarrow> voice (x\<lparr>fx_state := s\<rparr>) = voice x"
  by (simp add: voice_def)

lemma talk_send:
  assumes "talk env v (voice x)"
  shows "talk env v (voice (ftp_send env code message multi x))"
proof (cases "fx_reply_failed x \<or> \<not> fx_socket_open x")
  case False
  let ?m = "format_reply code message multi"
  obtain ok os where os: "e_write env (fx_os x) ?m = (ok, os)" by fastforce
  have v: "talk env v (fx_os x, fx_sent x, False, st_cc_is_encrypted (fx_state x))" using assms False by (simp add: voice_def)
  show ?thesis
    using talk_sent[OF v, of ?m os] talk_failed[OF v, of ?m os] False os
    by (cases ok) (simp_all add: ftp_send_def voice_def Let_def)
qed (use assms in \<open>simp add: ftp_send_def\<close>)

section \<open>The handlers\<close>

lemma voice_simps [simp]:
  "voice (answer c t x) = voice x" "voice (answer_verbose c t x) = voice x" "voice (start_transfer f x) = voice x"
  "voice (set_requested_path p x) = voice x" "voice (snd (refused clauses e x)) = voice x"
  "voice (snd (list_failed e x)) = voice x"
  by (simp_all add: voice_def answer_def answer_verbose_def start_transfer_def set_requested_path_def refused_def
      list_failed_def Let_def)

lemma open_and_start_voice [simp]: "voice (snd (open_and_start env operation x)) = voice x"
  by (simp add: open_and_start_def on_disk_def split: prod.splits sum.splits)

lemma disk_command_voice [simp]: "voice (snd (disk_command f clauses x)) = voice x"
  by (cases "f (fx_disk x)") (simp add: disk_command_def on_disk_def split: sum.splits)

lemma on_stat_voice: "voice (snd (on_stat env param x)) = voice x"
proof -
  have "voice (snd (on_stat_list env param x)) = voice x"
    by (simp add: on_stat_list_def Let_def voice_state split: prod.splits sum.splits option.splits)
  then show ?thesis by (simp add: on_stat_def on_stat_state_def Let_def)
qed

lemma on_opts_voice: "voice (snd (on_opts match x)) = voice x"
proof -
  have "voice (snd (on_opts_default x)) = voice x" "voice (snd (on_opts_mlst p x)) = voice x" for p
    by (simp_all add: on_opts_default_def on_opts_mlst_def Let_def voice_state)
  then show ?thesis using on_opts_cases[of match x] by metis
qed

lemma on_files_voice:
  "voice (snd (on_size env param x)) = voice x" "voice (snd (on_mdtm env param x)) = voice x"
  "voice (snd (on_rnfr env param x)) = voice x" "voice (snd (on_mlst env param x)) = voice x"
  "voice (snd (on_allo env param x)) = voice x" "voice (snd (on_help param x)) = voice x"
  "voice (snd (on_rest env param x)) = voice x" "voice (snd (on_port env match x)) = voice x"
  "voice (snd (change_dir env param x)) = voice x"
  "voice (snd (on_authenticate env name pwd rejected x)) = voice x"
proof -
  show "voice (snd (on_mdtm env param x)) = voice x"
    by (cases "session_get_path (e_fs env) (fx_ses x) param FILE")
       (simp_all add: on_mdtm_def Let_def split: sum.splits option.splits)
qed (simp_all add: on_size_def on_rnfr_def on_mlst_def on_allo_def on_help_def on_rest_def on_port_def
    change_dir_def on_authenticate_def Let_def voice_state set_port_def split: sum.splits bool.splits option.splits prod.splits)

lemma on_list_voice:
  "voice (snd (on_list env param x)) = voice x" "voice (snd (on_nlst env param x)) = voice x"
  "voice (snd (on_mlsd env param x)) = voice x" "voice (snd (on_retr_stor env operation param x)) = voice x"
  "voice (snd (on_appe env param x)) = voice x"
  by (simp_all add: on_list_def on_nlst_def on_mlsd_def on_retr_stor_def on_appe_def Let_def voice_state
      split: prod.splits sum.splits)

lemma on_cmd_voice: "cmd \<noteq> Cmd_pasv \<Longrightarrow> cmd \<noteq> Cmd_stou \<Longrightarrow> voice (snd (on_cmd env cmd param match x)) = voice x"
  by (cases cmd)
     (simp_all add: on_retr_def on_stor_def on_dele_def on_mkd_def on_rmd_def on_rnto_def
        on_cwd_def on_cdup_def on_quit_def on_abor_def on_feat_def on_syst_def on_type_def on_noop_def
        on_pwd_def on_auth_def on_pbsz_def on_prot_def on_user_def on_pass_def set_abort_def Let_def voice_state on_files_voice on_list_voice
        on_stat_voice on_opts_voice)

lemma on_stou_talk:
  assumes "talk env v (voice x)"
  shows "talk env v (voice (snd (on_stou env x)))"
proof -
  obtain u os where u: "e_uuid env (fx_os x) = (u, os)" by fastforce
  have "talk env v (voice (x\<lparr>fx_os := os\<rparr>))" using talk_uuid[OF assms[unfolded voice_def] u] by (simp add: voice_def)
  then show ?thesis by (simp add: on_stou_def u Let_def)
qed

lemma on_pasv_talk:
  assumes "talk env v (voice x)"
  shows "talk env v (voice (snd (on_pasv env x)))"
proof -
  have listen: "talk env v (voice (snd (pasv_listen env y)))" if "voice y = voice x" for y
  proof -
    have y: "talk env v (fx_os y, fx_sent y, fx_reply_failed y, st_cc_is_encrypted (fx_state y))"
      using assms that by (simp add: voice_def)
    show ?thesis using talk_nothing assms that talk_listen[OF y]
      by (auto simp: pasv_listen_def voice_def split: sum.splits prod.splits)
  qed
  obtain r y where y: "(if st_pasv (fx_state x) = None
            then pasv_listen env (x\<lparr>fx_state := (fx_state x)\<lparr>st_pasv := Some None\<rparr>\<rparr>)
            else (Inr (), x)) = (r, y)" by fastforce
  have "talk env v (voice y)"
    using listen[of "x\<lparr>fx_state := (fx_state x)\<lparr>st_pasv := Some None\<rparr>\<rparr>"] assms y
    by (auto simp: voice_state split: if_splits)
  then show ?thesis unfolding on_pasv_def y
    by (cases r) (auto simp: voice_state set_pasv_def answer_def voice_def split: option.splits address.splits)
qed

lemma on_cmd_talk: "talk env v (voice x) \<Longrightarrow> talk env v (voice (snd (on_cmd env cmd param match x)))"
  using on_cmd_voice[of cmd env param match x] on_stou_talk[of env v x] on_pasv_talk[of env v x]
  by (cases "cmd = Cmd_pasv"; cases "cmd = Cmd_stou") simp_all
section \<open>Requests, closing and transfers\<close>

lemma run_abort_voice [simp]: "voice (run_abort a x) = voice x"
  by (cases a) (simp_all add: run_abort_def voice_state)

lemma closing_voice [simp]: "voice (ftp_close x) = voice x" "voice (ftp_do_close x) = voice x"
  by (simp_all add: ftp_close_def ftp_do_close_def Let_def split: option.splits)

lemma run_handler_talk:
  assumes "talk env v (voice x)"
  shows "talk env v (voice (run_handler env cmd param match x))"
proof -
  obtain r y where y: "on_cmd env cmd param match (x\<lparr>fx_reply := ftp_reply_new\<rparr>) = (r, y)" by fastforce
  have t: "talk env v (voice y)" using on_cmd_talk[of env v "x\<lparr>fx_reply := ftp_reply_new\<rparr>" cmd param match] assms y by simp
  then show ?thesis by (simp add: run_handler_def y Let_def talk_send split: sum.split prod.split option.split)
qed

lemma process_request_talk:
  assumes "talk env v (voice x)"
  shows "talk env v (voice (process_request env request x))"
  using assms
  by (simp add: process_request_def on_command_def Let_def talk_send run_handler_talk split: sum.split prod.split option.split)

lemma on_file_voice: "on_file call x = (r, y) \<Longrightarrow> voice y = voice x"
  by (simp add: voice_def on_file_fields)

lemma reset_voice [simp]:
  "voice (reset_file env x) = voice x" "voice (cleanup_transfer env x) = voice x" "voice (transfer_returned env x) = voice x"
  "voice (transfer_touch env x) = voice x"
proof -
  show *: "voice (reset_file env x) = voice x" for x by (subst reset_file_frame) simp
  show "voice (cleanup_transfer env x) = voice x" for x
    by (simp add: cleanup_transfer_def Let_def * voice_state reset_transfer_def)
  then show "voice (transfer_returned env x) = voice x" by (simp add: transfer_returned_def)
qed (simp add: transfer_touch_def Let_def)

lemma transfer_parts_talk:
  assumes "talk env v (voice x)"
  shows "talk env v (voice (notify_failed env x))" and "talk env v (voice (transfer_threw env x))"
    and "talk env v (voice (transfer_enter env x))" and "talk env v (voice (transfer_done env verb x))"
proof -
  have n: "talk env v (voice (notify_failed env x))"
    using assms talk_send[of env v "(ftp_send env RC_TRANSFER_ABORTED [] False x)\<lparr>fx_state := s\<rparr>" for s]
      talk_send[OF assms, of RC_TRANSFER_ABORTED "[]" False]
    by (simp add: notify_failed_def Let_def voice_state)
  then show "talk env v (voice (notify_failed env x))" "talk env v (voice (transfer_enter env x))"
    using assms by (simp_all add: transfer_enter_def)
  show "talk env v (voice (transfer_threw env x))" using assms by (simp add: transfer_threw_def talk_send)
  obtain r y where y: "on_file (tf_close env) (x\<lparr>fx_transfer_open := Some False\<rparr>) = (r, y)" by fastforce
  show "talk env v (voice (transfer_done env verb x))"
    using assms on_file_voice[OF y] by (simp add: transfer_done_def y transfer_threw_def talk_send split: sum.split)
qed

lemma send_step_talk: "talk env v (voice x) \<Longrightarrow> talk env v (voice (snd (send_step env sent x)))"
proof -
  assume t: "talk env v (voice x)"
  obtain r y where y: "on_file (\<lambda>(f, w). case tf_read env w f of (r, f) \<Rightarrow> (r, f, w)) x = (r, y)" by fastforce
  have "talk env v (voice y)" using t on_file_voice[OF y] by simp
  then show ?thesis using t by (simp add: send_step_def y transfer_parts_talk split: sum.split)
qed

lemma receive_step_talk: "talk env v (voice x) \<Longrightarrow> talk env v (voice (receive_step env event shutdown_ok x))"
proof -
  assume t: "talk env v (voice x)"
  obtain r y where y: "on_file (tf_write env) x = (r, y)" by fastforce
  have ty: "talk env v (voice y)" using t on_file_voice[OF y] by simp
  have 1: "talk env v (voice (snd (on_file call y)))" for call
    using ty on_file_voice[OF prod.collapse[symmetric], of call y] by simp
  have 2: "talk env v (voice (if b then ftp_send env c t m z else z))" if "talk env v (voice z)" for b c t m z
    using that by (simp add: talk_send)
  have 3: "talk env v (voice (case on_file call z of (Inl e, x) \<Rightarrow> transfer_threw env x | (Inr u, x) \<Rightarrow> transfer_touch env x))"
    if "talk env v (voice z)" for call z
  proof -
    obtain rz z' where z: "on_file call z = (rz, z')" by fastforce
    then show ?thesis using that on_file_voice[OF z] by (simp add: transfer_parts_talk split: sum.split)
  qed
  obtain r1 y1 where y1: "on_file (tf_set_bytes_written env 0) y = (r1, y1)" by fastforce
  have 4: "talk env v (voice y1)" using ty on_file_voice[OF y1] by simp
  show ?thesis
    by (cases r; cases event; cases r1)
       (simp_all add: receive_step_def y y1 Let_def 1 2 3 4 ty transfer_parts_talk)
qed

lemma transfer_step_talk:
  assumes "transfer_step env x y" and "talk env v (voice x)"
  shows "talk env v (voice y)"
  using assms(1)
proof cases
  case step_begin
  then show ?thesis using talk_send[OF assms(2)] by (simp add: transfer_begin_def Let_def voice_state reset_transfer_def)
next
  case (step_connect connected)
  then show ?thesis using assms(2) by (simp add: transfer_connect_def Let_def talk_send transfer_parts_talk)
next
  case (step_secure secured)
  then show ?thesis using assms(2) by (simp add: transfer_secure_def talk_send transfer_parts_talk)
qed (simp_all add: send_step_talk receive_step_talk assms(2))

lemma manager_event_voice: "manager_event x y \<Longrightarrow> voice y = voice x"
  by (induction rule: manager_event.induct) simp_all
lemma handle_connection_talk:
  "talk env (os, [], False, False) (voice (handle_connection env garbage time_out perms am w os))"
  unfolding handle_connection_def
  by (rule talk_send) (simp add: voice_def ftp_new_def ftp_state_new_def talk_nothing)

section \<open>A session on its socket\<close>

text \<open>
  The environment of the session, in which the network is the socket \<open>'s\<close> of the control connection beside
  the rest, and a reply is written by \<open>AsyncWrite\<close> of the socket.
\<close>

definition wired_env ::
    "('s, 'e, 'q) socket_ops \<Rightarrow> ('p, 'w, 'am, 'cl, 'os) ftp_env \<Rightarrow> ('p, 'w, 'am, 'cl, 's \<times> 'os) ftp_env" where
  "wired_env so env =
     \<lparr>e_fs = e_fs env, e_dirs = e_dirs env, e_auth = e_auth env, e_page = e_page env, e_local_eol = e_local_eol env,
      e_garbage = e_garbage env, e_regex = e_regex env, e_lexical16 = e_lexical16 env, e_lexical64 = e_lexical64 env,
      e_make_address = e_make_address env,
      e_uuid = (\<lambda>(s, os). case e_uuid env os of (u, os) \<Rightarrow> (u, s, os)),
      e_local_address = (\<lambda>(s, os). e_local_address env os),
      e_listen = (\<lambda>(s, os) a. case e_listen env os a of (r, os) \<Rightarrow> (r, s, os)),
      e_clock = (\<lambda>(s, os). e_clock env os), e_time = (\<lambda>(s, os). e_time env os),
      e_write = (\<lambda>(s, os) m. case so_write_buffers so [m] s of (r, s) \<Rightarrow> (\<not> isl r, s, os))\<rparr>"

text \<open>When a step from \<open>x\<close> to \<open>y\<close> has closed the connection, \<open>Close\<close> was called on its socket.\<close>

definition hang_up ::
    "('s, 'e, 'q) socket_ops \<Rightarrow> ('p, 'cl, 'w, 'am, 's \<times> 'os) ftp \<Rightarrow> ('p, 'cl, 'w, 'am, 's \<times> 'os) ftp \<Rightarrow>
     ('p, 'cl, 'w, 'am, 's \<times> 'os) ftp" where
  "hang_up so x y =
     (if fx_socket_open x \<and> \<not> fx_socket_open y then y\<lparr>fx_os := map_prod (\<lambda>s. snd (so_close so s)) id (fx_os y)\<rparr> else y)"

text \<open>\<open>StartTls\<close>, with \<open>UpgradeToTls\<close> of the socket.\<close>

definition wired_start_tls ::
    "('s, 'e, 'q) socket_ops \<Rightarrow> ('p, 'cl, 'w, 'am, 's \<times> 'os) ftp \<Rightarrow> ('p, 'cl, 'w, 'am, 's \<times> 'os) ftp" where
  "wired_start_tls so x =
     (case so_upgrade_to_tls so (fst (fx_os x)) of
        (r, s) \<Rightarrow> start_tls (\<not> isl r) (x\<lparr>fx_os := (s, snd (fx_os x))\<rparr>))"

inductive wired_step ::
    "('s, 'e, 'q) socket_ops \<Rightarrow> ('p, 'w, 'am, 'cl, 'os) ftp_env \<Rightarrow> ('am \<Rightarrow> bool) \<Rightarrow>
     ('p, 'cl, 'w, 'am, 's \<times> 'os) ftp \<Rightarrow> ('p, 'cl, 'w, 'am, 's \<times> 'os) ftp \<Rightarrow> bool" for so env ok where
  wired_request: "\<not> fx_closed x \<Longrightarrow> \<not> fx_hung x \<Longrightarrow>
    wired_step so env ok x (hang_up so x (process_request (wired_env so env) request x))"
| wired_too_big: "\<not> fx_closed x \<Longrightarrow> \<not> fx_hung x \<Longrightarrow>
    wired_step so env ok x (hang_up so x (ftp_do_close (ftp_send (wired_env so env) RC_BYE too_long_message False x)))"
| wired_end: "\<not> fx_closed x \<Longrightarrow> \<not> fx_hung x \<Longrightarrow> wired_step so env ok x (hang_up so x (ftp_do_close x))"
| wired_tls: "fx_tasks x = Suc n \<Longrightarrow> \<not> fx_hung x \<Longrightarrow>
    wired_step so env ok x (hang_up so x (wired_start_tls so (x\<lparr>fx_tasks := n\<rparr>)))"
| wired_transfer: "transfer_step (wired_env so env) x y \<Longrightarrow> wired_step so env ok x (hang_up so x y)"
| wired_event: "manager_event x y \<Longrightarrow> wired_step so env ok x (hang_up so x y)"
| wired_outside: "ok am \<Longrightarrow> wired_step so env ok x (x\<lparr>fx_am := am, fx_disk := w, fx_os := (fst (fx_os x), os)\<rparr>)"

abbreviation wired_run ::
    "('s, 'e, 'q) socket_ops \<Rightarrow> ('p, 'w, 'am, 'cl, 'os) ftp_env \<Rightarrow> ('am \<Rightarrow> bool) \<Rightarrow>
     ('p, 'cl, 'w, 'am, 's \<times> 'os) ftp \<Rightarrow> ('p, 'cl, 'w, 'am, 's \<times> 'os) ftp \<Rightarrow> bool" where
  "wired_run so env ok \<equiv> (wired_step so env ok)\<^sup>*\<^sup>*"

text \<open>The session on its socket takes steps of the session; what happens to the socket besides is outside of it.\<close>

lemma reach_other_os:
  assumes "ftp_reach env ok x" and "ok (fx_am x)"
  shows "ftp_reach env ok (x\<lparr>fx_os := os\<rparr>)"
proof -
  have "outside_step ok x (x\<lparr>fx_am := fx_am x, fx_disk := fx_disk x, fx_os := os\<rparr>)" by (intro outside_step.intros assms(2))
  moreover have "x\<lparr>fx_am := fx_am x, fx_disk := fx_disk x, fx_os := os\<rparr> = x\<lparr>fx_os := os\<rparr>" by simp
  ultimately show ?thesis using reach_outside[OF assms(1)] by simp
qed

lemma wired_step_reach:
  assumes "ftp_reach (wired_env so env) ok x" and "mount_provider (e_auth env) ok" and "wired_step so env ok x y"
  shows "ftp_reach (wired_env so env) ok y"
proof -
  have auth: "mount_provider (e_auth (wired_env so env)) ok" using assms(2) by (simp add: wired_env_def)
  have am: "ok (fx_am z)" if "ftp_reach (wired_env so env) ok z" for z using reach_inv[OF that auth] by (simp add: ftp_inv_def)
  have *: "ftp_reach (wired_env so env) ok (hang_up so x z)" if "ftp_step (wired_env so env) x z" for z
  proof -
    have z: "ftp_reach (wired_env so env) ok z" by (rule reach_step[OF assms(1) that])
    then show ?thesis using reach_other_os[OF z am[OF z]] by (simp add: hang_up_def)
  qed
  from assms(3) show ?thesis
  proof cases
    case (wired_tls n)
    obtain r s where s: "so_upgrade_to_tls so (fst (fx_os x)) = (r, s)" by fastforce
    let ?z = "start_tls (\<not> isl r) (x\<lparr>fx_tasks := n\<rparr>)"
    have z: "ftp_reach (wired_env so env) ok ?z" by (rule reach_step[OF assms(1) step_task[OF step_tls[OF wired_tls(2,3)]]])
    have "wired_start_tls so (x\<lparr>fx_tasks := n\<rparr>) = ?z\<lparr>fx_os := (s, snd (fx_os x))\<rparr>"
      by (simp add: wired_start_tls_def s start_tls_def)
    then show ?thesis using reach_other_os[OF z am[OF z]] wired_tls(1) by (simp add: hang_up_def)
  next
    case (wired_outside am w os)
    have "outside_step ok x y" unfolding wired_outside(1) by (intro outside_step.intros wired_outside(2))
    then show ?thesis by (rule reach_outside[OF assms(1)])
  qed (simp_all add: * step_request step_too_big step_end step_task step_transfer step_event)
qed
text \<open>
  What a stretch of a run adds to the wire \<open>c\<close>: while the connection counts as encrypted (\<open>b\<close>), which it
  then does for good, nothing in clear; as long as it does not, nothing encrypted.
\<close>

definition added :: "(layer \<times> string) list \<times> bool \<Rightarrow> (layer \<times> string) list \<times> bool \<Rightarrow> bool" where
  "added u v = (case (u, v) of ((c, b), (c', b')) \<Rightarrow>
     \<exists>ds. c' = c @ ds \<and> (b \<longrightarrow> b' \<and> list_all (\<lambda>d. fst d = Encrypted) ds)
       \<and> (\<not> b' \<longrightarrow> list_all (\<lambda>d. fst d = In_clear) ds))"

lemma added_same: "added (c, b) (c, b)"
  by (simp add: added_def)

lemma added_layer: "added (c, b) (c @ [(if b then Encrypted else In_clear, d)], b)"
  by (simp add: added_def)

lemma added_upgrade: "added (c, b) (c, True)"
  by (simp add: added_def)

lemma added_trans:
  assumes "added u v" and "added v w"
  shows "added u w"
proof -
  obtain c b c1 b1 c2 b2 where p: "u = (c, b)" "v = (c1, b1)" "w = (c2, b2)" by (metis prod.exhaust)
  from assms(1) obtain ds where
    ds: "c1 = c @ ds" "b \<longrightarrow> b1 \<and> list_all (\<lambda>d. fst d = Encrypted) ds" "\<not> b1 \<longrightarrow> list_all (\<lambda>d. fst d = In_clear) ds"
    by (auto simp: added_def p)
  from assms(2) obtain es where
    es: "c2 = c1 @ es" "b1 \<longrightarrow> b2 \<and> list_all (\<lambda>d. fst d = Encrypted) es" "\<not> b2 \<longrightarrow> list_all (\<lambda>d. fst d = In_clear) es"
    by (auto simp: added_def p)
  have "c2 = c @ (ds @ es) \<and> (b \<longrightarrow> b2 \<and> list_all (\<lambda>d. fst d = Encrypted) (ds @ es))
      \<and> (\<not> b2 \<longrightarrow> list_all (\<lambda>d. fst d = In_clear) (ds @ es))"
    using ds es by auto
  then show ?thesis unfolding added_def p prod.case by (rule exI)
qed

text \<open>
  What is on the wire of a session agrees with it: the socket writes to the layer the session believes in, and
  what was written are the replies, and a cut one when writing failed.
\<close>

definition on_wire ::
    "('k \<Rightarrow> (layer \<times> string) list) \<Rightarrow> ('s \<Rightarrow> 'k) \<Rightarrow> ('s \<times> 'os) \<times> string list \<times> bool \<times> bool \<Rightarrow> (layer \<times> string) list \<times> bool" where
  "on_wire wire stream v = (case v of ((s, os), sent, failed, b) \<Rightarrow> (wire (stream s), b))"

definition agrees ::
    "('k \<Rightarrow> (layer \<times> string) list) \<Rightarrow> ('s \<Rightarrow> 'k) \<Rightarrow> ('s \<Rightarrow> layer) \<Rightarrow> ('s \<times> 'os) \<times> string list \<times> bool \<times> bool \<Rightarrow> bool" where
  "agrees wire stream layer_of v = (case v of ((s, os), sent, failed, b) \<Rightarrow>
     layer_of s = (if b then Encrypted else In_clear)
     \<and> (\<exists>cut. map snd (wire (stream s)) = sent @ (if failed then [cut] else [])))"

context channel
begin

lemma talk_agrees:
  assumes "asio_lawful ops wire" and "talk (wired_env (so ops) env) v u" and "agrees wire stream layer_of v"
  shows "agrees wire stream layer_of u \<and> added (on_wire wire stream v) (on_wire wire stream u)"
  using assms(2)
proof induction
  case talk_nothing
  show ?case using assms(3) by (simp add: added_def split: prod.splits)
next
  case (talk_sent os sent b m os')
  obtain s o' where os: "os = (s, o')" by fastforce
  obtain r s' where r: "so_write_buffers (so ops) [m] s = (r, s')" by fastforce
  then obtain u where u: "r = Inr u" "os' = (s', o')"
    using talk_sent.hyps(2) by (cases r) (auto simp: wired_env_def os)
  note w = write_done[OF assms(1) r[unfolded u(1)]]
  have IH: "agrees wire stream layer_of (os, sent, False, b)" "added (on_wire wire stream v) (wire (stream s), b)"
    using talk_sent.IH by (simp_all add: on_wire_def os)
  have "agrees wire stream layer_of (os', sent @ [m], False, b)" using IH(1) w by (simp add: agrees_def os u(2))
  moreover have "added (wire (stream s), b) (wire (stream s'), b)"
    using IH(1) w added_layer[of "wire (stream s)" b m] by (simp add: agrees_def os)
  ultimately show ?case using added_trans[OF IH(2)] by (simp add: on_wire_def u(2))
next
  case (talk_failed os sent b m os')
  obtain s o' where os: "os = (s, o')" by fastforce
  obtain r s' where r: "so_write_buffers (so ops) [m] s = (r, s')" by fastforce
  then obtain e where e: "r = Inl e" "os' = (s', o')"
    using talk_failed.hyps(2) by (cases r) (auto simp: wired_env_def os)
  from write_failed[OF assms(1) r[unfolded e(1)]] obtain n where
    w: "layer_of s' = layer_of s" "wire (stream s') = wire (stream s) @ [(layer_of s, take n m)]" by auto
  have IH: "agrees wire stream layer_of (os, sent, False, b)" "added (on_wire wire stream v) (wire (stream s), b)"
    using talk_failed.IH by (simp_all add: on_wire_def os)
  have "agrees wire stream layer_of (os', sent, True, b)" using IH(1) w by (simp add: agrees_def os e(2))
  moreover have "added (wire (stream s), b) (wire (stream s'), b)"
    using IH(1) w added_layer[of "wire (stream s)" b "take n m"] by (simp add: agrees_def os)
  ultimately show ?case using added_trans[OF IH(2)] by (simp add: on_wire_def e(2))
next
  case (talk_uuid os sent failed b u os')
  then show ?case by (auto simp: wired_env_def agrees_def on_wire_def split: prod.splits)
next
  case (talk_listen os sent failed b a r os')
  then show ?case by (auto simp: wired_env_def agrees_def on_wire_def split: prod.splits)
qed

lemma hang_up_agrees:
  assumes "asio_lawful ops wire" and "agrees wire stream layer_of (voice y)"
  shows "agrees wire stream layer_of (voice (hang_up (so ops) x y))
    \<and> on_wire wire stream (voice (hang_up (so ops) x y)) = on_wire wire stream (voice y)"
proof -
  obtain s o' where os: "fx_os y = (s, o')" by fastforce
  obtain r s' where r: "so_close (so ops) s = (r, s')" by fastforce
  show ?thesis using close_keeps[OF assms(1) r] assms(2) r
    by (simp add: hang_up_def voice_def agrees_def on_wire_def os)
qed

lemma start_tls_agrees:
  assumes "asio_lawful ops wire" and "agrees wire stream layer_of (voice x)"
  shows "agrees wire stream layer_of (voice (wired_start_tls (so ops) x))
    \<and> added (on_wire wire stream (voice x)) (on_wire wire stream (voice (wired_start_tls (so ops) x)))"
proof -
  obtain s o' where os: "fx_os x = (s, o')" by fastforce
  obtain r s' where r: "so_upgrade_to_tls (so ops) s = (r, s')" by fastforce
  show ?thesis
  proof (cases r)
    case (Inl e)
    then show ?thesis using upgrade_failed[OF assms(1) r[unfolded Inl]] assms(2) r
      by (simp add: wired_start_tls_def start_tls_def voice_def agrees_def on_wire_def os added_same)
  next
    case (Inr u)
    then show ?thesis using upgrade_done[OF assms(1) r[unfolded Inr]] assms(2) r
      by (simp add: wired_start_tls_def start_tls_def voice_def agrees_def on_wire_def os added_upgrade)
  qed
qed

lemma wired_step_agrees:
  assumes "asio_lawful ops wire" and "agrees wire stream layer_of (voice x)" and "wired_step (so ops) env ok x y"
  shows "agrees wire stream layer_of (voice y) \<and> added (on_wire wire stream (voice x)) (on_wire wire stream (voice y))"
proof -
  have h: ?thesis if "agrees wire stream layer_of (voice z)" "added (on_wire wire stream (voice x)) (on_wire wire stream (voice z))"
    "y = hang_up (so ops) x z" for z
    using hang_up_agrees[OF assms(1) that(1), of x] that by simp
  have t: ?thesis if "talk (wired_env (so ops) env) (voice x) (voice z)" "y = hang_up (so ops) x z" for z
    using talk_agrees[OF assms(1) that(1) assms(2)] h that(2) by blast
  from assms(3) show ?thesis
  proof cases
    case (wired_request request)
    then show ?thesis using t process_request_talk[OF talk_nothing] by blast
  next
    case wired_too_big
    have "talk (wired_env (so ops) env) (voice x)
        (voice (ftp_do_close (ftp_send (wired_env (so ops) env) RC_BYE too_long_message False x)))"
      by (simp add: talk_send[OF talk_nothing])
    then show ?thesis using t wired_too_big(1) by blast
  next
    case wired_end
    have "talk (wired_env (so ops) env) (voice x) (voice (ftp_do_close x))" by (simp add: talk_nothing)
    then show ?thesis using t wired_end(1) by blast
  next
    case (wired_tls n)
    have "agrees wire stream layer_of (voice (x\<lparr>fx_tasks := n\<rparr>))" using assms(2) by simp
    from start_tls_agrees[OF assms(1) this] show ?thesis using h wired_tls(1) by simp
  next
    case (wired_transfer z)
    then show ?thesis using t transfer_step_talk[OF wired_transfer(2) talk_nothing] by blast
  next
    case (wired_event z)
    then have "talk (wired_env (so ops) env) (voice x) (voice z)" by (simp add: manager_event_voice talk_nothing)
    then show ?thesis using t wired_event(1) by blast
  next
    case (wired_outside am w os)
    then show ?thesis using assms(2) by (auto simp: voice_def agrees_def on_wire_def added_same split: prod.splits)
  qed
qed

lemma wired_run_agrees:
  assumes "asio_lawful ops wire" and "agrees wire stream layer_of (voice x)" and "wired_run (so ops) env ok x y"
  shows "agrees wire stream layer_of (voice y) \<and> added (on_wire wire stream (voice x)) (on_wire wire stream (voice y))"
  using assms(3)
proof (induction rule: rtranclp_induct)
  case (step y z)
  show ?case using wired_step_agrees[OF assms(1) conjunct1[OF step.IH] step.hyps(2)] added_trans[OF conjunct2[OF step.IH]] by blast
qed (use assms(2) in \<open>simp add: added_def split: prod.splits\<close>)

lemma connected_agrees:
  assumes "asio_lawful ops wire" and "layer_of s = In_clear" and "wire (stream s) = []"
  shows "agrees wire stream layer_of (voice (handle_connection (wired_env (so ops) env) garbage time_out perms am w (s, os)))"
  by (rule talk_agrees[THEN conjunct1, OF assms(1) handle_connection_talk])
     (use assms in \<open>simp add: agrees_def\<close>)

end
section \<open>Replies and TLS\<close>

text \<open>C4: replies are not sent in clear once TLS is up. Let a session run on a TLS socket that is fresh and
  not yet using TLS, with requests, failing input, transfers, the session manager and everything outside of
  it in any order. Then at every moment the session believes the connection to be encrypted exactly when its
  socket writes to the TLS stream; what the socket was given to write are the replies of the session, and
  a cut one if writing has failed; and for every later moment of the run, what was written in between
  was all encrypted if the connection already counted as encrypted, and all in clear if it still does not.\<close>
theorem replies_encrypted:
  assumes "asio_lawful ops wire" and "\<not> ts_using_tls s" and "wire (ts_ssl_socket s) = []"
    and "wired_run (wfde_tls_socket_ops ops) env ok
           (handle_connection (wired_env (wfde_tls_socket_ops ops) env) garbage time_out perms am w (s, os)) x"
    and "wired_run (wfde_tls_socket_ops ops) env ok x y"
  shows "ts_using_tls (fst (fx_os x)) = st_cc_is_encrypted (fx_state x)
    \<and> (\<exists>cut. map snd (wire (ts_ssl_socket (fst (fx_os x)))) = fx_sent x @ (if fx_reply_failed x then [cut] else []))
    \<and> (\<exists>ds. wire (ts_ssl_socket (fst (fx_os y))) = wire (ts_ssl_socket (fst (fx_os x))) @ ds
        \<and> (st_cc_is_encrypted (fx_state x) \<longrightarrow> st_cc_is_encrypted (fx_state y) \<and> list_all (\<lambda>d. fst d = Encrypted) ds)
        \<and> (\<not> st_cc_is_encrypted (fx_state y) \<longrightarrow> list_all (\<lambda>d. fst d = In_clear) ds))"
proof -
  have "ts_layer s = In_clear" using assms(2) by (simp add: ts_layer_def)
  note c = tls_channel.connected_agrees[OF assms(1) this assms(3)]
  note x = conjunct1[OF tls_channel.wired_run_agrees[OF assms(1) c assms(4)]]
  note y = conjunct2[OF tls_channel.wired_run_agrees[OF assms(1) x assms(5)]]
  obtain s1 os1 where 1: "fx_os x = (s1, os1)" by fastforce
  obtain s2 os2 where 2: "fx_os y = (s2, os2)" by fastforce
  show ?thesis using x y
    by (simp add: agrees_def added_def on_wire_def voice_def 1 2 ts_layer_def split: if_splits)
qed

text \<open>
  The session on its socket is a session: everything proved of the reachable states of a session holds, so a
  transfer is only ever encrypted while the socket of the control connection uses TLS.
\<close>

lemma wired_run_reach:
  assumes "wired_run so env ok x y" and "ftp_reach (wired_env so env) ok x" and "mount_provider (e_auth env) ok"
  shows "ftp_reach (wired_env so env) ok y"
  using assms(1)
  by (induction rule: rtranclp_induct) (simp_all add: assms(2) wired_step_reach[OF _ assms(3)])

text \<open>C9: encrypted transfers need an encrypted control connection, down to the socket. A session with well-formed
  mounts that runs on a fresh TLS socket is at every moment in a reachable state of the session relation
  (so its invariant holds on the socket too), and if it encrypts its transfers, the socket of its
  control connection is using TLS.\<close>
theorem wired_session_refines:
  assumes "asio_lawful ops wire" and "\<not> ts_using_tls s" and "wire (ts_ssl_socket s) = []"
    and "mounts_ok perms" and "ok am" and "mount_provider (e_auth env) ok"
    and "wired_run (wfde_tls_socket_ops ops) env ok
           (handle_connection (wired_env (wfde_tls_socket_ops ops) env) garbage time_out perms am w (s, os)) x"
  shows "ftp_reach (wired_env (wfde_tls_socket_ops ops) env) ok x
    \<and> (st_encrypt_transfers (fx_state x) \<longrightarrow> ts_using_tls (fst (fx_os x)))"
proof -
  have reach: "ftp_reach (wired_env (wfde_tls_socket_ops ops) env) ok x"
    by (rule wired_run_reach[OF assms(7) _ assms(6)]) (intro reach_connected assms(4,5))
  have "mount_provider (e_auth (wired_env (wfde_tls_socket_ops ops) env)) ok" using assms(6) by (simp add: wired_env_def)
  from reach_inv[OF reach this] have enc: "st_encrypt_transfers (fx_state x) \<longrightarrow> st_cc_is_encrypted (fx_state x)"
    by (simp add: ftp_inv_def state_inv_def)
  have "ts_layer s = In_clear" using assms(2) by (simp add: ts_layer_def)
  note c = tls_channel.connected_agrees[OF assms(1) this assms(3)]
  note x = conjunct1[OF tls_channel.wired_run_agrees[OF assms(1) c assms(7)]]
  obtain s1 os1 where "fx_os x = (s1, os1)" by fastforce
  then have "ts_using_tls (fst (fx_os x)) = st_cc_is_encrypted (fx_state x)"
    using x by (simp add: agrees_def voice_def ts_layer_def split: if_splits)
  then show ?thesis using reach enc by blast
qed
section \<open>A session with TLS\<close>

text \<open>AUTH TLS, the handshake, and requests that protect the transfers, on the network of the witnesses.\<close>

abbreviation demo_so :: "((bool \<times> (layer \<times> string) list, string) wfde_tls_socket, nat, string) socket_ops" where
  "demo_so \<equiv> wfde_tls_socket_ops demo_asio"

abbreviation demo_wired_env :: "(demo_path, demo_disk, demo_path auth_manager, nat, (bool \<times> (layer \<times> string) list, string) wfde_tls_socket \<times> int) ftp_env" where
  "demo_wired_env \<equiv> wired_env demo_so demo_env"

abbreviation demo_wired :: "(demo_path, nat, demo_disk, demo_path auth_manager, (bool \<times> (layer \<times> string) list, string) wfde_tls_socket \<times> int) ftp" where
  "demo_wired \<equiv> handle_connection demo_wired_env 0 60 [] bob_auth bob_disk (demo_tls_socket, 0)"

definition demo_asked :: "(demo_path, nat, demo_disk, demo_path auth_manager, (bool \<times> (layer \<times> string) list, string) wfde_tls_socket \<times> int) ftp" where
  "demo_asked = process_request demo_wired_env ''AUTH TLS'' demo_wired"

definition demo_secured :: "(demo_path, nat, demo_disk, demo_path auth_manager, (bool \<times> (layer \<times> string) list, string) wfde_tls_socket \<times> int) ftp" where
  "demo_secured = wired_start_tls demo_so (demo_asked\<lparr>fx_tasks := 0\<rparr>)"

definition demo_protected :: "(demo_path, nat, demo_disk, demo_path auth_manager, (bool \<times> (layer \<times> string) list, string) wfde_tls_socket \<times> int) ftp" where
  "demo_protected = process_request demo_wired_env ''PROT P'' demo_secured"

lemma wired_steps_open:
  "\<not> fx_closed x \<Longrightarrow> \<not> fx_hung x \<Longrightarrow> y = process_request (wired_env so env) request x \<Longrightarrow> fx_socket_open y \<Longrightarrow> wired_step so env ok x y"
  "fx_tasks x = Suc n \<Longrightarrow> \<not> fx_hung x \<Longrightarrow> y = wired_start_tls so (x\<lparr>fx_tasks := n\<rparr>) \<Longrightarrow> fx_socket_open y \<Longrightarrow> wired_step so env ok x y"
  using wired_request[of x so env ok request] wired_tls[of x n so env ok] by (simp_all add: hang_up_def)

lemma demo_secured_facts:
  "fx_closed demo_wired = False \<and> fx_hung demo_wired = False \<and> fx_socket_open demo_asked = True
   \<and> fx_tasks demo_asked = Suc 0 \<and> fx_hung demo_asked = False \<and> fx_socket_open demo_secured = True
   \<and> fx_closed demo_secured = False \<and> fx_hung demo_secured = False \<and> st_cc_is_encrypted (fx_state demo_secured) = True"
  by code_simp

lemma demo_protected_facts:
  "fx_socket_open demo_protected = True \<and> st_encrypt_transfers (fx_state demo_protected) = True"
  by code_simp

lemma demo_runs:
  "wired_run demo_so demo_env am_served demo_wired demo_secured" "wired_run demo_so demo_env am_served demo_secured demo_protected"
proof -
  have 1: "wired_step demo_so demo_env am_served demo_wired demo_asked"
    by (rule wired_steps_open(1)[OF _ _ demo_asked_def]) (use demo_secured_facts in simp_all)
  have 2: "wired_step demo_so demo_env am_served demo_asked demo_secured"
    by (rule wired_steps_open(2)[OF _ _ demo_secured_def]) (use demo_secured_facts in simp_all)
  have 3: "wired_step demo_so demo_env am_served demo_secured demo_protected"
    by (rule wired_steps_open(1)[OF _ _ demo_protected_def]) (use demo_secured_facts demo_protected_facts in simp_all)
  show "wired_run demo_so demo_env am_served demo_wired demo_secured" using 1 2 by (rule converse_rtranclp_into_rtranclp[OF _ r_into_rtranclp])
  show "wired_run demo_so demo_env am_served demo_secured demo_protected" using 3 by (rule r_into_rtranclp)
qed

lemma demo_tls_fresh: "\<not> ts_using_tls demo_tls_socket" "snd (ts_ssl_socket demo_tls_socket) = []"
  by (simp_all add: demo_tls_socket_def)

theorem replies_encrypted_witness:
  "ts_using_tls (fst (fx_os demo_secured))
   \<and> (\<exists>ds. snd (ts_ssl_socket (fst (fx_os demo_protected))) = snd (ts_ssl_socket (fst (fx_os demo_secured))) @ ds
        \<and> list_all (\<lambda>d. fst d = Encrypted) ds)"
proof -
  have enc: "st_cc_is_encrypted (fx_state demo_secured)" using demo_secured_facts by simp
  note r = replies_encrypted[OF demo_asio_lawful demo_tls_fresh demo_runs]
  show ?thesis
  proof (intro conjI)
    show "ts_using_tls (fst (fx_os demo_secured))" using conjunct1[OF r] enc by simp
    from conjunct2[OF conjunct2[OF r]] obtain ds where
      "snd (ts_ssl_socket (fst (fx_os demo_protected))) = snd (ts_ssl_socket (fst (fx_os demo_secured))) @ ds"
      "list_all (\<lambda>d. fst d = Encrypted) ds" using enc by (elim exE conjE) simp
    then show "\<exists>ds. snd (ts_ssl_socket (fst (fx_os demo_protected))) = snd (ts_ssl_socket (fst (fx_os demo_secured))) @ ds
        \<and> list_all (\<lambda>d. fst d = Encrypted) ds" by (intro exI conjI)
  qed
qed

theorem wired_session_refines_witness: "ts_using_tls (fst (fx_os demo_protected))"
proof -
  have perms: "mounts_ok []" by (simp add: mounts_ok_def)
  have "wired_run demo_so demo_env am_served demo_wired demo_protected" by (rule rtranclp_trans[OF demo_runs])
  note r = wired_session_refines[OF demo_asio_lawful demo_tls_fresh _ _ demo_provider this]
  have "st_encrypt_transfers (fx_state demo_protected)" using demo_protected_facts by simp
  then show ?thesis using r[OF perms bob_served] by simp
qed
section \<open>The data connection of PORT\<close>

text \<open>
  \<open>DoPort\<close> opens the data socket for the protocol of the control connection, when the client's endpoint
  is of the same, and connects it; \<open>open_socket\<close> is \<open>open\<close> of asio, and \<open>expired\<close> whether the session
  has gone by the time the connection is there.
\<close>

definition do_port ::
    "('s, 'e, 'q) socket_ops \<Rightarrow> ('e \<Rightarrow> 'protocol) \<Rightarrow> ('protocol \<Rightarrow> 's \<Rightarrow> (exn + unit) \<times> 's) \<Rightarrow> 's \<Rightarrow> 'e \<Rightarrow> bool \<Rightarrow>
     's \<Rightarrow> bool \<times> 's" where
  "do_port so protocol open_socket control remote expired sck =
     (let local_protocol = protocol (so_get_local_endpoint so control)
      in (case (if local_protocol = protocol remote then open_socket local_protocol sck else (Inr (), sck)) of
            (Inl e, sck) \<Rightarrow> (False, sck)
          | (Inr _, sck) \<Rightarrow>
              (case so_connect so remote sck of
                 (Inl e, sck) \<Rightarrow> (False, sck)
               | (Inr _, sck) \<Rightarrow> (\<not> expired, sck))))"

text \<open>When it succeeds, the socket was connected to the endpoint that the client gave with PORT.\<close>

lemma do_port_connects:
  assumes "do_port so protocol open_socket control remote expired sck = (True, sck')"
  shows "\<not> expired \<and> (\<exists>s1. so_connect so remote s1 = (Inr (), sck'))"
  using assms by (auto simp: do_port_def Let_def split: prod.splits sum.splits if_splits)

text \<open>Its outcome decides how a transfer with PORT goes on.\<close>

lemma do_port_step:
  assumes "fx_phase x = Phase_connecting" and "\<not> fx_hung x"
  shows "transfer_step env x (transfer_connect env
    (fst (do_port so protocol open_socket control remote (fx_expired x) sck)) x)"
  by (rule step_connect[OF assms])

end
