(* ===== verification/FtpDownload.thy ===== *)
theory FtpDownload
  imports FtpReplies
begin

text \<open>
  A download from the request to the last reply: RETR opens the file, the coroutine announces the
  transfer, the connection is made, and the loop of \<open>SendFile\<close> runs to its end.
\<close>

section \<open>The loop of SendFile\<close>

text \<open>The passes of the loop while writing to the data connection succeeds, and all the bytes written.\<close>

fun send_loop ::
    "nat \<Rightarrow> ('p, 'w, 'am, 'cl, 'os) ftp_env \<Rightarrow> ('p, 'cl, 'w, 'am, 'os) ftp \<Rightarrow> (string \<times> ('p, 'cl, 'w, 'am, 'os) ftp) option" where
  "send_loop 0 env x = None"
| "send_loop (Suc n) env x =
     (if fx_phase x \<noteq> Phase_running then Some ([], x)
      else (case send_step env True x of
              (d, y) \<Rightarrow> map_option (\<lambda>(ds, z). (d @ ds, z)) (send_loop n env y)))"

text \<open>A binary transfer of a file of the disk that is under way.\<close>

definition sending ::
    "('p, 'w, 'am, 'cl, 'os) ftp_env \<Rightarrow> ('w \<Rightarrow> 'p \<Rightarrow> string option) \<Rightarrow> 'p wfde_file \<Rightarrow> ('p, 'cl, 'w, 'am, 'os) ftp \<Rightarrow> bool" where
  "sending env content f x \<longleftrightarrow> fx_phase x = Phase_running \<and> fx_file x = Some (Binary_file (Disk_file f))
     \<and> readable (e_fs env) content (fx_disk x) f \<and> \<not> wf_do_truncate f
     \<and> fx_transfer_open x = Some True \<and> \<not> fx_expired x \<and> \<not> fx_reply_failed x \<and> fx_socket_open x"

definition unsent :: "('w \<Rightarrow> 'p \<Rightarrow> string option) \<Rightarrow> 'w \<Rightarrow> 'p wfde_file \<Rightarrow> string" where
  "unsent content w f = drop (wf_pos f) (the (content w (wf_path f)))"

lemma tf_disk_simps:
  "tf_is_eof env (Binary_file (Disk_file f)) = wf_is_eof f"
  "tf_read env w (Binary_file (Disk_file f)) =
     (case wf_read (e_fs env) w 0 f of (r, g) \<Rightarrow> (r, Binary_file (Disk_file g)))"
  "tf_close env (Binary_file (Disk_file f), w) =
     (case wf_close (e_fs env) (f, w) of (r, g, w) \<Rightarrow> (r, Binary_file (Disk_file g), w))"
  by (simp_all add: tf_is_eof_def tf_read_def tf_close_def session_file_ops_def wfde_file_ops_def Let_def
      split: prod.splits)

lemma wf_close_plain:
  assumes "\<not> wf_do_truncate f"
  obtains g where "wf_close fs (f, w) = (Inr (), g, w)" and "\<not> wf_do_truncate g"
proof (rule that)
  show "wf_close fs (f, w) = (Inr (), if wf_closed f then f else unmap_file (f\<lparr>wf_closed := False\<rparr>), w)"
    using assms by (simp add: wf_close_def Let_def unmap_file_def unmap_region_def)
  show "\<not> wf_do_truncate (if wf_closed f then f else unmap_file (f\<lparr>wf_closed := False\<rparr>))"
    using assms by (simp add: unmap_file_def unmap_region_def)
qed

text \<open>
  The end of a transfer closes the file twice, in \<open>SendFile\<close> or \<open>ReceiveFile\<close> and in the destructor.
\<close>

lemma transfer_done_twice:
  assumes "fx_file x = Some f" and "tf_close env (f, fx_disk x) = (Inr (), g, w1)" and "tf_close env (g, w1) = (r, h, w2)"
    and "\<And>os m. fst (e_write env os m)" and "\<not> fx_reply_failed x" and "fx_socket_open x"
    and y_def: "y = transfer_done env verb x"
  shows "fx_phase y = Phase_none" "fx_file y = None" "fx_disk y = w2" "\<not> is_in_transfer (fx_state y)"
    "fx_sent y = fx_sent x @ [format_reply RC_CLOSING_DATA_CONNECTION (verb @ st_requested_path (fx_state x)) False]"
proof -
  let ?x = "x\<lparr>fx_transfer_open := Some False, fx_file := Some g, fx_disk := w1\<rparr>"
  let ?r = "ftp_send env RC_CLOSING_DATA_CONNECTION (verb @ st_requested_path (fx_state x)) False ?x"
  have c: "on_file (tf_close env) (x\<lparr>fx_transfer_open := Some False\<rparr>) = (Inr (), ?x)"
    using assms(1,2) by (simp add: on_file_def)
  have sent: "fx_sent ?r = fx_sent x @ [format_reply RC_CLOSING_DATA_CONNECTION (verb @ st_requested_path (fx_state x)) False]"
    using assms(5,6) by (subst ftp_send_sent[OF assms(4)]) simp_all
  have y: "y = transfer_returned env ?r" by (simp add: y_def transfer_done_def c)
  have "reset_file env (?r\<lparr>fx_abort := None, fx_transfer_open := None\<rparr>)
      = ?r\<lparr>fx_abort := None, fx_transfer_open := None, fx_file := None, fx_disk := w2\<rparr>"
    using assms(3) by (simp add: reset_file_def on_file_def)
  then have "y = ?r\<lparr>fx_abort := None, fx_transfer_open := None, fx_file := None, fx_disk := w2,
      fx_state := reset_transfer (fx_state ?r), fx_phase := Phase_none\<rparr>"
    by (simp add: y transfer_returned_def cleanup_transfer_def Let_def)
  then show "fx_phase y = Phase_none" "fx_file y = None" "fx_disk y = w2" "\<not> is_in_transfer (fx_state y)"
    "fx_sent y = fx_sent x @ [format_reply RC_CLOSING_DATA_CONNECTION (verb @ st_requested_path (fx_state x)) False]"
    by (simp_all add: sent reset_transfer_def is_in_transfer_def)
qed

text \<open>For a file that was only read, that changes nothing.\<close>

lemma transfer_done_sent:
  assumes "fx_file x = Some (Binary_file (Disk_file f))" and "\<not> wf_do_truncate f"
    and "\<And>os m. fst (e_write env os m)" and "\<not> fx_reply_failed x" and "fx_socket_open x"
    and y_def: "y = transfer_done env verb x"
  shows "fx_phase y = Phase_none" "fx_file y = None" "fx_disk y = fx_disk x" "\<not> is_in_transfer (fx_state y)"
    "fx_sent y = fx_sent x @ [format_reply RC_CLOSING_DATA_CONNECTION (verb @ st_requested_path (fx_state x)) False]"
proof -
  obtain g where g: "wf_close (e_fs env) (f, fx_disk x) = (Inr (), g, fx_disk x)" "\<not> wf_do_truncate g"
    by (rule wf_close_plain[OF assms(2)])
  obtain h where h: "wf_close (e_fs env) (g, fx_disk x) = (Inr (), h, fx_disk x)" "\<not> wf_do_truncate h"
    by (rule wf_close_plain[OF g(2)])
  have "tf_close env (Binary_file (Disk_file f), fx_disk x) = (Inr (), Binary_file (Disk_file g), fx_disk x)"
    and "tf_close env (Binary_file (Disk_file g), fx_disk x) = (Inr (), Binary_file (Disk_file h), fx_disk x)"
    using g(1) h(1) by (simp_all add: tf_disk_simps)
  note d = transfer_done_twice[OF assms(1) this assms(3-5) y_def]
  show "fx_phase y = Phase_none" "fx_file y = None" "fx_disk y = fx_disk x" "\<not> is_in_transfer (fx_state y)"
    "fx_sent y = fx_sent x @ [format_reply RC_CLOSING_DATA_CONNECTION (verb @ st_requested_path (fx_state x)) False]"
    by (fact d)+
qed

text \<open>The connection is made and, when transfers are encrypted, its handshake succeeds.\<close>

definition transfer_establish ::
    "('p, 'w, 'am, 'cl, 'os) ftp_env \<Rightarrow> ('p, 'cl, 'w, 'am, 'os) ftp \<Rightarrow> ('p, 'cl, 'w, 'am, 'os) ftp" where
  "transfer_establish env x =
     (let y = transfer_connect env True x in if fx_phase y = Phase_securing then transfer_secure env True y else y)"

text \<open>The start: the coroutine announces the transfer and the connection is made.\<close>

lemma transfer_opened:
  assumes "\<And>os m. fst (e_write env os m)" and "\<not> fx_reply_failed y" and "fx_socket_open y" and "\<not> fx_expired y"
    and "\<not> fx_closed y" and "\<not> fx_close_pending y"
    and v_def: "v = transfer_establish env (transfer_begin env y)"
  shows "fx_phase v = Phase_running" "fx_transfer_open v = Some True" "fx_file v = fx_file y" "fx_disk v = fx_disk y"
    "\<not> fx_expired v" "\<not> fx_reply_failed v" "fx_socket_open v"
    "fx_sent v = fx_sent y @ [format_reply RC_OPENING_CONNECTION [] False]"
    "st_requested_path (fx_state v) = st_requested_path (fx_state y)" "st_transfer (fx_state v) = st_transfer (fx_state y)"
proof -
  let ?z = "ftp_send env RC_OPENING_CONNECTION [] False y"
  have nf: "\<not> fx_reply_failed ?z"
    using assms(2) assms(1)[of "fx_os y" "format_reply RC_OPENING_CONNECTION [] False"]
    by (auto simp: ftp_send_def Let_def split: prod.splits bool.splits)
  have z: "fx_sent ?z = fx_sent y @ [format_reply RC_OPENING_CONNECTION [] False]"
    using assms(2,3) by (subst ftp_send_sent[OF assms(1)]) simp_all
  let ?a = "if st_initiation (fx_state ?z) = Init_port then fx_abort ?z else Some Abort_accept"
  have b: "transfer_begin env y = ?z\<lparr>fx_phase := Phase_connecting, fx_abort := ?a\<rparr>"
    using nf assms(4-6) by (simp add: transfer_begin_def Let_def)
  have v: "v = ?z\<lparr>fx_abort := Some Abort_socket, fx_transfer_open := Some True, fx_phase := Phase_running\<rparr>"
    by (simp add: v_def b transfer_establish_def transfer_connect_def transfer_secure_def transfer_enter_def Let_def)
  show "fx_phase v = Phase_running" "fx_transfer_open v = Some True" "fx_file v = fx_file y" "fx_disk v = fx_disk y"
    "\<not> fx_expired v" "\<not> fx_reply_failed v" "fx_socket_open v"
    "fx_sent v = fx_sent y @ [format_reply RC_OPENING_CONNECTION [] False]"
    "st_requested_path (fx_state v) = st_requested_path (fx_state y)" "st_transfer (fx_state v) = st_transfer (fx_state y)"
    using nf z assms(3,4) by (simp_all add: v)
qed

lemma transfer_touch_fields [simp]:
  "fx_phase (transfer_touch env x) = fx_phase x" "fx_file (transfer_touch env x) = fx_file x"
  "fx_disk (transfer_touch env x) = fx_disk x" "fx_transfer_open (transfer_touch env x) = fx_transfer_open x"
  "fx_expired (transfer_touch env x) = fx_expired x" "fx_reply_failed (transfer_touch env x) = fx_reply_failed x"
  "fx_socket_open (transfer_touch env x) = fx_socket_open x" "fx_sent (transfer_touch env x) = fx_sent x"
  "fx_state (transfer_touch env x) = fx_state x"
  by (simp_all add: transfer_touch_def Let_def)

lemma sending_step:
  assumes "sending env content f x" and "\<not> wf_is_eof f"
  obtains d g y where "send_step env True x = (d, y)" and "sending env content g y"
    and "unsent content (fx_disk x) f = d @ unsent content (fx_disk y) g"
    and "wf_file_size g - wf_pos g < wf_file_size f - wf_pos f"
    and "fx_sent y = fx_sent x" and "fx_disk y = fx_disk x"
    and "st_requested_path (fx_state y) = st_requested_path (fx_state x)"
proof -
  have r: "readable (e_fs env) content (fx_disk x) f" using assms(1) by (simp add: sending_def)
  then have lt: "wf_pos f < wf_file_size f" and ok: "file_ok f"
    using assms(2) by (auto simp: readable_def wf_is_eof_def file_ok_def)
  let ?d = "take (buffer_len 0 f) (drop (wf_pos f) (the (content (fx_disk x) (wf_path f))))" and ?g = "mapped 0 f"
  have ch: "chunk_ok f 0" using ok by (simp add: chunk_ok_def file_ok_def)
  have read: "wf_read (e_fs env) (fx_disk x) 0 f = (Inr ?d, ?g)" by (rule wf_read_eq[OF r ch lt])
  have rg: "readable (e_fs env) content (fx_disk x) ?g" using r file_ok_mapped[OF ok ch lt] by (simp add: readable_def)
  have ne: "?d \<noteq> []" using r lt buffer_len_bounds[OF ok ch lt] by (auto simp: readable_def)
  let ?y = "transfer_touch env (x\<lparr>fx_file := Some (Binary_file (Disk_file ?g))\<rparr>)"
  have "send_step env True x = (?d, ?y)"
    using assms ne read by (simp add: send_step_def sending_def tf_disk_simps on_file_def)
  moreover have "sending env content ?g ?y" using assms(1) rg by (simp add: sending_def)
  moreover have "unsent content (fx_disk x) f = ?d @ unsent content (fx_disk ?y) ?g"
    by (simp add: unsent_def) (metis append_take_drop_id drop_drop add.commute)
  ultimately show ?thesis using that lt buffer_len_bounds[OF ok ch lt] by auto
qed

lemma send_loop_complete:
  assumes "sending env content f x" and "wf_file_size f - wf_pos f + 1 < fuel"
    and "\<And>os m. fst (e_write env os m)"
  shows "\<exists>y. send_loop fuel env x = Some (unsent content (fx_disk x) f, y)
    \<and> fx_phase y = Phase_none \<and> fx_file y = None \<and> fx_disk y = fx_disk x \<and> \<not> is_in_transfer (fx_state y)
    \<and> fx_sent y = fx_sent x @
        [format_reply RC_CLOSING_DATA_CONNECTION (''Successfully sent '' @ st_requested_path (fx_state x)) False]"
  using assms(1,2)
proof (induction fuel arbitrary: f x)
  case (Suc fuel)
  have run: "fx_phase x = Phase_running" using Suc.prems(1) by (simp add: sending_def)
  show ?case
  proof (cases "wf_is_eof f")
    case True
    then have none: "unsent content (fx_disk x) f = []"
      using Suc.prems(1) by (auto simp: unsent_def sending_def readable_def wf_is_eof_def)
    let ?y = "transfer_done env ''Successfully sent '' x"
    have "send_step env True x = ([], ?y)"
      using Suc.prems(1) True by (simp add: send_step_def sending_def tf_disk_simps)
    moreover obtain k where "fuel = Suc k" using Suc.prems(2) by (cases fuel) auto
    moreover note d = transfer_done_sent[where x = x and f = f and env = env and verb = "''Successfully sent ''", OF _ _ assms(3) _ _ refl]
    ultimately show ?thesis using Suc.prems(1) run none by (simp add: d sending_def)
  next
    case False
    obtain d g y where s: "send_step env True x = (d, y)" "sending env content g y"
      "unsent content (fx_disk x) f = d @ unsent content (fx_disk y) g"
      "wf_file_size g - wf_pos g < wf_file_size f - wf_pos f" "fx_sent y = fx_sent x" "fx_disk y = fx_disk x"
      "st_requested_path (fx_state y) = st_requested_path (fx_state x)"
      by (rule sending_step[OF Suc.prems(1) False])
    have "wf_file_size g - wf_pos g + 1 < fuel" using s(4) Suc.prems(2) by simp
    from Suc.IH[OF s(2) this] show ?thesis using run s by auto
  qed
qed simp
section \<open>RETR\<close>

text \<open>The state in which the transfer of an opened file waits for its coroutine to start.\<close>

lemma retr_spawns:
  assumes "reads_file (e_fs env) content (p_ppath p)" and "0 < e_page env" and "8 * e_page env < 2 ^ 64"
    and "\<not> fx_hung x" and "\<not> st_abort_pending (fx_state x)"
    and "session_get_path (e_fs env) (fx_ses x) param FILE = Inr p" and "can_read p"
    and "content (fx_disk x) (p_ppath p) = Some b" and "length b < 2 ^ 64" and "get_type (fx_state x) = Type_bin"
    and y_def: "y = run_handler env Cmd_retr param match x"
  obtains f where "readable (e_fs env) content (fx_disk x) f" "wf_pos f = 0" "wf_path f = p_ppath p"
    "wf_file_size f = length b" "\<not> wf_do_truncate f" "fx_file y = Some (Binary_file (Disk_file f))"
    "fx_phase y = Phase_spawned" "fx_disk y = fx_disk x" "conn y = conn x"
    "st_requested_path (fx_state y) = param" "st_encrypt_transfers (fx_state y) = st_encrypt_transfers (fx_state x)"
    "st_transfer (fx_state y) = Transfer_outgoing"
proof -
  obtain f where f: "wfde_file_new (e_fs env) (e_page env) (fx_disk x) (p_ppath p) READ = (Inr f, fx_disk x)"
    "readable (e_fs env) content (fx_disk x) f" "wf_pos f = 0" "wf_path f = p_ppath p" "wf_file_size f = length b"
    using wfde_file_new_read[OF assms(1,8,9,2,3)] by blast
  then have op: "wf_operation f = READ" "\<not> wf_do_truncate f"
    by (auto simp: wfde_file_new_def wf_prepare_def wf_open_def map_file_def Let_def bindS_def unmap_region_def
        split: sum.splits prod.splits option.splits if_splits)
  let ?x = "set_requested_path param (x\<lparr>fx_reply := ftp_reply_new\<rparr>)"
  have t: "get_type (fx_state ?x) = Type_bin" using assms(10) by (simp add: set_requested_path_def get_type_def split: if_splits)
  have "on_disk (session_open_file (e_fs env) (e_page env) (fx_ses ?x) param READ) ?x = (Inr f, ?x\<lparr>fx_disk := fx_disk x\<rparr>)"
    using assms(6,7) f(1) by (simp add: on_disk_def session_open_file_def open_file_authorized_def)
  then have h: "on_cmd env Cmd_retr param match (x\<lparr>fx_reply := ftp_reply_new\<rparr>)
      = (Inr (), start_transfer (Disk_file f) (?x\<lparr>fx_disk := fx_disk x\<rparr>))"
    using t by (simp add: on_retr_def on_retr_stor_def open_and_start_def Let_def)
  let ?y = "start_transfer (Disk_file f) (?x\<lparr>fx_disk := fx_disk x\<rparr>)"
  have "y = ?y\<lparr>fx_ses := session_touch (e_clock env (fx_os ?y)) (fx_ses ?y), fx_prev_cmd := get_name Cmd_retr\<rparr>"
    using assms(4,5) unfolding y_def run_handler_def h
    by (simp add: Let_def start_transfer_def set_requested_path_def ftp_reply_new_def)
  then show ?thesis using f op t
    by (intro that[of f])
       (simp_all add: start_transfer_def set_requested_path_def Let_def get_type_def transfer_file_operation_def
          session_file_operation_def conn_def)
qed

text \<open>
  A download as the session sees it: asked for with RETR by a client with the right to read, in binary
  mode, when the connection is made and every write succeeds. What it sends on the wire is stated in
  \<open>FtpPrivate\<close>.
\<close>

lemma retr_sends:
  assumes "reads_file (e_fs env) content (p_ppath p)" and "0 < e_page env" and "8 * e_page env < 2 ^ 64"
    and "\<And>os m. fst (e_write env os m)"
    and "ftp_alive x" and "\<not> fx_closed x" and "\<not> st_abort_pending (fx_state x)"
    and "session_get_path (e_fs env) (fx_ses x) param FILE = Inr p" and "can_read p"
    and "content (fx_disk x) (p_ppath p) = Some b" and "length b < 2 ^ 64" and "get_type (fx_state x) = Type_bin"
  shows "\<exists>y. send_loop (length b + 2) env
        (transfer_establish env (transfer_begin env (run_handler env Cmd_retr param match x))) = Some (b, y)
    \<and> fx_phase y = Phase_none \<and> fx_file y = None \<and> fx_disk y = fx_disk x \<and> \<not> is_in_transfer (fx_state y)
    \<and> fx_sent y = fx_sent x @ [format_reply RC_OPENING_CONNECTION [] False,
        format_reply RC_CLOSING_DATA_CONNECTION (''Successfully sent '' @ param) False]"
    and "fx_phase (transfer_establish env (transfer_begin env (run_handler env Cmd_retr param match x))) = Phase_running"
    and "st_encrypt_transfers (fx_state (transfer_begin env (run_handler env Cmd_retr param match x)))
      = st_encrypt_transfers (fx_state x)"
proof -
  let ?y = "run_handler env Cmd_retr param match x"
  have alive: "\<not> fx_hung x" using assms(5) by (simp add: ftp_alive_def)
  obtain f where f: "readable (e_fs env) content (fx_disk x) f" "wf_pos f = 0" "wf_path f = p_ppath p"
    "wf_file_size f = length b" "\<not> wf_do_truncate f" "fx_file ?y = Some (Binary_file (Disk_file f))"
    and y: "fx_phase ?y = Phase_spawned" "fx_disk ?y = fx_disk x" "conn ?y = conn x"
    "st_requested_path (fx_state ?y) = param" "st_encrypt_transfers (fx_state ?y) = st_encrypt_transfers (fx_state x)"
    by (rule retr_spawns[OF assms(1-3) alive assms(7-12) refl])
  have c: "fx_sent ?y = fx_sent x" "\<not> fx_reply_failed ?y" "fx_socket_open ?y" "\<not> fx_expired ?y" "\<not> fx_closed ?y"
    "\<not> fx_close_pending ?y"
    using y(3) assms(5,6) by (simp_all add: conn_def ftp_alive_def)
  define w where "w = transfer_establish env (transfer_begin env ?y)"
  note w = transfer_opened[OF assms(4) c(2-6) w_def]
  have "sending env content f w" using f y(2) w by (simp add: sending_def)
  moreover have "wf_file_size f - wf_pos f + 1 < length b + 2" by (simp add: f)
  ultimately obtain v where v: "send_loop (length b + 2) env w = Some (unsent content (fx_disk w) f, v)"
    "fx_phase v = Phase_none" "fx_file v = None" "fx_disk v = fx_disk w" "\<not> is_in_transfer (fx_state v)"
    "fx_sent v = fx_sent w @
        [format_reply RC_CLOSING_DATA_CONNECTION (''Successfully sent '' @ st_requested_path (fx_state w)) False]"
    using send_loop_complete[OF _ _ assms(4)] by blast
  have "unsent content (fx_disk w) f = b" using f y w(4) assms(10) by (simp add: unsent_def)
  then show "\<exists>y. send_loop (length b + 2) env
        (transfer_establish env (transfer_begin env (run_handler env Cmd_retr param match x))) = Some (b, y)
    \<and> fx_phase y = Phase_none \<and> fx_file y = None \<and> fx_disk y = fx_disk x \<and> \<not> is_in_transfer (fx_state y)
    \<and> fx_sent y = fx_sent x @ [format_reply RC_OPENING_CONNECTION [] False,
        format_reply RC_CLOSING_DATA_CONNECTION (''Successfully sent '' @ param) False]"
    unfolding w_def[symmetric] using v y w c(1) by auto
  show "fx_phase (transfer_establish env (transfer_begin env ?y)) = Phase_running" using w(1) by (simp only: w_def)
  show "st_encrypt_transfers (fx_state (transfer_begin env ?y)) = st_encrypt_transfers (fx_state x)"
    using y(5) by (simp add: transfer_begin_def Let_def reset_transfer_def)
qed

text \<open>A session that is ready for a binary transfer.\<close>

definition demo_ready :: "(demo_path, nat, demo_disk, demo_path auth_manager, int) ftp" where
  "demo_ready = after_requests [''USER bob'', ''PASS pw'', ''TYPE I'', ''PASV'']"

lemma demo_ready_facts:
  "ftp_alive demo_ready" "\<not> fx_closed demo_ready" "\<not> st_abort_pending (fx_state demo_ready)"
  "get_type (fx_state demo_ready) = Type_bin" "\<not> st_encrypt_transfers (fx_state demo_ready)" "st_rest (fx_state demo_ready) = 0"
proof -
  have *: "ftp_alive demo_ready \<and> \<not> fx_closed demo_ready \<and> \<not> st_abort_pending (fx_state demo_ready)
    \<and> get_type (fx_state demo_ready) = Type_bin \<and> \<not> st_encrypt_transfers (fx_state demo_ready)
    \<and> st_rest (fx_state demo_ready) = 0" by code_simp
  then show "ftp_alive demo_ready" "\<not> fx_closed demo_ready" "\<not> st_abort_pending (fx_state demo_ready)"
    "get_type (fx_state demo_ready) = Type_bin" "\<not> st_encrypt_transfers (fx_state demo_ready)"
    "st_rest (fx_state demo_ready) = 0" by simp_all
qed

lemma demo_env_facts:
  "fs_lawful (e_fs demo_env) demo_content" "0 < e_page demo_env" "fst (e_write demo_env os m)"
  "fs_maps (e_fs demo_env) demo_content p" "fs_resizes (e_fs demo_env) demo_content p" "5000 * e_page demo_env < 2 ^ 64"
  using demo_lawful by (simp_all add: demo_env_def)

end
