(* ===== verification/FtpUpload.thy ===== *)
theory FtpUpload
  imports FtpDownload
begin

text \<open>
  An upload from the request to the last reply: STOR or APPE opens the file, the coroutine announces
  the transfer, the connection is made, the loop of \<open>ReceiveFile\<close> takes the chunks that arrive, and
  the peer finishes.
\<close>

section \<open>The loop of ReceiveFile\<close>

text \<open>The chunks arrive one after the other, then the peer closes; TLS, if any, is shut down well.\<close>

definition receive_loop ::
    "('p, 'w, 'am, 'cl, 'os) ftp_env \<Rightarrow> string list \<Rightarrow> ('p, 'cl, 'w, 'am, 'os) ftp \<Rightarrow> ('p, 'cl, 'w, 'am, 'os) ftp" where
  "receive_loop env ds x =
     receive_step env Peer_finished True (fold (\<lambda>d. receive_step env (Received d) True) ds x)"

text \<open>A binary transfer into a file of the disk that is under way; \<open>pre\<close> is what the file must hold so far.\<close>

definition receiving ::
    "('p, 'w, 'am, 'cl, 'os) ftp_env \<Rightarrow> ('w \<Rightarrow> 'p \<Rightarrow> string option) \<Rightarrow> string \<Rightarrow> 'p wfde_file \<Rightarrow>
     ('p, 'cl, 'w, 'am, 'os) ftp \<Rightarrow> bool" where
  "receiving env content pre f x \<longleftrightarrow> fx_file x = Some (Binary_file (Disk_file f))
     \<and> writable (e_fs env) content pre f (fx_disk x)
     \<and> fx_transfer_open x = Some True \<and> \<not> fx_expired x \<and> \<not> fx_reply_failed x \<and> fx_socket_open x"

lemma tf_disk_write_simps:
  "tf_write env (Binary_file (Disk_file f), w) =
     (case wf_write (e_fs env) 0 (f, w) of (r, g, w) \<Rightarrow> (r, Binary_file (Disk_file g), w))"
  "tf_fill env d (Binary_file (Disk_file f), w) =
     (case wf_fill (e_fs env) d (f, w) of (g, w) \<Rightarrow> (Binary_file (Disk_file g), w))"
  "tf_set_bytes_written env n (Binary_file (Disk_file f), w) = (Inr (), Binary_file (Disk_file (wf_set_bytes_written n f)), w)"
  by (simp_all add: tf_write_def tf_fill_def tf_set_bytes_written_def session_file_ops_def wfde_file_ops_def Let_def
      split: prod.splits)

lemma receiving_write:
  assumes "receiving env content pre f x"
  obtains g w where "on_file (tf_write env) x
      = (Inr (wf_segment_size f), x\<lparr>fx_file := Some (Binary_file (Disk_file g)), fx_disk := w\<rparr>)"
    and "pending (e_fs env) content pre (wf_segment_size f) g w" and "wf_path g = wf_path f"
    and "wf_segment_size g = wf_segment_size f"
proof -
  have "writable (e_fs env) content pre f (fx_disk x)" using assms by (simp add: receiving_def)
  from wf_write_pending[OF this, of "wf_segment_size f" 0] obtain g w where
    "wf_write (e_fs env) 0 (f, fx_disk x) = (Inr (wf_segment_size f), g, w)"
    "pending (e_fs env) content pre (wf_segment_size f) g w" "wf_path g = wf_path f" "wf_segment_size g = wf_segment_size f"
    by auto
  then show ?thesis using assms by (intro that[of w g]) (simp_all add: on_file_def receiving_def tf_disk_write_simps)
qed

text \<open>One chunk.\<close>

lemma receiving_step:
  assumes "receiving env content pre f x" and "length d \<le> wf_segment_size f"
    and "length pre + length d + 4096 * wf_segment_size f < 2 ^ 64"
    and y_def: "y = receive_step env (Received d) True x"
  obtains g where "receiving env content (pre @ d) g y" and "wf_path g = wf_path f" and "wf_segment_size g = wf_segment_size f"
    and "fx_sent y = fx_sent x" and "st_requested_path (fx_state y) = st_requested_path (fx_state x)"
proof -
  obtain g w where g: "on_file (tf_write env) x
      = (Inr (wf_segment_size f), x\<lparr>fx_file := Some (Binary_file (Disk_file g)), fx_disk := w\<rparr>)"
    "pending (e_fs env) content pre (wf_segment_size f) g w" "wf_path g = wf_path f" "wf_segment_size g = wf_segment_size f"
    by (rule receiving_write[OF assms(1)])
  obtain g1 w1 where fw: "(g1, w1) = wf_fill (e_fs env) d (g, w)" by (metis prod.exhaust)
  let ?h = "wf_set_bytes_written (length d) g1"
  have "length pre + length d + 4096 * wf_segment_size g < 2 ^ 64" using assms(3) g(4) by simp
  note set = wf_fill_set_writable[OF g(2) assms(2) this fw]
  have d: "take (wf_segment_size f) d = d" using assms(2) by simp
  have y: "y = transfer_touch env (x\<lparr>fx_file := Some (Binary_file (Disk_file ?h)), fx_disk := w1\<rparr>)"
    using assms(1) unfolding y_def receive_step_def g(1)
    by (simp add: receiving_def d on_file_def tf_disk_write_simps fw[symmetric] Let_def)
  have "receiving env content (pre @ d) ?h y" using assms(1) set by (simp add: receiving_def y)
  then show ?thesis using set g(3,4) by (intro that[of ?h]) (simp_all add: y)
qed

lemma receiving_chunks:
  assumes "receiving env content pre f x" and "list_all (\<lambda>d. length d \<le> wf_segment_size f) ds"
    and "length pre + length (concat ds) + 4096 * wf_segment_size f < 2 ^ 64"
  shows "\<exists>g. receiving env content (pre @ concat ds) g (fold (\<lambda>d. receive_step env (Received d) True) ds x)
    \<and> wf_path g = wf_path f \<and> fx_sent (fold (\<lambda>d. receive_step env (Received d) True) ds x) = fx_sent x
    \<and> st_requested_path (fx_state (fold (\<lambda>d. receive_step env (Received d) True) ds x)) = st_requested_path (fx_state x)"
  using assms
proof (induction ds arbitrary: pre f x)
  case (Cons d ds)
  have d: "length d \<le> wf_segment_size f" "length pre + length d + 4096 * wf_segment_size f < 2 ^ 64"
    using Cons.prems(2,3) by simp_all
  obtain g where g: "receiving env content (pre @ d) g (receive_step env (Received d) True x)" "wf_path g = wf_path f"
    "wf_segment_size g = wf_segment_size f" "fx_sent (receive_step env (Received d) True x) = fx_sent x"
    "st_requested_path (fx_state (receive_step env (Received d) True x)) = st_requested_path (fx_state x)"
    by (rule receiving_step[OF Cons.prems(1) d refl])
  have "list_all (\<lambda>d. length d \<le> wf_segment_size g) ds"
    "length (pre @ d) + length (concat ds) + 4096 * wf_segment_size g < 2 ^ 64" using Cons.prems(2,3) g(3) by simp_all
  from Cons.IH[OF g(1) this] g(2-5) show ?case by simp
qed auto

section \<open>The end\<close>

text \<open>Closing cuts the padding off, and doing it again changes nothing.\<close>

lemma wf_close_cut:
  assumes "writes_file fs content (wf_path f)" and "content w (wf_path f) = Some c" and "take (length pre) c = pre"
    and "wf_end_of_file_pos f = length pre" and "wf_do_truncate f" and "\<not> wf_closed f"
    and "wf_file_size f \<le> length pre \<longrightarrow> c = pre"
  obtains g w' where "wf_close fs (f, w) = (Inr (), g, w')" and "content w' (wf_path f) = Some pre"
    and "wf_path g = wf_path f" and "wf_end_of_file_pos g = length pre" and "wf_do_truncate g" and "\<not> wf_closed g"
proof -
  let ?g = "unmap_file (f\<lparr>wf_closed := False\<rparr>)"
  let ?w = "if wf_file_size f > length pre then snd (fs_resize_file fs w (wf_path f) (length pre)) else w"
  have "fs_is_regular_file fs w (wf_path f) = Inr True"
    using file_status_size(1)[OF reads_fileD[OF writes_fileD[OF assms(1)]] assms(2)] by (simp add: fs_is_regular_file_def)
  then have "wf_close fs (f, w) = (Inr (), ?g, ?w)" using assms(4-6) by (simp add: wf_close_def Let_def)
  moreover have "length pre \<le> length c" using arg_cong[OF assms(3), of length] by simp
  obtain w' where "fs_resize_file fs w (wf_path f) (length pre) = (Inr (), w')"
    "content w' (wf_path f) = Some (take (length pre) c @ replicate (length pre - length c) nul)"
    by (rule file_resize[OF assms(1,2)])
  with \<open>length pre \<le> length c\<close> have "content ?w (wf_path f) = Some pre" using assms(2,3,7) by simp
  moreover have "\<not> wf_closed ?g" by (simp add: unmap_file_def unmap_region_def)
  ultimately show ?thesis using assms(4,5) by (intro that[of ?g ?w]) simp_all
qed

lemma receiving_ends:
  assumes "receiving env content pre f x" and "\<And>os m. fst (e_write env os m)"
    and y_def: "y = receive_step env Peer_finished True x"
  shows "content (fx_disk y) (wf_path f) = Some pre" "fx_phase y = Phase_none" "fx_file y = None" "\<not> is_in_transfer (fx_state y)"
    "fx_sent y = fx_sent x @ [format_reply RC_CLOSING_DATA_CONNECTION (''Successfully received '' @ st_requested_path (fx_state x)) False]"
proof -
  have law: "writes_file (e_fs env) content (wf_path f)" using assms(1) by (simp add: receiving_def writable_def)
  obtain g w where g: "on_file (tf_write env) x
      = (Inr (wf_segment_size f), x\<lparr>fx_file := Some (Binary_file (Disk_file g)), fx_disk := w\<rparr>)"
    "pending (e_fs env) content pre (wf_segment_size f) g w" "wf_path g = wf_path f"
    by (rule receiving_write[OF assms(1)])
  let ?h = "wf_set_bytes_written 0 g" and ?x = "x\<lparr>fx_file := Some (Binary_file (Disk_file (wf_set_bytes_written 0 g))), fx_disk := w\<rparr>"
  have seg: "0 < wf_segment_size f" using assms(1) by (simp add: receiving_def writable_def file_ok_def)
  from g(2) obtain c where c: "content w (wf_path g) = Some c" "take (length pre) c = pre" "length pre < wf_file_size g"
    "wf_pos g = length pre + wf_segment_size f" "wf_last_buffer_len g = wf_segment_size f" "\<not> wf_closed g"
    by (auto simp: pending_def)
  have h: "wf_path ?h = wf_path f" "wf_end_of_file_pos ?h = length pre" "wf_do_truncate ?h" "\<not> wf_closed ?h"
    "wf_file_size ?h = wf_file_size g"
    using c g(2,3) seg by (simp_all add: wf_set_bytes_written_def Let_def u64_sub_def pending_def)
  have lh: "writes_file (e_fs env) content (wf_path ?h)" using law h(1) by simp
  have c1: "content w (wf_path ?h) = Some c" and f1: "wf_file_size ?h \<le> length pre \<longrightarrow> c = pre" using c(1,3) h g(3) by simp_all
  obtain h1 w1 where h1: "wf_close (e_fs env) (?h, w) = (Inr (), h1, w1)" "content w1 (wf_path ?h) = Some pre"
    "wf_path h1 = wf_path ?h" "wf_end_of_file_pos h1 = length pre" "wf_do_truncate h1" "\<not> wf_closed h1"
    by (rule wf_close_cut[OF lh c1 c(2) h(2-4) f1])
  have lh1: "writes_file (e_fs env) content (wf_path h1)" using lh h1(3) by simp
  have c2: "content w1 (wf_path h1) = Some pre" using h1(2,3) by simp
  obtain h2 w2 where h2: "wf_close (e_fs env) (h1, w1) = (Inr (), h2, w2)" "content w2 (wf_path h1) = Some pre"
    by (rule wf_close_cut[OF lh1 c2 _ h1(4-6)]) simp_all
  have t: "tf_close env (Binary_file (Disk_file ?h), fx_disk ?x) = (Inr (), Binary_file (Disk_file h1), w1)"
    "tf_close env (Binary_file (Disk_file h1), w1) = (Inr (), Binary_file (Disk_file h2), w2)"
    using h1(1) h2(1) by (simp_all add: tf_disk_simps)
  have y: "y = transfer_done env ''Successfully received '' ?x"
    unfolding y_def receive_step_def g(1) by (simp add: on_file_def tf_disk_write_simps)
  have "fx_file ?x = Some (Binary_file (Disk_file ?h))" "\<not> fx_reply_failed ?x" "fx_socket_open ?x"
    using assms(1) by (simp_all add: receiving_def)
  note d = transfer_done_twice[OF this(1) t assms(2) this(2,3) y]
  show "content (fx_disk y) (wf_path f) = Some pre" using d(3) h2(2) h1(3) h(1) by simp
  show "fx_phase y = Phase_none" "fx_file y = None" "\<not> is_in_transfer (fx_state y)"
    "fx_sent y = fx_sent x @ [format_reply RC_CLOSING_DATA_CONNECTION (''Successfully received '' @ st_requested_path (fx_state x)) False]"
    using d by simp_all
qed
section \<open>STOR and APPE\<close>

definition store_operation :: "ftp_cmd \<Rightarrow> file_operation" where
  "store_operation cmd = (if cmd = Cmd_appe then APPEND else WRITE)"

text \<open>The state in which the transfer into an opened file waits for its coroutine to start.\<close>

lemma stor_spawns:
  assumes "writes_file (e_fs env) content (p_ppath p)" and "0 < e_page env" and "\<not> fx_hung x" and "\<not> st_abort_pending (fx_state x)"
    and "session_get_path (e_fs env) (fx_ses x) param FILE = Inr p" and "can_write p"
    and "can_store (e_fs env) content (fx_disk x) (p_ppath p) b"
    and "get_type (fx_state x) = Type_bin" and "st_rest (fx_state x) = 0" and "cmd = Cmd_stor \<or> cmd = Cmd_appe"
    and "length b + 4096 * e_page env < 2 ^ 64"
    and y_def: "y = run_handler env cmd param match x"
  obtains f where "writable (e_fs env) content (if cmd = Cmd_appe then b else []) f (fx_disk y)" "wf_path f = p_ppath p"
    "wf_segment_size f = e_page env" "fx_file y = Some (Binary_file (Disk_file f))" "conn y = conn x"
    "st_requested_path (fx_state y) = param" "st_encrypt_transfers (fx_state y) = st_encrypt_transfers (fx_state x)"
proof -
  let ?op = "store_operation cmd"
  have op: "?op \<noteq> READ" "?op \<noteq> WRITE_NEW" "?op = APPEND \<longleftrightarrow> cmd = Cmd_appe" by (simp_all add: store_operation_def)
  from wfde_file_new_writable[OF assms(1,2) op(1) assms(7) _ assms(11)] op(2) obtain f w1 where
    f: "wfde_file_new (e_fs env) (e_page env) (fx_disk x) (p_ppath p) ?op = (Inr f, w1)"
    "writable (e_fs env) content (if cmd = Cmd_appe then b else []) f w1" "wf_path f = p_ppath p" "wf_segment_size f = e_page env"
    using op(3) by auto
  let ?x = "set_requested_path param (x\<lparr>fx_reply := ftp_reply_new\<rparr>)"
  have x: "fx_ses ?x = fx_ses x" "fx_disk ?x = fx_disk x" "get_type (fx_state ?x) = Type_bin" "st_rest (fx_state ?x) = 0"
    using assms(8,9) by (simp_all add: set_requested_path_def get_type_def split: if_splits)
  have "open_file_authorized p ?op" using assms(6) by (simp add: open_file_authorized_def store_operation_def)
  then have "on_disk (session_open_file (e_fs env) (e_page env) (fx_ses ?x) param ?op) ?x = (Inr f, ?x\<lparr>fx_disk := w1\<rparr>)"
    using assms(5) f(1) x by (simp add: on_disk_def session_open_file_def)
  moreover have "st_requested_path (fx_state ?x) = param" by (simp add: set_requested_path_def)
  ultimately have h: "on_cmd env cmd param match (x\<lparr>fx_reply := ftp_reply_new\<rparr>)
      = (Inr (), start_transfer (Disk_file f) (?x\<lparr>fx_disk := w1\<rparr>))"
    using assms(10) x(4)
    by (elim disjE) (simp_all add: on_stor_def on_retr_stor_def on_appe_def open_and_start_def store_operation_def Let_def)
  let ?y = "start_transfer (Disk_file f) (?x\<lparr>fx_disk := w1\<rparr>)"
  have "y = ?y\<lparr>fx_ses := session_touch (e_clock env (fx_os ?y)) (fx_ses ?y), fx_prev_cmd := get_name cmd\<rparr>"
    using assms(3,4) unfolding y_def run_handler_def h
    by (simp add: Let_def start_transfer_def set_requested_path_def ftp_reply_new_def)
  then show ?thesis using f x(3)
    by (intro that[of f])
       (simp_all add: start_transfer_def set_requested_path_def Let_def get_type_def conn_def)
qed

text \<open>C12: an upload stores the data. Let a client with the right to write ask with STOR or APPE for a
  file, which exists, or is missing and can be created, and which can be mapped and resized, in binary
  mode and without REST; let the connection be made, with its
  handshake when transfers are encrypted, every write succeed, and the data arrive in any chunks that fit the buffer
  (with a total that a
  64-bit size can hold, the 4096 pages included by which the file may grow). Then the file
  holds exactly the data, after its old content for APPE, whatever the sizes of chunks, page and file;
  the client was told of the start and the success of the transfer by two replies and nothing else,
  the file is closed and the session is ready for the next transfer.\<close>
theorem stor_stores:
  assumes "fs_lawful (e_fs env) content" and "fs_maps (e_fs env) content (p_ppath p)"
    and "fs_resizes (e_fs env) content (p_ppath p)"
    and "0 < e_page env" and "\<And>os m. fst (e_write env os m)"
    and "ftp_alive x" and "\<not> fx_closed x" and "\<not> st_abort_pending (fx_state x)"
    and "session_get_path (e_fs env) (fx_ses x) param FILE = Inr p" and "can_write p"
    and "content (fx_disk x) (p_ppath p) = Some b
      \<or> fs_status (e_fs env) (fx_disk x) (p_ppath p) = Inr File_not_found
        \<and> content (fs_touch (e_fs env) (fx_disk x) (p_ppath p)) (p_ppath p) = Some [] \<and> b = []"
    and "get_type (fx_state x) = Type_bin" and "st_rest (fx_state x) = 0"
    and "cmd = Cmd_stor \<or> cmd = Cmd_appe" and "list_all (\<lambda>d. length d \<le> e_page env) ds"
    and "length b + length (concat ds) + 4096 * e_page env < 2 ^ 64"
    and "y = receive_loop env ds (transfer_establish env (transfer_begin env (run_handler env cmd param match x)))"
  shows "content (fx_disk y) (p_ppath p) = Some ((if cmd = Cmd_appe then b else []) @ concat ds)
    \<and> fx_phase y = Phase_none \<and> fx_file y = None \<and> \<not> is_in_transfer (fx_state y)
    \<and> fx_sent y = fx_sent x @ [format_reply RC_OPENING_CONNECTION [] False,
        format_reply RC_CLOSING_DATA_CONNECTION (''Successfully received '' @ param) False]"
proof -
  let ?y = "run_handler env cmd param match x" and ?pre = "if cmd = Cmd_appe then b else []"
  have alive: "\<not> fx_hung x" using assms(6) by (simp add: ftp_alive_def)
  have law: "writes_file (e_fs env) content (p_ppath p)" using assms(1-3) by (simp add: writes_file_def reads_file_def)
  have old: "can_store (e_fs env) content (fx_disk x) (p_ppath p) b" "length b + 4096 * e_page env < 2 ^ 64"
    using assms(11,16) by (simp_all add: can_store_def)
  obtain f where f: "writable (e_fs env) content ?pre f (fx_disk ?y)" "wf_path f = p_ppath p" "wf_segment_size f = e_page env"
    "fx_file ?y = Some (Binary_file (Disk_file f))" and c: "conn ?y = conn x"
    and r: "st_requested_path (fx_state ?y) = param" "st_encrypt_transfers (fx_state ?y) = st_encrypt_transfers (fx_state x)"
    by (rule stor_spawns[OF law assms(4) alive assms(8-10) old(1) assms(12-14) old(2) refl])
  define w where "w = transfer_establish env (transfer_begin env ?y)"
  have "\<not> fx_reply_failed ?y" "fx_socket_open ?y" "\<not> fx_expired ?y" "\<not> fx_closed ?y" "\<not> fx_close_pending ?y"
    and sent: "fx_sent ?y = fx_sent x"
    using c assms(6,7) by (simp_all add: conn_def ftp_alive_def)
  note w = transfer_opened[OF assms(5) this(1-5) w_def]
  have rec: "receiving env content ?pre f w" using f w by (simp add: receiving_def)
  let ?z = "fold (\<lambda>d. receive_step env (Received d) True) ds w"
  have "list_all (\<lambda>d. length d \<le> wf_segment_size f) ds"
    "length ?pre + length (concat ds) + 4096 * wf_segment_size f < 2 ^ 64" using assms(15,16) f(3) by auto
  from receiving_chunks[OF rec this] obtain g where
    g: "receiving env content (?pre @ concat ds) g ?z" "wf_path g = wf_path f" "fx_sent ?z = fx_sent w"
    "st_requested_path (fx_state ?z) = st_requested_path (fx_state w)" by blast
  have "y = receive_step env Peer_finished True ?z" using assms(17) by (simp add: receive_loop_def w_def)
  from receiving_ends[OF g(1) assms(5) this] show ?thesis using g f(2) w r(1) sent by simp
qed

text \<open>An upload to a new file in two chunks.\<close>

theorem stor_stores_witness:
  "demo_content (fx_disk (receive_loop demo_env [''he'', ''llo''] (transfer_establish demo_env (transfer_begin demo_env
      (run_handler demo_env Cmd_stor ''n'' [] demo_ready))))) [''srv'', ''n'']
   = Some ''hello''"
proof -
  have "map_sum id (\<lambda>p. (can_write p, p_ppath p)) (session_get_path (e_fs demo_env) (fx_ses demo_ready) ''n'' FILE)
      = Inr (True, [''srv'', ''n'']) \<and> fs_status (e_fs demo_env) (fx_disk demo_ready) [''srv'', ''n''] = Inr File_not_found"
    by code_simp
  then obtain p where p: "session_get_path (e_fs demo_env) (fx_ses demo_ready) ''n'' FILE = Inr p" "can_write p"
    "p_ppath p = [''srv'', ''n'']" and new: "fs_status (e_fs demo_env) (fx_disk demo_ready) [''srv'', ''n''] = Inr File_not_found"
    by (cases "session_get_path (e_fs demo_env) (fx_ses demo_ready) ''n'' FILE") simp_all
  have "demo_content (fs_touch (e_fs demo_env) (fx_disk demo_ready) [''srv'', ''n'']) [''srv'', ''n''] = Some []" by code_simp
  with new have 4: "demo_content (fx_disk demo_ready) (p_ppath p) = Some []
      \<or> fs_status (e_fs demo_env) (fx_disk demo_ready) (p_ppath p) = Inr File_not_found
        \<and> demo_content (fs_touch (e_fs demo_env) (fx_disk demo_ready) (p_ppath p)) (p_ppath p) = Some [] \<and> [] = ([] :: string)"
    unfolding p(3) by blast
  have 6: "list_all (\<lambda>d. length d \<le> e_page demo_env) [''he'', ''llo'']" by code_simp
  have 7: "Cmd_stor = Cmd_stor \<or> Cmd_stor = Cmd_appe" by simp
  have 9: "length ([] :: string) + length (concat [''he'', ''llo'']) + 4096 * e_page demo_env < 2 ^ 64" by (simp add: demo_env_def)
  note s = stor_stores[OF demo_env_facts(1,4,5,2,3) demo_ready_facts(1-3) p(1,2) 4 demo_ready_facts(4,6) 7 6 9 refl, where match = "[]", unfolded p(3)]
  have 8: "(if Cmd_stor = Cmd_appe then [] else []) @ concat [''he'', ''llo''] = ''hello''" by simp
  show ?thesis using conjunct1[OF s] unfolding 8 .
qed

end
