(* ===== verification/FtpPrivate.thy ===== *)
theory FtpPrivate
  imports FtpSecure FtpUpload
begin

text \<open>
  A transfer on its data socket. When transfers are protected, the coroutine upgrades the new socket to
  TLS before anything is sent; here the passes of \<open>SendFile\<close> write to that socket, so that a download is
  followed from the request to the bytes on the wire, and what of it goes out in clear.
\<close>

section \<open>The data socket\<close>

text \<open>The part of \<open>TransferFile\<close> between the connection and \<open>SendFile\<close>: with PROT P the socket is upgraded.\<close>

definition data_connect ::
    "('s, 'e, 'q) socket_ops \<Rightarrow> ('p, 'w, 'am, 'cl, 'os) ftp_env \<Rightarrow> 's \<times> ('p, 'cl, 'w, 'am, 'os) ftp \<Rightarrow>
     's \<times> ('p, 'cl, 'w, 'am, 'os) ftp" where
  "data_connect so env = (\<lambda>(s, x).
     let x = transfer_connect env True x
     in if fx_phase x = Phase_securing
        then (case so_upgrade_to_tls so s of (r, s) \<Rightarrow> (s, transfer_secure env (\<not> isl r) x))
        else (s, x))"

text \<open>
  One pass of the loop of \<open>SendFile\<close>: what was read from the file, if anything, is written to the socket,
  and the outcome decides how the transfer goes on.
\<close>

definition data_pass ::
    "('s, 'e, 'q) socket_ops \<Rightarrow> ('p, 'w, 'am, 'cl, 'os) ftp_env \<Rightarrow> 's \<times> ('p, 'cl, 'w, 'am, 'os) ftp \<Rightarrow>
     's \<times> ('p, 'cl, 'w, 'am, 'os) ftp" where
  "data_pass so env = (\<lambda>(s, x).
     (case send_step env True x of
        (d, y) \<Rightarrow>
          if d = [] then (s, y)
          else (case so_write so d s of (r, s) \<Rightarrow> (s, snd (send_step env (\<not> isl r) x)))))"

fun data_loop ::
    "nat \<Rightarrow> ('s, 'e, 'q) socket_ops \<Rightarrow> ('p, 'w, 'am, 'cl, 'os) ftp_env \<Rightarrow> 's \<times> ('p, 'cl, 'w, 'am, 'os) ftp \<Rightarrow>
     ('s \<times> ('p, 'cl, 'w, 'am, 'os) ftp) option" where
  "data_loop 0 so env sx = None"
| "data_loop (Suc n) so env sx =
     (if fx_phase (snd sx) \<noteq> Phase_running then Some sx else data_loop n so env (data_pass so env sx))"

lemma failed_handshake_stops: "fx_phase (transfer_secure env False x) \<noteq> Phase_running"
  by (simp add: transfer_secure_def cleanup_transfer_def Let_def)

context channel
begin

lemma write_adds:
  assumes "asio_lawful ops wire" and "so_write (so ops) d s = (r, s')"
  shows "layer_of s' = layer_of s \<and> (\<exists>e. wire (stream s') = wire (stream s) @ [(layer_of s, e)] \<and> (\<not> isl r \<longrightarrow> e = d))"
proof (cases r)
  case (Inl e)
  from write_failed[OF assms(1), of "[d]" s e s'] show ?thesis using assms(2) Inl by (auto simp: write_one)
next
  case (Inr u)
  from write_done[OF assms(1), of "[d]" s u s'] show ?thesis using assms(2) Inr by (auto simp: write_one)
qed

text \<open>A pass writes to the layer of the socket, whatever the session is when it takes place.\<close>

lemma data_pass_layer:
  assumes "asio_lawful ops wire" and "data_pass (so ops) env (s, x) = (s', y)"
  shows "layer_of s' = layer_of s \<and> (\<exists>ds. wire (stream s') = wire (stream s) @ map (Pair (layer_of s)) ds)"
proof -
  obtain d z where d: "send_step env True x = (d, z)" by fastforce
  show ?thesis
  proof (cases "d = []")
    case True
    then have "s' = s" using assms(2) d by (simp add: data_pass_def)
    then show ?thesis by (intro conjI exI[of _ "[]"]) simp_all
  next
    case False
    obtain r t where t: "so_write (so ops) d s = (r, t)" by fastforce
    then have "s' = t" using assms(2) d False by (simp add: data_pass_def)
    moreover from write_adds[OF assms(1) t] obtain e where
      "layer_of t = layer_of s" "wire (stream t) = wire (stream s) @ [(layer_of s, e)]" by blast
    ultimately show ?thesis by (intro conjI exI[of _ "[e]"]) simp_all
  qed
qed

lemma data_passes_layer:
  assumes "asio_lawful ops wire"
  shows "layer_of (fold (\<lambda>x s. fst (data_pass (so ops) env (s, x))) xs s) = layer_of s
    \<and> (\<exists>ds. wire (stream (fold (\<lambda>x s. fst (data_pass (so ops) env (s, x))) xs s)) = wire (stream s) @ map (Pair (layer_of s)) ds)"
proof (induction xs arbitrary: s)
  case Nil
  show ?case by (intro conjI exI[of _ "[]"]) simp_all
next
  case (Cons x xs)
  obtain s1 y where 1: "data_pass (so ops) env (s, x) = (s1, y)" by fastforce
  from data_pass_layer[OF assms 1] obtain ds where
    ds: "layer_of s1 = layer_of s" "wire (stream s1) = wire (stream s) @ map (Pair (layer_of s)) ds" by blast
  from Cons.IH[of s1] obtain es where
    es: "layer_of (fold (\<lambda>x s. fst (data_pass (so ops) env (s, x))) xs s1) = layer_of s1"
    "wire (stream (fold (\<lambda>x s. fst (data_pass (so ops) env (s, x))) xs s1)) = wire (stream s1) @ map (Pair (layer_of s1)) es" by blast
  show ?case using 1 ds es by (intro conjI exI[of _ "ds @ es"]) simp_all
qed

text \<open>After the connection: with PROT P either the socket is encrypted or the transfer does not get to run.\<close>

lemma data_connect_layer:
  assumes "asio_lawful ops wire" and "data_connect (so ops) env (s, x) = (s', y)"
  shows "wire (stream s') = wire (stream s)"
    and "st_encrypt_transfers (fx_state x) \<Longrightarrow> fx_phase y = Phase_running \<Longrightarrow> layer_of s' = Encrypted"
    and "\<not> st_encrypt_transfers (fx_state x) \<Longrightarrow> s' = s"
proof -
  let ?x = "transfer_connect env True x"
  have ph: "fx_phase ?x = Phase_securing" if "st_encrypt_transfers (fx_state x)"
    using that by (simp add: transfer_connect_def Let_def)
  have ph': "fx_phase ?x \<noteq> Phase_securing" if "\<not> st_encrypt_transfers (fx_state x)"
    using that by (simp add: transfer_connect_def transfer_enter_def Let_def)
  obtain r t where t: "so_upgrade_to_tls (so ops) s = (r, t)" by fastforce
  have enc: "s' = t \<and> y = transfer_secure env (\<not> isl r) ?x" if "st_encrypt_transfers (fx_state x)"
    using assms(2) ph[OF that] t by (simp add: data_connect_def Let_def)
  show plain: "s' = s" if "\<not> st_encrypt_transfers (fx_state x)"
    using assms(2) ph'[OF that] by (simp add: data_connect_def Let_def)
  have up: "wire (stream t) = wire (stream s) \<and> (\<not> isl r \<longrightarrow> layer_of t = Encrypted)"
    using upgrade_done[OF assms(1)] upgrade_failed[OF assms(1)] t by (cases r) auto
  show "wire (stream s') = wire (stream s)"
    using plain enc up by (cases "st_encrypt_transfers (fx_state x)") simp_all
  show "layer_of s' = Encrypted" if e: "st_encrypt_transfers (fx_state x)" and run: "fx_phase y = Phase_running"
    using enc[OF e] up run failed_handshake_stops[of env] by (cases "isl r") auto
qed

end
context channel
begin

lemma data_connect_established:
  assumes "\<not> isl (fst (so_upgrade_to_tls (so ops) s))"
  obtains s1 where "data_connect (so ops) env (s, x) = (s1, transfer_establish env x)"
proof -
  obtain r t where "so_upgrade_to_tls (so ops) s = (r, t)" by fastforce
  with assms show ?thesis
    by (intro that[of "if fx_phase (transfer_connect env True x) = Phase_securing then t else s"])
       (simp add: data_connect_def transfer_establish_def Let_def)
qed

text \<open>While every write succeeds, the loop on the socket is the loop of the session, and writes what that sends.\<close>

lemma data_loop_sends:
  assumes "asio_lawful ops wire" and "\<And>d s. \<not> isl (fst (so_write (so ops) d s))"
    and "send_loop n env x = Some (b, y)"
  shows "\<exists>s'. data_loop n (so ops) env (s, x) = Some (s', y) \<and> layer_of s' = layer_of s
    \<and> (\<exists>ds. wire (stream s') = wire (stream s) @ map (Pair (layer_of s)) ds \<and> concat ds = b)"
  using assms(3)
proof (induction n arbitrary: x b s)
  case (Suc n)
  show ?case
  proof (cases "fx_phase x = Phase_running")
    case False
    then show ?thesis using Suc.prems by (intro exI[of _ s] conjI exI[of _ "[]"]) simp_all
  next
    case True
    obtain d z where d: "send_step env True x = (d, z)" by fastforce
    then obtain b1 where b: "send_loop n env z = Some (b1, y)" "b = d @ b1" using Suc.prems True by auto
    obtain r t where t: "so_write (so ops) d s = (r, t)" by fastforce
    have r: "\<not> isl r" using assms(2)[of d s] by (simp add: t)
    let ?s = "if d = [] then s else t"
    have p: "data_pass (so ops) env (s, x) = (?s, z)" using r by (simp add: data_pass_def d t)
    have "layer_of ?s = layer_of s \<and> (\<exists>ds. wire (stream ?s) = wire (stream s) @ map (Pair (layer_of s)) ds \<and> concat ds = d)"
    proof (cases "d = []")
      case True
      then show ?thesis by (intro conjI exI[of _ "[]"]) simp_all
    next
      case False
      then show ?thesis using write_adds[OF assms(1) t] r by (intro conjI exI[of _ "[d]"]) auto
    qed
    then obtain ds where ds: "layer_of ?s = layer_of s" "wire (stream ?s) = wire (stream s) @ map (Pair (layer_of s)) ds" "concat ds = d"
      by blast
    from Suc.IH[OF b(1), of ?s] obtain s' es where
      s': "data_loop n (so ops) env (?s, z) = Some (s', y)" "layer_of s' = layer_of ?s"
      "wire (stream s') = wire (stream ?s) @ map (Pair (layer_of ?s)) es" "concat es = b1" by blast
    have "data_loop (Suc n) (so ops) env (s, x) = Some (s', y)" using True p s'(1) by simp
    moreover have "wire (stream s') = wire (stream s) @ map (Pair (layer_of s)) (ds @ es)" using s'(3) ds(1,2) by simp
    moreover have "concat (ds @ es) = b" using ds(3) s'(4) b(2) by simp
    ultimately show ?thesis using s'(2) ds(1) by (intro exI[of _ s'] conjI exI[of _ "ds @ es"]) simp_all
  qed
qed simp

end

section \<open>Protected transfers\<close>

text \<open>C5: a protected transfer sends nothing in clear. Let a data connection be made on a fresh TLS socket while
  transfers are to be protected, and let handshake and writes turn out in any way. If the transfer gets
  to run, everything its passes write is encrypted, however many there are and whatever the session is
  when each of them takes place; and if it does not, nothing was sent.\<close>
theorem protected_data_encrypted:
  assumes "asio_lawful ops wire" and "wire (ts_ssl_socket s) = []" and "st_encrypt_transfers (fx_state x)"
    and "data_connect (wfde_tls_socket_ops ops) env (s, x) = (s1, y)"
  shows "if fx_phase y = Phase_running
    then list_all (\<lambda>d. fst d = Encrypted)
           (wire (ts_ssl_socket (fold (\<lambda>z s. fst (data_pass (wfde_tls_socket_ops ops) env (s, z))) zs s1)))
    else wire (ts_ssl_socket s1) = []"
proof (cases "fx_phase y = Phase_running")
  case True
  note c = tls_channel.data_connect_layer[OF assms(1,4)]
  from tls_channel.data_passes_layer[OF assms(1), of env zs s1] obtain ds where
    "wire (ts_ssl_socket (fold (\<lambda>z s. fst (data_pass (wfde_tls_socket_ops ops) env (s, z))) zs s1))
      = wire (ts_ssl_socket s1) @ map (Pair (ts_layer s1)) ds" by blast
  then show ?thesis using True c(1) c(2)[OF assms(3) True] assms(2) by (simp add: list_all_iff)
qed (use tls_channel.data_connect_layer(1)[OF assms(1,4)] assms(2) in simp)

text \<open>C11: a download to the last byte on the wire. Let a client with the right to read ask with RETR for a file that
  can be mapped, in binary mode and without REST (whose position RETR ignores), on a fresh data socket whose handshake, if transfers are protected, and writes succeed.
  Then the transfer ends, and what was written to the socket is, put together, exactly the content of
  the file, for every size of the file below \<open>2 ^ 64\<close> and
  of the page below \<open>2 ^ 61\<close>, all of it encrypted with PROT P and in clear with PROT C; the
  client was told of the start and the success by two replies and nothing else, the file is closed, the
  session is ready for the next transfer, and the disk is as before.\<close>
theorem retr_on_the_wire:
  assumes "fs_lawful (e_fs env) content" and "fs_maps (e_fs env) content (p_ppath p)"
    and "0 < e_page env" and "8 * e_page env < 2 ^ 64" and "\<And>os m. fst (e_write env os m)"
    and "ftp_alive x" and "\<not> fx_closed x" and "\<not> st_abort_pending (fx_state x)"
    and "session_get_path (e_fs env) (fx_ses x) param FILE = Inr p" and "can_read p"
    and "content (fx_disk x) (p_ppath p) = Some b" and "length b < 2 ^ 64"
    and "get_type (fx_state x) = Type_bin" and "st_rest (fx_state x) = 0"
    and "asio_lawful ops wire" and "\<And>l k d. \<not> isl (fst (as_write ops l k d))" and "\<And>k. \<not> isl (fst (as_handshake ops k))"
    and "\<not> ts_using_tls s" and "wire (ts_ssl_socket s) = []"
  shows "\<exists>s' y. data_loop (length b + 2) (wfde_tls_socket_ops ops) env
        (data_connect (wfde_tls_socket_ops ops) env (s, transfer_begin env (run_handler env Cmd_retr param match x))) = Some (s', y)
    \<and> concat (map snd (wire (ts_ssl_socket s'))) = b
    \<and> list_all (\<lambda>d. fst d = (if st_encrypt_transfers (fx_state x) then Encrypted else In_clear)) (wire (ts_ssl_socket s'))
    \<and> fx_phase y = Phase_none \<and> fx_file y = None \<and> fx_disk y = fx_disk x \<and> \<not> is_in_transfer (fx_state y)
    \<and> fx_sent y = fx_sent x @ [format_reply RC_OPENING_CONNECTION [] False,
        format_reply RC_CLOSING_DATA_CONNECTION (''Successfully sent '' @ param) False]"
proof -
  let ?so = "wfde_tls_socket_ops ops" and ?v = "transfer_begin env (run_handler env Cmd_retr param match x)"
  have law: "reads_file (e_fs env) content (p_ppath p)" using assms(1,2) by (simp add: reads_file_def)
  note sends = retr_sends[OF law assms(3-13), where match = match]
  have up: "\<not> isl (fst (so_upgrade_to_tls ?so s))"
    using assms(17)[of "ts_ssl_socket s"]
    by (auto simp: wfde_tls_socket_ops_def tls_upgrade_def on_stream_def bindS_def split: prod.splits sum.splits)
  have writes: "\<not> isl (fst (so_write ?so d t))" for d t
    using assms(16)[of "ts_layer t" "ts_ssl_socket t" d] by (auto simp: wfde_tls_socket_ops_def on_stream_def split: prod.splits)
  obtain s1 where s1: "data_connect ?so env (s, ?v) = (s1, transfer_establish env ?v)"
    by (rule tls_channel.data_connect_established[OF up])
  note c = tls_channel.data_connect_layer[OF assms(15) s1]
  have layer: "ts_layer s1 = (if st_encrypt_transfers (fx_state x) then Encrypted else In_clear)"
    using c(2,3) sends(2,3) assms(18) by (auto simp: ts_layer_def)
  from sends(1) obtain y where y: "send_loop (length b + 2) env (transfer_establish env ?v) = Some (b, y)"
    "fx_phase y = Phase_none" "fx_file y = None" "fx_disk y = fx_disk x" "\<not> is_in_transfer (fx_state y)"
    "fx_sent y = fx_sent x @ [format_reply RC_OPENING_CONNECTION [] False,
        format_reply RC_CLOSING_DATA_CONNECTION (''Successfully sent '' @ param) False]" by blast
  from tls_channel.data_loop_sends[OF assms(15) writes y(1), of s1] obtain s' ds where
    s': "data_loop (length b + 2) ?so env (s1, transfer_establish env ?v) = Some (s', y)"
    "wire (ts_ssl_socket s') = wire (ts_ssl_socket s1) @ map (Pair (ts_layer s1)) ds" "concat ds = b" by blast
  have w: "wire (ts_ssl_socket s') = map (Pair (ts_layer s1)) ds" using s'(2) c(1) assms(19) by simp
  have "concat (map snd (wire (ts_ssl_socket s'))) = b" unfolding w using s'(3) by (simp add: comp_def)
  moreover have "list_all (\<lambda>d. fst d = (if st_encrypt_transfers (fx_state x) then Encrypted else In_clear)) (wire (ts_ssl_socket s'))"
    unfolding w layer by (simp add: list_all_iff)
  ultimately show ?thesis unfolding s1 using s'(1) y by (intro exI conjI)
qed

section \<open>A protected download\<close>

text \<open>The session of the witness for RETR, with PROT P, and a network on which every write succeeds.\<close>

definition demo_net :: "(bool \<times> (layer \<times> string) list, nat, string) asio_ops" where
  "demo_net = demo_asio\<lparr>as_write := (\<lambda>l k d. (Inr (), fst k, snd k @ [(l, d)]))\<rparr>"

lemma demo_net_facts:
  "asio_lawful demo_net snd" "\<not> isl (fst (as_write demo_net l k d))" "\<not> isl (fst (as_handshake demo_net k))"
  by (simp_all add: demo_net_def demo_asio_def asio_lawful_def)

definition demo_private :: "(demo_path, nat, demo_disk, demo_path auth_manager, int) ftp" where
  "demo_private = demo_ready\<lparr>fx_state := (fx_state demo_ready)\<lparr>st_cc_is_encrypted := True, st_encrypt_transfers := True\<rparr>\<rparr>"

lemma demo_private_facts:
  "ftp_alive demo_private" "\<not> fx_closed demo_private" "\<not> st_abort_pending (fx_state demo_private)"
  "get_type (fx_state demo_private) = Type_bin" "st_encrypt_transfers (fx_state demo_private)"
  "fx_ses demo_private = fx_ses demo_ready" "fx_disk demo_private = fx_disk demo_ready" "st_rest (fx_state demo_private) = 0"
  using demo_ready_facts by (simp_all add: demo_private_def ftp_alive_def get_type_def split: if_splits)

lemma demo_private_path:
  obtains p where "session_get_path (e_fs demo_env) (fx_ses demo_private) ''a'' FILE = Inr p" "can_read p"
    "demo_content (fx_disk demo_private) (p_ppath p) = Some ''alpha''"
proof -
  have "map_sum id (\<lambda>p. (can_read p, p_ppath p)) (session_get_path (e_fs demo_env) (fx_ses demo_ready) ''a'' FILE)
      = Inr (True, [''srv'', ''a'']) \<and> demo_content (fx_disk demo_ready) [''srv'', ''a''] = Some ''alpha''" by code_simp
  then show ?thesis using that unfolding demo_private_facts
    by (cases "session_get_path (e_fs demo_env) (fx_ses demo_ready) ''a'' FILE") simp_all
qed

theorem retr_on_the_wire_witness:
  "\<exists>s' y. data_loop 7 (wfde_tls_socket_ops demo_net) demo_env
        (data_connect (wfde_tls_socket_ops demo_net) demo_env
          (demo_tls_socket, transfer_begin demo_env (run_handler demo_env Cmd_retr ''a'' [] demo_private))) = Some (s', y)
    \<and> concat (map snd (snd (ts_ssl_socket s'))) = ''alpha'' \<and> list_all (\<lambda>d. fst d = Encrypted) (snd (ts_ssl_socket s'))"
proof -
  obtain p where p: "session_get_path (e_fs demo_env) (fx_ses demo_private) ''a'' FILE = Inr p" "can_read p"
    "demo_content (fx_disk demo_private) (p_ppath p) = Some ''alpha''" by (rule demo_private_path)
  have 7: "length ''alpha'' + 2 = 7" by simp
  have 8: "8 * e_page demo_env < 2 ^ 64" "length ''alpha'' < 2 ^ 64" using demo_env_facts(6) by simp_all
  note r = retr_on_the_wire[OF demo_env_facts(1,4,2) 8(1) demo_env_facts(3) demo_private_facts(1-3) p 8(2)
      demo_private_facts(4,8) demo_net_facts demo_tls_fresh,
      where match = "[]", unfolded 7]
  then show ?thesis using demo_private_facts(5) by (elim exE conjE) (intro exI conjI, simp_all)
qed

theorem protected_data_encrypted_witness:
  "list_all (\<lambda>d. fst d = Encrypted) (snd (ts_ssl_socket
     (fst (data_pass (wfde_tls_socket_ops demo_net) demo_env
       (data_connect (wfde_tls_socket_ops demo_net) demo_env
         (demo_tls_socket, transfer_begin demo_env (run_handler demo_env Cmd_retr ''a'' [] demo_private)))))))"
proof -
  let ?so = "wfde_tls_socket_ops demo_net" and ?x = "transfer_begin demo_env (run_handler demo_env Cmd_retr ''a'' [] demo_private)"
  obtain s1 y where c: "data_connect ?so demo_env (demo_tls_socket, ?x) = (s1, y)" by fastforce
  have *: "st_encrypt_transfers (fx_state ?x) \<and> fx_phase (snd (data_connect ?so demo_env (demo_tls_socket, ?x))) = Phase_running"
    by code_simp
  from protected_data_encrypted[OF demo_net_facts(1) demo_tls_fresh(2) conjunct1[OF *] c, of "[y]"]
  show ?thesis using conjunct2[OF *] by (simp add: c)
qed

end
