(* ===== verification/WfdeSessionManager.thy ===== *)
theory WfdeSessionManager
  imports WfdeSession "HOL-Library.AList"
begin

text \<open>
  The session manager of a host: \<open>src/wfde/WfdeSessionManager.{h,cpp}\<close>. It keeps a registry from
  uuids to weak references and, for every thread of the pool, a stub with strong references to the
  sessions of that thread and a timer. A session object is an entry of \<open>sm_objects\<close>, its address the
  index; \<open>sm_held\<close> are the strong references that other code holds. The tasks handed to the
  pipelines of the pool are the lists \<open>sm_timers\<close> and \<open>sm_posted\<close>. Uuids are drawn outside (the
  argument \<open>u\<close>), and the order of a listing is that of the association list, where the code has that
  of a hash table. Logging is left out; the assertions on the thread id hold by the invariant.
\<close>

section \<open>State\<close>

record 'cl session_params =
  sp_pipeline :: nat
  sp_client :: "'cl option"
  sp_time_out :: "32 word"

record ('p, 'cl, 'i) managed =
  mg_uuid :: 'i
  mg_thread :: nat
  mg_ses :: "('p, 'cl) session"
  mg_socket_open :: bool

record ('p, 'cl, 'i) session_manager =
  sm_sessions :: "('i \<times> nat) list"
  sm_stubs :: "nat list option list"
  sm_objects :: "('p, 'cl, 'i) managed list"
  sm_held :: "nat list"
  sm_timers :: "nat list"
  sm_posted :: "(nat \<times> 'i) list"

definition session_manager_new :: "nat \<Rightarrow> ('p, 'cl, 'i) session_manager" where
  "session_manager_new threads =
     \<lparr>sm_sessions = [], sm_stubs = replicate threads None, sm_objects = [], sm_held = [],
      sm_timers = [], sm_posted = []\<rparr>"

definition stub_at :: "('p, 'cl, 'i) session_manager \<Rightarrow> nat \<Rightarrow> nat list option" where
  "stub_at st i = (if i < length (sm_stubs st) then sm_stubs st ! i else None)"

definition set_stub :: "nat \<Rightarrow> nat list option \<Rightarrow> ('p, 'cl, 'i) session_manager \<Rightarrow> ('p, 'cl, 'i) session_manager" where
  "set_stub i q st = st\<lparr>sm_stubs := (sm_stubs st)[i := q]\<rparr>"

definition set_object ::
    "nat \<Rightarrow> ('p, 'cl, 'i) managed \<Rightarrow> ('p, 'cl, 'i) session_manager \<Rightarrow> ('p, 'cl, 'i) session_manager" where
  "set_object a m st = st\<lparr>sm_objects := (sm_objects st)[a := m]\<rparr>"

text \<open>Locking a weak reference succeeds while somebody holds a strong one.\<close>

definition session_alive :: "('p, 'cl, 'i) session_manager \<Rightarrow> nat \<Rightarrow> bool" where
  "session_alive st a \<longleftrightarrow>
     a \<in> set (sm_held st) \<or> list_ex (\<lambda>q. case q of None \<Rightarrow> False | Some q \<Rightarrow> a \<in> set q) (sm_stubs st)"

section \<open>The stub of a thread\<close>

definition attach_session :: "nat \<Rightarrow> nat \<Rightarrow> ('p, 'cl, 'i) session_manager \<Rightarrow> ('p, 'cl, 'i) session_manager" where
  "attach_session i a st = set_stub i (map_option (\<lambda>q. q @ [a]) (stub_at st i)) st"

definition detach_session :: "nat \<Rightarrow> nat \<Rightarrow> ('p, 'cl, 'i) session_manager \<Rightarrow> ('p, 'cl, 'i) session_manager" where
  "detach_session i a st = set_stub i (map_option (remove1 a) (stub_at st i)) st"

definition stub_is_empty :: "nat list \<Rightarrow> bool" where
  "stub_is_empty q \<longleftrightarrow> q = []"

text \<open>
  The housekeeping of a stub visits its sessions in turn, each reading the clock once, and posts a
  task for every session that asks to be closed.
\<close>

fun stub_on_thd_timer ::
    "(nat \<Rightarrow> int) \<Rightarrow> nat list \<Rightarrow> ('p, 'cl, 'i) session_manager \<Rightarrow> ('p, 'cl, 'i) session_manager" where
  "stub_on_thd_timer clock [] st = st"
| "stub_on_thd_timer clock (a # q) st =
     (let m = sm_objects st ! a in
      case session_on_housekeeping (clock a) (mg_ses m) of (keep, ses) \<Rightarrow>
        let st = set_object a (m\<lparr>mg_ses := ses\<rparr>) st
        in stub_on_thd_timer clock q
             (if keep then st else st\<lparr>sm_posted := sm_posted st @ [(mg_thread m, mg_uuid m)]\<rparr>))"

section \<open>Operations\<close>

definition schedule_thd_timer :: "nat \<Rightarrow> ('p, 'cl, 'i) session_manager \<Rightarrow> ('p, 'cl, 'i) session_manager" where
  "schedule_thd_timer i st = st\<lparr>sm_timers := sm_timers st @ [i]\<rparr>"

definition with_stub :: "nat \<Rightarrow> ('p, 'cl, 'i) session_manager \<Rightarrow> ('p, 'cl, 'i) session_manager" where
  "with_stub i st =
     (case stub_at st i of
        Some q \<Rightarrow> st
      | None \<Rightarrow> schedule_thd_timer i (set_stub i (Some []) st))"

definition create_session ::
    "64 word \<Rightarrow> int \<Rightarrow> 'cl session_params \<Rightarrow> 'i \<Rightarrow> ('p, 'cl, 'i) session_manager \<Rightarrow>
     nat \<times> ('p, 'cl, 'i) session_manager" where
  "create_session garbage now sp u st =
     (let i = sp_pipeline sp;
          st = with_stub i st;
          a = length (sm_objects st);
          session = \<lparr>mg_uuid = u, mg_thread = i,
                     mg_ses = wfde_session_new garbage now (sp_client sp) (sp_time_out sp), mg_socket_open = True\<rparr>;
          st = attach_session i a (st\<lparr>sm_objects := sm_objects st @ [session]\<rparr>)
      in (a, st\<lparr>sm_sessions := AList.update u a (sm_sessions st)\<rparr>))"

definition get_session :: "'i \<Rightarrow> ('p, 'cl, 'i) session_manager \<Rightarrow> exn + nat" where
  "get_session u st =
     (case map_of (sm_sessions st) u of
        Some a \<Rightarrow> if session_alive st a then Inr a else Inl ExceptionNotFound
      | None \<Rightarrow> Inl ExceptionNotFound)"

definition get_sessions :: "('p, 'cl, 'i) session_manager \<Rightarrow> nat list" where
  "get_sessions st = map snd (sm_sessions st)"

text \<open>\<open>Session::Close\<close> under the try block; \<open>closes\<close> tells whether the socket's \<open>close\<close> returns.\<close>

definition close_object :: "bool \<Rightarrow> ('p, 'cl, 'i) managed \<Rightarrow> ('p, 'cl, 'i) managed" where
  "close_object closes m =
     (if \<not> ses_closed (mg_ses m) \<and> closes
      then m\<lparr>mg_socket_open := False, mg_ses := session_close (mg_ses m)\<rparr> else m)"

definition close_session ::
    "bool \<Rightarrow> 'i \<Rightarrow> ('p, 'cl, 'i) session_manager \<Rightarrow> (exn + unit) \<times> ('p, 'cl, 'i) session_manager" where
  "close_session closes u st =
     (case get_session u st of
        Inl e \<Rightarrow> (Inl e, st)
      | Inr a \<Rightarrow>
          let m = sm_objects st ! a;
              thd_id = mg_thread m;
              stub = stub_at st thd_id;
              st = set_object a (close_object closes m) st;
              st = st\<lparr>sm_sessions := AList.delete u (sm_sessions st)\<rparr>
          in (Inr (), if stub \<noteq> None then detach_session thd_id a st else st))"

definition manager_on_thd_timer ::
    "(nat \<Rightarrow> int) \<Rightarrow> nat \<Rightarrow> ('p, 'cl, 'i) session_manager \<Rightarrow> ('p, 'cl, 'i) session_manager" where
  "manager_on_thd_timer clock i st =
     (case stub_at st i of
        None \<Rightarrow> st
      | Some q \<Rightarrow>
          if stub_is_empty q then set_stub i None st
          else schedule_thd_timer i (stub_on_thd_timer clock q st))"

text \<open>The task that housekeeping posts: every error of \<open>CloseSession\<close> is caught.\<close>

definition posted_close :: "bool \<Rightarrow> 'i \<Rightarrow> ('p, 'cl, 'i) session_manager \<Rightarrow> ('p, 'cl, 'i) session_manager" where
  "posted_close closes u st = snd (close_session closes u st)"

section \<open>The invariant\<close>

text \<open>
  What the registry and the stubs promise each other: a session is registered exactly while the stub
  of its thread holds it, and a stub has one pending timer as long as it exists.
\<close>

definition registered_ok :: "('p, 'cl, 'i) session_manager \<Rightarrow> bool" where
  "registered_ok st \<longleftrightarrow>
     distinct (map fst (sm_sessions st)) \<and> distinct (map mg_uuid (sm_objects st))
     \<and> (\<forall>u a. map_of (sm_sessions st) u = Some a \<longrightarrow>
          a < length (sm_objects st) \<and> mg_uuid (sm_objects st ! a) = u
          \<and> (\<exists>q. stub_at st (mg_thread (sm_objects st ! a)) = Some q \<and> a \<in> set q))"

definition stubs_ok :: "('p, 'cl, 'i) session_manager \<Rightarrow> bool" where
  "stubs_ok st \<longleftrightarrow>
     (\<forall>i q. stub_at st i = Some q \<longrightarrow>
        distinct q \<and> (\<forall>a \<in> set q. a < length (sm_objects st) \<and> mg_thread (sm_objects st ! a) = i
          \<and> map_of (sm_sessions st) (mg_uuid (sm_objects st ! a)) = Some a))"

definition timers_ok :: "('p, 'cl, 'i) session_manager \<Rightarrow> bool" where
  "timers_ok st \<longleftrightarrow> distinct (sm_timers st) \<and> (\<forall>i. i \<in> set (sm_timers st) \<longleftrightarrow> stub_at st i \<noteq> None)"

definition manager_ok :: "('p, 'cl, 'i) session_manager \<Rightarrow> bool" where
  "manager_ok st \<longleftrightarrow> registered_ok st \<and> stubs_ok st \<and> timers_ok st"

text \<open>The abstraction: the uuids of the registered sessions.\<close>

definition open_ids :: "('p, 'cl, 'i) session_manager \<Rightarrow> 'i set" where
  "open_ids st = fst ` set (sm_sessions st)"

lemma open_ids_iff: "u \<in> open_ids st \<longleftrightarrow> map_of (sm_sessions st) u \<noteq> None"
  by (simp add: open_ids_def map_of_eq_None_iff)

lemma stub_at_set_stub [simp]:
  "stub_at (set_stub i q st) j = (if i = j \<and> i < length (sm_stubs st) then q else stub_at st j)"
  by (simp add: stub_at_def set_stub_def)

lemma stub_at_cong: "sm_stubs st' = sm_stubs st \<Longrightarrow> stub_at st' = stub_at st"
  by (simp add: stub_at_def fun_eq_iff)

lemma stub_at_updates [simp]:
  "stub_at (st\<lparr>sm_sessions := r\<rparr>) = stub_at st" "stub_at (st\<lparr>sm_objects := r'\<rparr>) = stub_at st"
  "stub_at (st\<lparr>sm_held := r''\<rparr>) = stub_at st" "stub_at (st\<lparr>sm_timers := t\<rparr>) = stub_at st"
  "stub_at (st\<lparr>sm_posted := t'\<rparr>) = stub_at st" "stub_at (set_object a m st) = stub_at st"
  "stub_at (schedule_thd_timer i st) = stub_at st"
  by (simp_all add: stub_at_def fun_eq_iff set_object_def schedule_thd_timer_def)

lemma set_stub_fields [simp]:
  "sm_sessions (set_stub i q st) = sm_sessions st" "sm_objects (set_stub i q st) = sm_objects st"
  "sm_held (set_stub i q st) = sm_held st" "sm_timers (set_stub i q st) = sm_timers st"
  "sm_posted (set_stub i q st) = sm_posted st" "length (sm_stubs (set_stub i q st)) = length (sm_stubs st)"
  by (simp_all add: set_stub_def)

lemma set_object_fields [simp]:
  "sm_sessions (set_object a m st) = sm_sessions st" "sm_stubs (set_object a m st) = sm_stubs st"
  "sm_held (set_object a m st) = sm_held st" "sm_timers (set_object a m st) = sm_timers st"
  "sm_posted (set_object a m st) = sm_posted st"
  "sm_objects (set_object a m st) = (sm_objects st)[a := m]"
  by (simp_all add: set_object_def)

lemma schedule_fields [simp]:
  "sm_sessions (schedule_thd_timer i st) = sm_sessions st" "sm_stubs (schedule_thd_timer i st) = sm_stubs st"
  "sm_held (schedule_thd_timer i st) = sm_held st" "sm_timers (schedule_thd_timer i st) = sm_timers st @ [i]"
  "sm_posted (schedule_thd_timer i st) = sm_posted st" "sm_objects (schedule_thd_timer i st) = sm_objects st"
  by (simp_all add: schedule_thd_timer_def)

lemma detach_fields [simp]:
  "sm_sessions (detach_session i a st) = sm_sessions st" "sm_objects (detach_session i a st) = sm_objects st"
  "sm_held (detach_session i a st) = sm_held st" "sm_timers (detach_session i a st) = sm_timers st"
  "sm_posted (detach_session i a st) = sm_posted st"
  "length (sm_stubs (detach_session i a st)) = length (sm_stubs st)"
  by (simp_all add: detach_session_def)

lemma stub_at_Some_less: "stub_at st i = Some q \<Longrightarrow> i < length (sm_stubs st)"
  by (simp add: stub_at_def split: if_splits)

lemma stub_alive: "stub_at st i = Some q \<Longrightarrow> a \<in> set q \<Longrightarrow> session_alive st a"
  unfolding session_alive_def list_ex_iff
  by (rule disjI2, rule bexI[of _ "Some q"]) (auto simp: stub_at_def dest!: nth_mem split: if_splits)

text \<open>A change of the objects that keeps their uuids and threads keeps the invariant.\<close>

lemma manager_ok_objects:
  assumes "manager_ok st" and "sm_sessions st' = sm_sessions st" and "sm_stubs st' = sm_stubs st"
    and "sm_timers st' = sm_timers st" and "map mg_uuid (sm_objects st') = map mg_uuid (sm_objects st)"
    and "map mg_thread (sm_objects st') = map mg_thread (sm_objects st)"
  shows "manager_ok st'"
proof -
  have len: "length (sm_objects st') = length (sm_objects st)" using assms(5) by (rule map_eq_imp_length_eq)
  have u: "mg_uuid (sm_objects st' ! a) = mg_uuid (sm_objects st ! a)"
    and t: "mg_thread (sm_objects st' ! a) = mg_thread (sm_objects st ! a)" if "a < length (sm_objects st)" for a
    using that len assms(5,6) nth_map[of a "sm_objects st'" mg_uuid] nth_map[of a "sm_objects st'" mg_thread] by simp_all
  have "registered_ok st'" using assms(1,2,5) len u t stub_at_cong[OF assms(3)]
    unfolding manager_ok_def registered_ok_def by simp
  moreover have "stubs_ok st'" using assms(1,2) len u t stub_at_cong[OF assms(3)]
    unfolding manager_ok_def stubs_ok_def by simp
  moreover have "timers_ok st'" using assms(1,4) stub_at_cong[OF assms(3)]
    unfolding manager_ok_def timers_ok_def by simp
  ultimately show ?thesis by (simp add: manager_ok_def)
qed

lemma map_update_same: "a < length xs \<Longrightarrow> f m = f (xs ! a) \<Longrightarrow> map f (xs[a := m]) = map f xs"
  by (simp add: map_update list_update_same_conv)

lemma manager_ok_set_object:
  assumes "manager_ok st" and "mg_uuid m = mg_uuid (sm_objects st ! a)" and "mg_thread m = mg_thread (sm_objects st ! a)"
  shows "manager_ok (set_object a m st)"
proof (cases "a < length (sm_objects st)")
  case True
  show ?thesis by (rule manager_ok_objects[OF assms(1)]) (use True assms(2,3) in \<open>simp_all add: map_update_same\<close>)
next
  case False
  then show ?thesis by (intro manager_ok_objects[OF assms(1)]) (simp_all add: list_update_beyond)
qed

lemma manager_ok_outside [simp]:
  "manager_ok (st\<lparr>sm_held := h\<rparr>) = manager_ok st" "manager_ok (st\<lparr>sm_posted := t\<rparr>) = manager_ok st"
  by (simp_all add: manager_ok_def registered_ok_def stubs_ok_def timers_ok_def)

lemma manager_ok_new: "manager_ok (session_manager_new n)"
  by (auto simp: manager_ok_def registered_ok_def stubs_ok_def timers_ok_def session_manager_new_def stub_at_def)

section \<open>The operations keep the invariant\<close>

lemma with_stub_fields [simp]:
  "sm_sessions (with_stub i st) = sm_sessions st" "sm_objects (with_stub i st) = sm_objects st"
  "sm_held (with_stub i st) = sm_held st" "sm_posted (with_stub i st) = sm_posted st"
  "length (sm_stubs (with_stub i st)) = length (sm_stubs st)"
  by (simp_all add: with_stub_def split: option.splits)

lemma registeredE:
  assumes "registered_ok st" and "map_of (sm_sessions st) u = Some a"
  obtains q where "a < length (sm_objects st)" "mg_uuid (sm_objects st ! a) = u"
    "stub_at st (mg_thread (sm_objects st ! a)) = Some q" "a \<in> set q"
  using assms unfolding registered_ok_def by blast

lemma with_stub_ok:
  assumes "manager_ok st" and "i < length (sm_stubs st)"
  shows "manager_ok (with_stub i st) \<and> stub_at (with_stub i st) i \<noteq> None"
proof (cases "stub_at st i")
  case (Some q)
  then show ?thesis using assms(1) by (simp add: with_stub_def)
next
  case None
  have keep: "stub_at (with_stub i st) j = Some q" if "stub_at st j = Some q" for j q
    using None assms(2) that by (auto simp: with_stub_def)
  have "registered_ok (with_stub i st)" using assms(1) keep
    unfolding manager_ok_def registered_ok_def by (simp only: with_stub_fields) blast
  moreover have "stubs_ok (with_stub i st)" using assms None
    by (auto simp: manager_ok_def stubs_ok_def with_stub_def)
  moreover have "timers_ok (with_stub i st)" using assms None
    by (auto simp: manager_ok_def timers_ok_def with_stub_def)
  ultimately show ?thesis using assms None by (simp add: manager_ok_def with_stub_def)
qed

lemma create_session_parts:
  assumes "manager_ok st" and "sp_pipeline sp < length (sm_stubs st)"
  obtains q where "stub_at (with_stub (sp_pipeline sp) st) (sp_pipeline sp) = Some q"
    "\<And>j. stub_at (snd (create_session garbage now sp u st)) j
       = (if j = sp_pipeline sp then Some (q @ [length (sm_objects st)]) else stub_at (with_stub (sp_pipeline sp) st) j)"
    "sm_sessions (snd (create_session garbage now sp u st)) = AList.update u (length (sm_objects st)) (sm_sessions st)"
    "sm_timers (snd (create_session garbage now sp u st)) = sm_timers (with_stub (sp_pipeline sp) st)"
    "sm_objects (snd (create_session garbage now sp u st)) = sm_objects st @
       [\<lparr>mg_uuid = u, mg_thread = sp_pipeline sp,
         mg_ses = wfde_session_new garbage now (sp_client sp) (sp_time_out sp), mg_socket_open = True\<rparr>]"
proof -
  from with_stub_ok[OF assms] obtain q where q: "stub_at (with_stub (sp_pipeline sp) st) (sp_pipeline sp) = Some q" by blast
  show ?thesis
    by (rule that[OF q]) (use q assms(2) in \<open>simp_all add: create_session_def Let_def attach_session_def set_stub_def\<close>,
      simp add: stub_at_def)
qed

lemma create_session_ok:
  assumes "manager_ok st" and "sp_pipeline sp < length (sm_stubs st)" and "u \<notin> mg_uuid ` set (sm_objects st)"
  shows "manager_ok (snd (create_session garbage now sp u st))"
proof -
  let ?st = "with_stub (sp_pipeline sp) st" and ?i = "sp_pipeline sp"
  let ?m = "\<lparr>mg_uuid = u, mg_thread = ?i, mg_ses = wfde_session_new garbage now (sp_client sp) (sp_time_out sp),
      mg_socket_open = True\<rparr>"
  obtain q where q: "stub_at ?st ?i = Some q" and s: "\<And>j. stub_at (snd (create_session garbage now sp u st)) j
       = (if j = ?i then Some (q @ [length (sm_objects st)]) else stub_at ?st j)"
    and r: "sm_sessions (snd (create_session garbage now sp u st)) = AList.update u (length (sm_objects st)) (sm_sessions st)"
      "sm_timers (snd (create_session garbage now sp u st)) = sm_timers ?st"
      "sm_objects (snd (create_session garbage now sp u st)) = sm_objects st @ [?m]"
    by (rule create_session_parts[OF assms(1,2), of garbage now u thesis]) metis
  from with_stub_ok[OF assms(1,2)] have ok: "registered_ok ?st" "stubs_ok ?st" "timers_ok ?st"
    by (simp_all add: manager_ok_def)
  have fresh: "mg_uuid (sm_objects st ! a) \<noteq> u" if "a < length (sm_objects st)" for a
    using assms(3) that by (metis image_eqI nth_mem)
  have old: "distinct q' \<and> (\<forall>a \<in> set q'. a < length (sm_objects st) \<and> mg_thread (sm_objects st ! a) = j
      \<and> map_of (sm_sessions st) (mg_uuid (sm_objects st ! a)) = Some a)" if "stub_at ?st j = Some q'" for j q'
    using that ok(2) by (simp add: stubs_ok_def)
  have "registered_ok (snd (create_session garbage now sp u st))"
    using ok(1) assms(3) q unfolding registered_ok_def r s
    by (fastforce simp: update_conv' nth_append distinct_update split: if_splits)
  moreover have "stubs_ok (snd (create_session garbage now sp u st))"
    unfolding stubs_ok_def r s
  proof (intro allI impI)
    fix j q'
    assume "(if j = ?i then Some (q @ [length (sm_objects st)]) else stub_at ?st j) = Some q'"
    then consider "j = ?i" "q' = q @ [length (sm_objects st)]" | "j \<noteq> ?i" "stub_at ?st j = Some q'"
      by (auto split: if_splits)
    then show "distinct q' \<and> (\<forall>a \<in> set q'. a < length (sm_objects st @ [?m]) \<and> mg_thread ((sm_objects st @ [?m]) ! a) = j
      \<and> map_of (AList.update u (length (sm_objects st)) (sm_sessions st)) (mg_uuid ((sm_objects st @ [?m]) ! a)) = Some a)"
      using old[OF q] old[of j q'] fresh by cases (auto simp: update_conv' nth_append)
  qed
  moreover have "timers_ok (snd (create_session garbage now sp u st))"
    using ok(3) q unfolding timers_ok_def r s by auto
  ultimately show ?thesis by (simp add: manager_ok_def)
qed

lemma get_session_ok:
  assumes "manager_ok st"
  shows "get_session u st =
    (case map_of (sm_sessions st) u of None \<Rightarrow> Inl ExceptionNotFound | Some a \<Rightarrow> Inr a)"
proof (cases "map_of (sm_sessions st) u")
  case (Some a)
  from assms have "registered_ok st" by (simp add: manager_ok_def)
  from this Some have "session_alive st a" by (rule registeredE) (rule stub_alive)
  with Some show ?thesis by (simp add: get_session_def)
qed (simp add: get_session_def)

lemma close_object_fields [simp]:
  "mg_uuid (close_object ok m) = mg_uuid m" "mg_thread (close_object ok m) = mg_thread m"
  by (simp_all add: close_object_def)

lemma close_session_result:
  assumes "manager_ok st"
  shows "fst (close_session ok u st) = (if u \<in> open_ids st then Inr () else Inl ExceptionNotFound)"
    and "u \<notin> open_ids st \<Longrightarrow> snd (close_session ok u st) = st"
    and "sm_sessions (snd (close_session ok u st)) = AList.delete u (sm_sessions st)"
proof -
  have idem: "AList.delete u (sm_sessions st) = sm_sessions st" if "map_of (sm_sessions st) u = None"
    using that by (simp add: map_of_eq_None_iff delete_idem)
  show "fst (close_session ok u st) = (if u \<in> open_ids st then Inr () else Inl ExceptionNotFound)"
    and "u \<notin> open_ids st \<Longrightarrow> snd (close_session ok u st) = st"
    and "sm_sessions (snd (close_session ok u st)) = AList.delete u (sm_sessions st)"
    using get_session_ok[OF assms] idem
    by (auto simp: close_session_def open_ids_iff Let_def split: option.splits)
qed

text \<open>The part of \<open>close_session\<close> that the invariant sees: the entry and its place in the stub go together.\<close>

lemma manager_ok_unregister:
  assumes "manager_ok st" and "map_of (sm_sessions st) u = Some a"
  shows "manager_ok (detach_session (mg_thread (sm_objects st ! a)) a (st\<lparr>sm_sessions := AList.delete u (sm_sessions st)\<rparr>))"
    (is "manager_ok ?st'")
proof -
  let ?i = "mg_thread (sm_objects st ! a)" and ?d = "st\<lparr>sm_sessions := AList.delete u (sm_sessions st)\<rparr>"
  have reg: "registered_ok st" and stubs: "stubs_ok st" and tim: "timers_ok st" using assms(1) by (simp_all add: manager_ok_def)
  from reg assms(2) obtain q where a: "a < length (sm_objects st)" "mg_uuid (sm_objects st ! a) = u"
    "stub_at st ?i = Some q" "a \<in> set q" by (rule registeredE)
  have at: "stub_at ?st' j = (if j = ?i then Some (remove1 a q) else stub_at st j)" for j
    using a(3) stub_at_Some_less[OF a(3)] by (simp add: detach_session_def)
  have dq: "distinct q" using stubs a(3) by (simp add: stubs_ok_def)
  have "registered_ok ?st'" unfolding registered_ok_def detach_fields
  proof (intro conjI allI impI)
    show "distinct (map fst (sm_sessions ?d))"
      "distinct (map mg_uuid (sm_objects ?d))"
      using reg by (simp_all add: registered_ok_def distinct_delete)
    fix v b
    assume "map_of (sm_sessions ?d) v = Some b"
    then have v: "v \<noteq> u" "map_of (sm_sessions st) v = Some b" by (auto simp: delete_conv' split: if_splits)
    from reg v(2) obtain q' where b: "b < length (sm_objects st)" "mg_uuid (sm_objects st ! b) = v"
      "stub_at st (mg_thread (sm_objects st ! b)) = Some q'" "b \<in> set q'" by (rule registeredE)
    then have "b \<noteq> a" using a(2) v(1) by auto
    then show "\<exists>q. stub_at ?st' (mg_thread (sm_objects ?d ! b)) = Some q \<and> b \<in> set q"
      using b a(3) dq unfolding at by auto
    show "b < length (sm_objects ?d)"
      "mg_uuid (sm_objects ?d ! b) = v" using b by simp_all
  qed
  moreover have "stubs_ok ?st'" unfolding stubs_ok_def detach_fields
  proof (intro allI impI)
    fix j q'
    assume "stub_at ?st' j = Some q'"
    then obtain q0 where q0: "stub_at st j = Some q0" "distinct q'" "set q' \<subseteq> set q0" "a \<notin> set q'"
    proof (cases "j = ?i")
      case False
      then have "stub_at st j = Some q'" using \<open>stub_at ?st' j = Some q'\<close> by (simp add: at)
      moreover have "distinct q'" "a \<notin> set q'" using calculation stubs False by (auto simp: stubs_ok_def)
      ultimately show ?thesis using that by blast
    qed (use a(3) dq at that in auto)
    have "\<forall>b \<in> set q0. b < length (sm_objects st) \<and> mg_thread (sm_objects st ! b) = j
      \<and> map_of (sm_sessions st) (mg_uuid (sm_objects st ! b)) = Some b" using stubs q0(1) by (simp add: stubs_ok_def)
    moreover have "mg_uuid (sm_objects st ! b) \<noteq> u" if "b \<in> set q'" for b
      using calculation that q0(3,4) assms(2) by fastforce
    ultimately show "distinct q' \<and> (\<forall>b \<in> set q'. b < length (sm_objects ?d)
      \<and> mg_thread (sm_objects ?d ! b) = j
      \<and> map_of (sm_sessions ?d)
          (mg_uuid (sm_objects ?d ! b)) = Some b)"
      using q0 by (auto simp: delete_conv')
  qed
  moreover have "timers_ok ?st'" using tim a(3) at by (simp add: timers_ok_def)
  ultimately show ?thesis by (simp add: manager_ok_def)
qed

lemma close_session_ok:
  assumes "manager_ok st"
  shows "manager_ok (snd (close_session ok u st))"
proof (cases "map_of (sm_sessions st) u")
  case None
  then show ?thesis using assms by (simp add: close_session_def get_session_ok)
next
  case (Some a)
  let ?m = "close_object ok (sm_objects st ! a)" and ?i = "mg_thread (sm_objects st ! a)"
  from assms have "registered_ok st" by (simp add: manager_ok_def)
  from this Some obtain q where "stub_at st ?i = Some q" by (rule registeredE)
  then have "snd (close_session ok u st)
      = set_object a ?m (detach_session ?i a (st\<lparr>sm_sessions := AList.delete u (sm_sessions st)\<rparr>))"
    using Some by (simp add: close_session_def get_session_ok[OF assms] Let_def detach_session_def set_stub_def set_object_def)
  then show ?thesis using manager_ok_set_object[OF manager_ok_unregister[OF assms Some], of ?m a] by simp
qed

lemma stub_on_thd_timer_fields [simp]:
  "sm_sessions (stub_on_thd_timer clock q st) = sm_sessions st" "sm_stubs (stub_on_thd_timer clock q st) = sm_stubs st"
  "sm_held (stub_on_thd_timer clock q st) = sm_held st" "sm_timers (stub_on_thd_timer clock q st) = sm_timers st"
  "map mg_uuid (sm_objects (stub_on_thd_timer clock q st)) = map mg_uuid (sm_objects st)"
  "map mg_thread (sm_objects (stub_on_thd_timer clock q st)) = map mg_thread (sm_objects st)"
proof (induction q arbitrary: st)
  case (Cons a q)
  {
    case 1 show ?case by (simp add: Cons Let_def split: prod.split)
    case 2 show ?case by (simp add: Cons Let_def split: prod.split)
    case 3 show ?case by (simp add: Cons Let_def split: prod.split)
    case 4 show ?case by (simp add: Cons Let_def split: prod.split)
    case 5 show ?case by (cases "a < length (sm_objects st)") (simp_all add: Cons Let_def map_update_same list_update_beyond split: prod.split)
    case 6 show ?case by (cases "a < length (sm_objects st)") (simp_all add: Cons Let_def map_update_same list_update_beyond split: prod.split)
  }
qed simp_all

lemma manager_on_thd_timer_ok:
  assumes "manager_ok st" and "i \<in> set (sm_timers st)"
  shows "manager_ok (manager_on_thd_timer clock i (st\<lparr>sm_timers := remove1 i (sm_timers st)\<rparr>))"
proof -
  have ok: "registered_ok st" "stubs_ok st" "timers_ok st" using assms(1) by (simp_all add: manager_ok_def)
  then obtain q where q: "stub_at st i = Some q" using assms(2) by (auto simp: timers_ok_def)
  let ?st = "st\<lparr>sm_timers := remove1 i (sm_timers st)\<rparr>"
  show ?thesis
  proof (cases "q = []")
    case True
    then have "manager_on_thd_timer clock i ?st = set_stub i None ?st"
      using q by (simp add: manager_on_thd_timer_def stub_is_empty_def)
    moreover have "registered_ok (set_stub i None ?st)" using ok(1) q True
      unfolding registered_ok_def by fastforce
    moreover have "stubs_ok (set_stub i None ?st)" using ok(2) by (simp add: stubs_ok_def)
    moreover have "timers_ok (set_stub i None ?st)" using ok(3) stub_at_Some_less[OF q] by (auto simp: timers_ok_def)
    ultimately show ?thesis by (simp add: manager_ok_def)
  next
    case False
    let ?t = "stub_on_thd_timer clock q ?st"
    have "manager_ok (?t\<lparr>sm_timers := sm_timers st\<rparr>)"
      by (rule manager_ok_objects[OF assms(1)]) simp_all
    moreover have "timers_ok (?t\<lparr>sm_timers := remove1 i (sm_timers st) @ [i]\<rparr>)"
      using ok(3) q stub_at_cong[of ?t st] by (auto simp: timers_ok_def)
    ultimately show ?thesis using q False
      by (simp add: manager_on_thd_timer_def stub_is_empty_def schedule_thd_timer_def manager_ok_def registered_ok_def stubs_ok_def)
  qed
qed

section \<open>The steps of the manager and its environment\<close>

text \<open>
  Connections create sessions with fresh uuids on a thread of the pool, anybody closes sessions,
  timers and posted tasks run, the protocols use a session (which changes everything but its uuid
  and its thread), and other code takes and drops strong references.
\<close>

inductive manager_step :: "('p, 'cl, 'i) session_manager \<Rightarrow> ('p, 'cl, 'i) session_manager \<Rightarrow> bool" where
  step_create: "sp_pipeline sp < length (sm_stubs st) \<Longrightarrow> u \<notin> mg_uuid ` set (sm_objects st)
    \<Longrightarrow> manager_step st (snd (create_session garbage now sp u st))"
| step_close: "manager_step st (snd (close_session closes u st))"
| step_timer: "i \<in> set (sm_timers st)
    \<Longrightarrow> manager_step st (manager_on_thd_timer clock i (st\<lparr>sm_timers := remove1 i (sm_timers st)\<rparr>))"
| step_posted: "t \<in> set (sm_posted st)
    \<Longrightarrow> manager_step st (posted_close closes (snd t) (st\<lparr>sm_posted := remove1 t (sm_posted st)\<rparr>))"
| step_use: "manager_step st (set_object a ((sm_objects st ! a)\<lparr>mg_ses := ses, mg_socket_open := so\<rparr>) st)"
| step_hold: "session_alive st a \<Longrightarrow> manager_step st (st\<lparr>sm_held := a # sm_held st\<rparr>)"
| step_drop: "manager_step st (st\<lparr>sm_held := remove1 a (sm_held st)\<rparr>)"

inductive manager_reach :: "nat \<Rightarrow> ('p, 'cl, 'i) session_manager \<Rightarrow> bool" for n where
  manager_start: "manager_reach n (session_manager_new n)"
| manager_next: "manager_reach n st \<Longrightarrow> manager_step st st' \<Longrightarrow> manager_reach n st'"

lemma create_stubs [simp]: "length (sm_stubs (snd (create_session garbage now sp u st))) = length (sm_stubs st)"
  by (simp add: create_session_def Let_def attach_session_def)

lemma close_stubs [simp]: "length (sm_stubs (snd (close_session closes u st))) = length (sm_stubs st)"
  by (simp add: close_session_def Let_def split: sum.splits)

lemma timer_stubs [simp]: "length (sm_stubs (manager_on_thd_timer clock i st)) = length (sm_stubs st)"
  by (simp add: manager_on_thd_timer_def split: option.splits)

lemma step_stubs: "manager_step st st' \<Longrightarrow> length (sm_stubs st') = length (sm_stubs st)"
  by (induction rule: manager_step.induct) (simp_all add: posted_close_def)

lemma step_ok: "manager_step st st' \<Longrightarrow> manager_ok st \<Longrightarrow> manager_ok st'"
  by (induction rule: manager_step.induct)
     (simp_all add: create_session_ok close_session_ok manager_on_thd_timer_ok posted_close_def manager_ok_set_object)

lemma reach_ok: "manager_reach n st \<Longrightarrow> manager_ok st \<and> length (sm_stubs st) = n"
  by (induction rule: manager_reach.induct)
     (simp_all add: manager_ok_new step_ok step_stubs, simp add: session_manager_new_def)

text \<open>C35: the session manager keeps its registry, its stubs and its timers together. In every state
  that is reached by creating and closing sessions, by timers and posted tasks and by whatever the
  protocols do with the sessions, a uuid is registered at most once and leads to a session with that
  uuid, which the stub of its thread holds exactly once; a stub holds only registered sessions of its
  own thread; and a thread has one pending timer exactly while it has a stub.\<close>
theorem manager_invariant:
  assumes "manager_reach n st"
  shows "manager_ok st"
  using reach_ok[OF assms] by (rule conjunct1)

section \<open>A registry refines a set of uuids\<close>

datatype ('pr, 'i) registry_op = Open_session 'pr 'i | Close_session bool 'i | Find_session 'i

fun registry_step ::
    "('pr \<Rightarrow> 'i \<Rightarrow> 'st \<Rightarrow> nat \<times> 'st) \<Rightarrow> ('i \<Rightarrow> 'st \<Rightarrow> exn + nat) \<Rightarrow> (bool \<Rightarrow> 'i \<Rightarrow> 'st \<Rightarrow> (exn + unit) \<times> 'st) \<Rightarrow>
     ('pr, 'i) registry_op \<Rightarrow> 'st \<Rightarrow> (exn + unit) \<times> 'st" where
  "registry_step create get close (Open_session pr u) st = (Inr (), snd (create pr u st))"
| "registry_step create get close (Close_session closes u) st = close closes u st"
| "registry_step create get close (Find_session u) st = (map_sum id (\<lambda>_. ()) (get u st), st)"

text \<open>The specification: the set of open sessions, with the documented errors.\<close>

fun set_step :: "('pr, 'i) registry_op \<Rightarrow> 'i set \<Rightarrow> (exn + unit) \<times> 'i set" where
  "set_step (Open_session pr u) A = (Inr (), insert u A)"
| "set_step (Close_session closes u) A = (if u \<in> A then Inr () else Inl ExceptionNotFound, A - {u})"
| "set_step (Find_session u) A = (if u \<in> A then Inr () else Inl ExceptionNotFound, A)"

fun run_steps :: "('op \<Rightarrow> 'st \<Rightarrow> 'r \<times> 'st) \<Rightarrow> 'op list \<Rightarrow> 'st \<Rightarrow> 'r list \<times> 'st" where
  "run_steps step [] st = ([], st)"
| "run_steps step (p # ops) st =
     (case step p st of (r, st) \<Rightarrow> case run_steps step ops st of (rs, st) \<Rightarrow> (r # rs, st))"

text \<open>Sessions are opened where they fit and with uuids that were not used before.\<close>

fun ops_fit :: "('pr \<Rightarrow> bool) \<Rightarrow> 'i set \<Rightarrow> ('pr, 'i) registry_op list \<Rightarrow> bool" where
  "ops_fit fits used [] \<longleftrightarrow> True"
| "ops_fit fits used (Open_session pr u # ops) \<longleftrightarrow> fits pr \<and> u \<notin> used \<and> ops_fit fits (insert u used) ops"
| "ops_fit fits used (p # ops) \<longleftrightarrow> ops_fit fits used ops"

locale session_registry =
  fixes inv :: "'st \<Rightarrow> bool" and ids :: "'st \<Rightarrow> 'i set" and used :: "'st \<Rightarrow> 'i set" and fits :: "'st \<Rightarrow> 'pr \<Rightarrow> bool"
    and create :: "'pr \<Rightarrow> 'i \<Rightarrow> 'st \<Rightarrow> nat \<times> 'st" and get :: "'i \<Rightarrow> 'st \<Rightarrow> exn + nat"
    and close :: "bool \<Rightarrow> 'i \<Rightarrow> 'st \<Rightarrow> (exn + unit) \<times> 'st"
  assumes create_inv: "inv st \<Longrightarrow> fits st pr \<Longrightarrow> u \<notin> used st \<Longrightarrow> inv (snd (create pr u st))"
    and create_ids: "inv st \<Longrightarrow> fits st pr \<Longrightarrow> u \<notin> used st \<Longrightarrow> ids (snd (create pr u st)) = insert u (ids st)"
    and create_used: "inv st \<Longrightarrow> fits st pr \<Longrightarrow> used (snd (create pr u st)) = insert u (used st)"
    and create_fits: "fits (snd (create pr u st)) = fits st"
    and close_inv: "inv st \<Longrightarrow> inv (snd (close b u st))"
    and close_ids: "inv st \<Longrightarrow> ids (snd (close b u st)) = ids st - {u}"
    and close_used: "inv st \<Longrightarrow> used (snd (close b u st)) = used st"
    and close_fits: "fits (snd (close b u st)) = fits st"
    and close_result: "inv st \<Longrightarrow> fst (close b u st) = (if u \<in> ids st then Inr () else Inl ExceptionNotFound)"
    and get_result: "inv st \<Longrightarrow> map_sum id (\<lambda>_. ()) (get u st) = (if u \<in> ids st then Inr () else Inl ExceptionNotFound)"
begin

lemma step_refines:
  assumes "inv st" and "ops_fit (fits st) (used st) (p # ops)"
    and "registry_step create get close p st = (r, st')"
  shows "set_step p (ids st) = (r, ids st') \<and> inv st' \<and> ops_fit (fits st') (used st') ops"
proof (cases p)
  case (Open_session pr u)
  then have "r = Inr ()" "st' = snd (create pr u st)" using assms(3) by simp_all
  then show ?thesis using Open_session assms(1,2) create_inv create_ids create_used create_fits by simp
next
  case (Close_session b u)
  then have "r = fst (close b u st)" "st' = snd (close b u st)" using assms(3) by simp_all
  then show ?thesis using Close_session assms(1,2) close_inv close_ids close_used close_fits close_result by simp
next
  case (Find_session u)
  then have "r = map_sum id (\<lambda>_. ()) (get u st)" "st' = st" using assms(3) by auto
  then show ?thesis using Find_session assms(1,2) get_result by simp
qed

lemma runs_refine:
  assumes "inv st" and "ops_fit (fits st) (used st) ops"
    and "run_steps (registry_step create get close) ops st = (rs, st')"
  shows "run_steps set_step ops (ids st) = (rs, ids st') \<and> inv st'"
  using assms
proof (induction ops arbitrary: st rs)
  case (Cons p ops)
  obtain r st1 where 1: "registry_step create get close p st = (r, st1)" by fastforce
  obtain rs1 where 2: "run_steps (registry_step create get close) ops st1 = (rs1, st')" and rs: "rs = r # rs1"
    using Cons.prems(3) 1 by (simp split: prod.splits)
  from step_refines[OF Cons.prems(1,2) 1] Cons.IH[OF _ _ 2] rs show ?case by simp
qed simp

end

definition manager_create ::
    "64 word \<times> int \<times> 'cl session_params \<Rightarrow> 'i \<Rightarrow> ('p, 'cl, 'i) session_manager \<Rightarrow> nat \<times> ('p, 'cl, 'i) session_manager" where
  "manager_create = (\<lambda>(garbage, now, sp). create_session garbage now sp)"

definition manager_fits :: "('p, 'cl, 'i) session_manager \<Rightarrow> 64 word \<times> int \<times> 'cl session_params \<Rightarrow> bool" where
  "manager_fits st = (\<lambda>(garbage, now, sp). sp_pipeline sp < length (sm_stubs st))"

definition used_ids :: "('p, 'cl, 'i) session_manager \<Rightarrow> 'i set" where
  "used_ids st = mg_uuid ` set (sm_objects st)"

lemma create_session_ids:
  "open_ids (snd (create_session garbage now sp u st)) = insert u (open_ids st)"
  by (auto simp: open_ids_iff create_session_def Let_def attach_session_def update_conv' set_eq_iff)

lemma create_session_used:
  "used_ids (snd (create_session garbage now sp u st)) = insert u (used_ids st)"
  by (simp add: used_ids_def create_session_def Let_def attach_session_def)

lemma close_session_ids:
  "manager_ok st \<Longrightarrow> open_ids (snd (close_session closes u st)) = open_ids st - {u}"
  using close_session_result(3)[of st closes u] by (auto simp: open_ids_iff delete_conv' set_eq_iff)

lemma close_session_used: "used_ids (snd (close_session closes u st)) = used_ids st"
proof -
  have "map mg_uuid (sm_objects (snd (close_session closes u st))) = map mg_uuid (sm_objects st)"
    by (auto simp: close_session_def Let_def map_update list_update_same_conv split: sum.splits)
       (metis close_object_fields(1) length_map list_update_beyond list_update_id map_update not_le nth_map)+
  then show ?thesis unfolding used_ids_def by (metis list.set_map)
qed

interpretation registry: session_registry manager_ok open_ids used_ids manager_fits manager_create get_session close_session
proof
  fix st :: "('a, 'b, 'c) session_manager" and pr u b
  show "manager_fits (snd (manager_create pr u st)) = manager_fits st"
    by (auto simp: manager_fits_def manager_create_def split: prod.splits)
  show "manager_fits (snd (close_session b u st)) = manager_fits st" by (simp add: manager_fits_def)
  assume ok: "manager_ok st"
  show "manager_ok (snd (close_session b u st))" using ok by (rule close_session_ok)
  show "open_ids (snd (close_session b u st)) = open_ids st - {u}" using ok by (rule close_session_ids)
  show "used_ids (snd (close_session b u st)) = used_ids st" by (rule close_session_used)
  show "fst (close_session b u st) = (if u \<in> open_ids st then Inr () else Inl ExceptionNotFound)"
    using ok by (rule close_session_result)
  show "map_sum id (\<lambda>_. ()) (get_session u st) = (if u \<in> open_ids st then Inr () else Inl ExceptionNotFound)"
    using get_session_ok[OF ok, of u] by (auto simp: open_ids_iff split: option.splits)
  show "used_ids (snd (manager_create pr u st)) = insert u (used_ids st)"
    by (simp add: manager_create_def create_session_used split: prod.splits)
  show "open_ids (snd (manager_create pr u st)) = insert u (open_ids st)"
    by (simp add: manager_create_def create_session_ids split: prod.splits)
  assume "manager_fits st pr" and "u \<notin> used_ids st"
  then show "manager_ok (snd (manager_create pr u st))" using ok
    by (cases pr) (simp add: manager_create_def manager_fits_def used_ids_def create_session_ok)
qed

text \<open>C19: seen through its interface the manager is a set of uuids. From any reachable state, every
  sequence of creations (on threads of the pool, with uuids not used before), closings and searches
  gives exactly the answers of the set, \<open>ExceptionNotFound\<close> for a uuid that is not open, whatever the
  sockets do when they are closed; and the registered uuids at the end are those of the set.\<close>
theorem manager_refines_set:
  assumes "manager_reach n st" and "ops_fit (manager_fits st) (used_ids st) ops"
  shows "run_steps set_step ops (open_ids st)
    = (fst (run_steps (registry_step manager_create get_session close_session) ops st),
       open_ids (snd (run_steps (registry_step manager_create get_session close_session) ops st)))"
  using registry.runs_refine[OF conjunct1[OF reach_ok[OF assms(1)]] assms(2) prod.collapse[symmetric]]
  by simp

section \<open>Housekeeping\<close>

text \<open>The sessions of thread \<open>i\<close> that ask to be closed when each of them reads the clock.\<close>

definition overdue :: "(nat \<Rightarrow> int) \<Rightarrow> nat \<Rightarrow> ('p, 'cl, 'i) session_manager \<Rightarrow> 'i set" where
  "overdue clock i st =
     {u \<in> open_ids st. let a = the (map_of (sm_sessions st) u) in
        mg_thread (sm_objects st ! a) = i
        \<and> \<not> fst (session_on_housekeeping (clock a) (mg_ses (sm_objects st ! a)))}"

text \<open>A timer runs, and then the tasks that are waiting then, in their order.\<close>

definition housekeeping_round ::
    "bool \<Rightarrow> (nat \<Rightarrow> int) \<Rightarrow> nat \<Rightarrow> ('p, 'cl, 'i) session_manager \<Rightarrow> ('p, 'cl, 'i) session_manager" where
  "housekeeping_round closes clock i st =
     (let st = manager_on_thd_timer clock i (st\<lparr>sm_timers := remove1 i (sm_timers st)\<rparr>)
      in fold (\<lambda>(j, u). posted_close closes u) (sm_posted st) (st\<lparr>sm_posted := []\<rparr>))"

lemma stub_on_thd_timer_posted:
  assumes "distinct q" and "set q \<subseteq> {..<length (sm_objects st)}"
  shows "sm_posted (stub_on_thd_timer clock q st) = sm_posted st @
    map (\<lambda>a. (mg_thread (sm_objects st ! a), mg_uuid (sm_objects st ! a)))
      (filter (\<lambda>a. \<not> fst (session_on_housekeeping (clock a) (mg_ses (sm_objects st ! a)))) q)"
  using assms
proof (induction q arbitrary: st)
  case (Cons a q)
  obtain keep ses where h: "session_on_housekeeping (clock a) (mg_ses (sm_objects st ! a)) = (keep, ses)" by fastforce
  let ?m = "(sm_objects st ! a)\<lparr>mg_ses := ses\<rparr>"
  have same: "sm_objects (set_object a ?m st) ! b = sm_objects st ! b" if "b \<in> set q" for b
    using that Cons.prems by (auto simp: nth_list_update)
  have "map (\<lambda>b. (mg_thread (sm_objects (set_object a ?m st) ! b), mg_uuid (sm_objects (set_object a ?m st) ! b)))
      (filter (\<lambda>b. \<not> fst (session_on_housekeeping (clock b) (mg_ses (sm_objects (set_object a ?m st) ! b)))) q)
    = map (\<lambda>b. (mg_thread (sm_objects st ! b), mg_uuid (sm_objects st ! b)))
      (filter (\<lambda>b. \<not> fst (session_on_housekeeping (clock b) (mg_ses (sm_objects st ! b)))) q)"
    using same by (auto cong: filter_cong)
  then show ?case using Cons by (cases keep) (simp_all add: h Let_def)
qed simp

lemma fold_close_ids:
  "manager_ok st \<Longrightarrow> manager_ok (fold (\<lambda>(j, u). posted_close closes u) ts st)
     \<and> open_ids (fold (\<lambda>(j, u). posted_close closes u) ts st) = open_ids st - snd ` set ts"
  by (induction ts arbitrary: st)
     (simp, simp add: split_beta posted_close_def close_session_ok close_session_ids, blast)

lemma overdue_stub:
  assumes "manager_ok st" and "stub_at st i = Some q"
  shows "overdue clock i st = mg_uuid ` (\<lambda>a. sm_objects st ! a) `
    {a \<in> set q. \<not> fst (session_on_housekeeping (clock a) (mg_ses (sm_objects st ! a)))}" (is "_ = ?R")
proof (rule set_eqI)
  have reg: "registered_ok st" and stubs: "stubs_ok st" using assms(1) by (simp_all add: manager_ok_def)
  fix u
  show "u \<in> overdue clock i st \<longleftrightarrow> u \<in> ?R"
  proof
    assume "u \<in> overdue clock i st"
    then obtain a where a: "map_of (sm_sessions st) u = Some a" "mg_thread (sm_objects st ! a) = i"
      "\<not> fst (session_on_housekeeping (clock a) (mg_ses (sm_objects st ! a)))"
      by (auto simp: overdue_def open_ids_iff Let_def)
    obtain q' where "mg_uuid (sm_objects st ! a) = u" "stub_at st i = Some q'" "a \<in> set q'"
      using registeredE[OF reg a(1)] a(2) by metis
    then show "u \<in> ?R" using a(3) assms(2) by auto
  next
    assume "u \<in> ?R"
    then obtain a where a: "u = mg_uuid (sm_objects st ! a)" "a \<in> set q"
      "\<not> fst (session_on_housekeeping (clock a) (mg_ses (sm_objects st ! a)))" by auto
    then have "mg_thread (sm_objects st ! a) = i" "map_of (sm_sessions st) u = Some a"
      using stubs assms(2) by (auto simp: stubs_ok_def)
    then show "u \<in> overdue clock i st" using a(3) by (simp add: overdue_def open_ids_iff)
  qed
qed

lemma timer_posted:
  assumes "manager_ok st" and "i \<in> set (sm_timers st)"
  shows "snd ` set (sm_posted (manager_on_thd_timer clock i (st\<lparr>sm_timers := r\<rparr>)))
    = snd ` set (sm_posted st) \<union> overdue clock i st"
proof -
  obtain q where q: "stub_at st i = Some q" using assms by (auto simp: manager_ok_def timers_ok_def)
  then have d: "distinct q" "set q \<subseteq> {..<length (sm_objects st)}"
    using assms(1) by (auto simp: manager_ok_def stubs_ok_def)
  show ?thesis
    using q overdue_stub[OF assms(1) q, of clock] d
      stub_on_thd_timer_posted[of q "st\<lparr>sm_timers := r\<rparr>" clock]
    by (cases "q = []") (simp_all add: manager_on_thd_timer_def stub_is_empty_def image_Un image_image)
qed

lemma timer_ids: "open_ids (manager_on_thd_timer clock i (st\<lparr>sm_timers := r\<rparr>)) = open_ids st"
  by (simp add: manager_on_thd_timer_def open_ids_def split: option.splits)

text \<open>Without a timer the thread has no stub, and nothing but the waiting tasks closes sessions.\<close>

lemma timer_missing:
  assumes "manager_ok st" and "i \<notin> set (sm_timers st)"
  shows "manager_on_thd_timer clock i (st\<lparr>sm_timers := remove1 i (sm_timers st)\<rparr>) = st" and "overdue clock i st = {}"
proof -
  have none: "stub_at st i = None" using assms by (simp add: manager_ok_def timers_ok_def)
  then show "manager_on_thd_timer clock i (st\<lparr>sm_timers := remove1 i (sm_timers st)\<rparr>) = st"
    using assms(2) by (simp add: manager_on_thd_timer_def remove1_idem)
  have "registered_ok st" using assms(1) by (simp add: manager_ok_def)
  show "overdue clock i st = {}"
  proof (rule equals0I)
    fix u assume "u \<in> overdue clock i st"
    then obtain a where a: "map_of (sm_sessions st) u = Some a" "mg_thread (sm_objects st ! a) = i"
      by (auto simp: overdue_def open_ids_iff Let_def)
    from registeredE[OF \<open>registered_ok st\<close> a(1)] a(2) none show False by auto
  qed
qed

text \<open>C20: idle sessions are closed, and no others. Every open session of a reachable state has the
  timer of its thread pending. When the housekeeping of a thread runs, and then the tasks that are waiting,
  exactly those sessions are closed that a waiting task named before or that belong to the thread
  and ask to be closed at the time they read from the clock; the registry and the stubs agree again
  afterwards.\<close>
theorem housekeeping_closes_overdue:
  assumes "manager_reach n st"
  shows "(u \<in> open_ids st \<longrightarrow> (\<exists>a. map_of (sm_sessions st) u = Some a \<and> mg_thread (sm_objects st ! a) \<in> set (sm_timers st)))
    \<and> open_ids (housekeeping_round closes clock i st)
      = open_ids st - snd ` set (sm_posted st) - overdue clock i st
    \<and> manager_ok (housekeeping_round closes clock i st)"
proof (intro conjI)
  have ok: "manager_ok st" using reach_ok[OF assms(1)] by simp
  let ?t = "manager_on_thd_timer clock i (st\<lparr>sm_timers := remove1 i (sm_timers st)\<rparr>)"
  have t: "manager_ok (?t\<lparr>sm_posted := []\<rparr>)"
    using manager_on_thd_timer_ok[OF ok] timer_missing(1)[OF ok] ok by (cases "i \<in> set (sm_timers st)") simp_all
  have ids: "open_ids (?t\<lparr>sm_posted := []\<rparr>) = open_ids st" using timer_ids by (simp add: open_ids_def)
  have posted: "snd ` set (sm_posted ?t) = snd ` set (sm_posted st) \<union> overdue clock i st"
    using timer_posted[OF ok] timer_missing[OF ok] by (cases "i \<in> set (sm_timers st)") simp_all
  note f = fold_close_ids[OF t, of closes "sm_posted ?t"]
  show "open_ids (housekeeping_round closes clock i st)
      = open_ids st - snd ` set (sm_posted st) - overdue clock i st"
    using f unfolding housekeeping_round_def Let_def ids posted by blast
  show "manager_ok (housekeeping_round closes clock i st)"
    using f by (simp add: housekeeping_round_def Let_def)
  show "u \<in> open_ids st \<longrightarrow> (\<exists>a. map_of (sm_sessions st) u = Some a \<and> mg_thread (sm_objects st ! a) \<in> set (sm_timers st))"
  proof
    assume "u \<in> open_ids st"
    then obtain a where a: "map_of (sm_sessions st) u = Some a" by (auto simp: open_ids_iff)
    have "registered_ok st" using ok by (simp add: manager_ok_def)
    from this a have "stub_at st (mg_thread (sm_objects st ! a)) \<noteq> None" by (rule registeredE) simp
    then show "\<exists>a. map_of (sm_sessions st) u = Some a \<and> mg_thread (sm_objects st ! a) \<in> set (sm_timers st)"
      using a ok by (simp add: manager_ok_def timers_ok_def)
  qed
qed

section \<open>A manager for the witnesses\<close>

text \<open>Two sessions on the first of two threads, the second 50 seconds younger.\<close>

definition demo_params :: "nat session_params" where
  "demo_params = \<lparr>sp_pipeline = 0, sp_client = None, sp_time_out = 60\<rparr>"

definition demo_manager :: "(demo_path, nat, nat) session_manager" where
  "demo_manager =
     snd (create_session 0 55000000000 demo_params 8
       (snd (create_session 0 5000000000 demo_params 7 (session_manager_new 2))))"

lemma demo_manager_reach: "manager_reach 2 demo_manager"
proof -
  let ?one = "snd (create_session 0 5000000000 demo_params 7 (session_manager_new 2)) :: (demo_path, nat, nat) session_manager"
  have *: "sp_pipeline demo_params < length (sm_stubs ?one) \<and> 8 \<notin> mg_uuid ` set (sm_objects ?one)
    \<and> sp_pipeline demo_params < length (sm_stubs (session_manager_new 2 :: (demo_path, nat, nat) session_manager))
    \<and> 7 \<notin> mg_uuid ` set (sm_objects (session_manager_new 2 :: (demo_path, nat, nat) session_manager))" by code_simp
  show ?thesis unfolding demo_manager_def
    by (rule manager_next[OF manager_next[OF manager_start]]; rule step_create) (use * in simp_all)
qed

theorem manager_invariant_witness: "manager_ok demo_manager"
  by (rule manager_invariant[OF demo_manager_reach])

theorem manager_refines_set_witness:
  "fst (run_steps (registry_step manager_create get_session close_session)
      [Find_session 7, Close_session True 7, Find_session 7, Open_session (0::64 word, 0::int, demo_params) 9, Find_session 9] demo_manager)
    = [Inr (), Inr (), Inl ExceptionNotFound, Inr (), Inr ()]"
proof -
  let ?ops = "[Find_session 7, Close_session True 7, Find_session 7, Open_session (0::64 word, 0::int, demo_params) 9, Find_session 9]"
  have fit: "ops_fit (manager_fits demo_manager) (used_ids demo_manager) ?ops" by code_simp
  have "fst (run_steps set_step ?ops (open_ids demo_manager)) = [Inr (), Inr (), Inl ExceptionNotFound, Inr (), Inr ()]"
    by code_simp
  moreover note manager_refines_set[OF demo_manager_reach fit]
  ultimately show ?thesis by (simp only: fst_conv)
qed

theorem housekeeping_closes_overdue_witness:
  "open_ids (housekeeping_round True (\<lambda>a. 70000000000) 0 demo_manager) = {8}"
proof -
  have *: "sm_posted demo_manager = [] \<and> sm_sessions demo_manager = [(7, 0), (8, 1)]
    \<and> mg_thread (sm_objects demo_manager ! 0) = 0
    \<and> \<not> fst (session_on_housekeeping 70000000000 (mg_ses (sm_objects demo_manager ! 0)))
    \<and> fst (session_on_housekeeping 70000000000 (mg_ses (sm_objects demo_manager ! 1)))" by code_simp
  then have "overdue (\<lambda>a. 70000000000) 0 demo_manager = {7}" "open_ids demo_manager = {7, 8}"
    by (auto simp: overdue_def open_ids_def Let_def)
  then show ?thesis
    using housekeeping_closes_overdue[OF demo_manager_reach, of 7 True "\<lambda>a. 70000000000"] * by auto
qed

end
