(* ===== verification/FtpHost.thy ===== *)
theory FtpHost
  imports FtpControl WfdeSessionManager
begin

text \<open>
  All connections of a host together: \<open>WfdeProtocolFtp::HandleConnection\<close>, the coroutines of \<open>FtpControl\<close> and
  the session manager share the disk, the authentication manager and the session objects. A
  connection has the index of its session object; \<open>WfdeFtpSession\<close> refers to the object weakly, so its
  copy in the connection (\<open>fx_ses\<close>, \<open>fx_socket_open\<close>, \<open>fx_expired\<close>) is refreshed when the manager acts.
  Every step of the host is a step of one connection and keeps the others where they are.
\<close>

section \<open>State\<close>

record ('p, 'cl, 'w, 'am, 'os, 'i) ftp_host =
  fh_manager :: "('p, 'cl, 'i) session_manager"
  fh_conns :: "('p, 'cl, 'w, 'am, 'os) control list"
  fh_disk :: 'w
  fh_am :: 'am
  fh_os :: 'os

definition host_new :: "nat \<Rightarrow> 'am \<Rightarrow> 'w \<Rightarrow> 'os \<Rightarrow> ('p, 'cl, 'w, 'am, 'os, 'i) ftp_host" where
  "host_new threads am w os =
     \<lparr>fh_manager = session_manager_new threads, fh_conns = [], fh_disk = w, fh_am = am, fh_os = os\<rparr>"

definition ctl_map ::
    "(('p, 'cl, 'w, 'am, 'os) ftp \<Rightarrow> ('p, 'cl, 'w, 'am, 'os) ftp) \<Rightarrow> ('p, 'cl, 'w, 'am, 'os) control \<Rightarrow>
     ('p, 'cl, 'w, 'am, 'os) control" where
  "ctl_map f c = (case c of (pc, inp, segs, x) \<Rightarrow> (pc, inp, segs, f x))"

abbreviation ctl_ftp :: "('p, 'cl, 'w, 'am, 'os) control \<Rightarrow> ('p, 'cl, 'w, 'am, 'os) ftp" where
  "ctl_ftp c \<equiv> snd (snd (snd c))"

text \<open>A connection with what it shares, and the host after that connection has moved.\<close>

definition view :: "('p, 'cl, 'w, 'am, 'os, 'i) ftp_host \<Rightarrow> nat \<Rightarrow> ('p, 'cl, 'w, 'am, 'os) control" where
  "view h a = ctl_map (\<lambda>x. x\<lparr>fx_am := fh_am h, fx_disk := fh_disk h, fx_os := fh_os h\<rparr>) (fh_conns h ! a)"

definition with_session ::
    "nat \<Rightarrow> ('p, 'cl, 'w, 'am, 'os) ftp \<Rightarrow> ('p, 'cl, 'i) session_manager \<Rightarrow> ('p, 'cl, 'i) session_manager" where
  "with_session a x mgr =
     set_object a ((sm_objects mgr ! a)\<lparr>mg_ses := fx_ses x, mg_socket_open := fx_socket_open x\<rparr>) mgr"

definition put ::
    "nat \<Rightarrow> ('p, 'cl, 'w, 'am, 'os) control \<Rightarrow> ('p, 'cl, 'w, 'am, 'os, 'i) ftp_host \<Rightarrow>
     ('p, 'cl, 'w, 'am, 'os, 'i) ftp_host" where
  "put a c h =
     h\<lparr>fh_conns := (fh_conns h)[a := c], fh_manager := with_session a (ctl_ftp c) (fh_manager h),
       fh_disk := fx_disk (ctl_ftp c), fh_am := fx_am (ctl_ftp c), fh_os := fx_os (ctl_ftp c)\<rparr>"

text \<open>The connections look at their session objects: locking the weak reference tells whether it expired.\<close>

definition refresh ::
    "('p, 'cl, 'i) session_manager \<Rightarrow> nat \<Rightarrow> ('p, 'cl, 'w, 'am, 'os) ftp \<Rightarrow> ('p, 'cl, 'w, 'am, 'os) ftp" where
  "refresh mgr a x =
     x\<lparr>fx_ses := mg_ses (sm_objects mgr ! a), fx_socket_open := mg_socket_open (sm_objects mgr ! a),
       fx_expired := \<not> session_alive mgr a\<rparr>"

definition manager_moved ::
    "('p, 'cl, 'i) session_manager \<Rightarrow> ('p, 'cl, 'w, 'am, 'os, 'i) ftp_host \<Rightarrow> ('p, 'cl, 'w, 'am, 'os, 'i) ftp_host" where
  "manager_moved mgr h =
     h\<lparr>fh_manager := mgr,
       fh_conns := map (\<lambda>a. ctl_map (refresh mgr a) (fh_conns h ! a)) [0..<length (fh_conns h)]\<rparr>"

section \<open>Steps\<close>

text \<open>\<open>HandleConnection\<close> on thread \<open>sp_pipeline sp\<close>, with a fresh uuid.\<close>

definition host_connect ::
    "('p, 'w, 'am, 'cl, 'os) ftp_env \<Rightarrow> 64 word \<Rightarrow> string \<Rightarrow> string list \<Rightarrow> 'cl session_params \<Rightarrow> 'p paths \<Rightarrow> 'i \<Rightarrow>
     ('p, 'cl, 'w, 'am, 'os, 'i) ftp_host \<Rightarrow> ('p, 'cl, 'w, 'am, 'os, 'i) ftp_host" where
  "host_connect env garbage buffer segs sp perms u h =
     (case create_session garbage (e_clock env (fh_os h)) sp u (fh_manager h) of (a, mgr) \<Rightarrow>
        let x = handle_connection env garbage (sp_time_out sp) perms (fh_am h) (fh_disk h) (fh_os h);
            c = (Ctl_test, ftp_input_new buffer, segs, x)
        in put a c (h\<lparr>fh_manager := mgr, fh_conns := fh_conns h @ [c]\<rparr>))"

text \<open>A step of a connection; \<open>DoClose\<close> of a session that has not expired calls \<open>CloseSession\<close>.\<close>

definition host_moved ::
    "bool \<Rightarrow> nat \<Rightarrow> ('p, 'cl, 'w, 'am, 'os) control \<Rightarrow> ('p, 'cl, 'w, 'am, 'os, 'i) ftp_host \<Rightarrow>
     ('p, 'cl, 'w, 'am, 'os, 'i) ftp_host" where
  "host_moved closes a c h =
     (let h' = put a c h
      in if fx_expired (ctl_ftp c) \<and> \<not> fx_expired (ctl_ftp (view h a))
         then h'\<lparr>fh_manager := snd (close_session closes (mg_uuid (sm_objects (fh_manager h) ! a)) (fh_manager h'))\<rparr>
         else h')"

inductive host_step ::
    "('p, 'w, 'am, 'cl, 'os) ftp_env \<Rightarrow> ('p, 'cl, 'w, 'am, 'os, 'i) ftp_host \<Rightarrow>
     ('p, 'cl, 'w, 'am, 'os, 'i) ftp_host \<Rightarrow> bool" for env where
  host_accepts: "sp_pipeline sp < length (sm_stubs (fh_manager h)) \<Longrightarrow> sp_client sp = None \<Longrightarrow>
    u \<notin> mg_uuid ` set (sm_objects (fh_manager h)) \<Longrightarrow> mounts_ok perms \<Longrightarrow> length buffer = input_cap \<Longrightarrow>
    host_step env h (host_connect env garbage buffer segs sp perms u h)"
| host_moves: "a < length (fh_conns h) \<Longrightarrow> control_own env (view h a) c \<Longrightarrow> host_step env h (host_moved closes a c h)"
| host_timer: "i \<in> set (sm_timers (fh_manager h)) \<Longrightarrow>
    host_step env h (manager_moved (manager_on_thd_timer clock i
      ((fh_manager h)\<lparr>sm_timers := remove1 i (sm_timers (fh_manager h))\<rparr>)) h)"
| host_posted: "t \<in> set (sm_posted (fh_manager h)) \<Longrightarrow>
    host_step env h (manager_moved (posted_close closes (snd t)
      ((fh_manager h)\<lparr>sm_posted := remove1 t (sm_posted (fh_manager h))\<rparr>)) h)"

text \<open>Other programs on the machine change the disk, and time passes.\<close>

inductive host_reach ::
    "('p, 'w, 'am, 'cl, 'os) ftp_env \<Rightarrow> ('am \<Rightarrow> bool) \<Rightarrow> nat \<Rightarrow> ('p, 'cl, 'w, 'am, 'os, 'i) ftp_host \<Rightarrow> bool"
  for env ok n where
  host_start: "ok am \<Longrightarrow> host_reach env ok n (host_new n am w os)"
| host_next: "host_reach env ok n h \<Longrightarrow> host_step env h h' \<Longrightarrow> host_reach env ok n h'"
| host_outside: "host_reach env ok n h \<Longrightarrow> ok am \<Longrightarrow> host_reach env ok n (h\<lparr>fh_am := am, fh_disk := w, fh_os := os\<rparr>)"

section \<open>The invariant\<close>

definition conn_ok ::
    "('p, 'w, 'am, 'cl, 'os) ftp_env \<Rightarrow> ('am \<Rightarrow> bool) \<Rightarrow> ('p, 'cl, 'w, 'am, 'os, 'i) ftp_host \<Rightarrow> nat \<Rightarrow> bool" where
  "conn_ok env ok h a \<longleftrightarrow> control_reach env ok (view h a)
     \<and> ctl_ftp (view h a) = refresh (fh_manager h) a (ctl_ftp (view h a))"

definition host_inv ::
    "('p, 'w, 'am, 'cl, 'os) ftp_env \<Rightarrow> ('am \<Rightarrow> bool) \<Rightarrow> nat \<Rightarrow> ('p, 'cl, 'w, 'am, 'os, 'i) ftp_host \<Rightarrow> bool" where
  "host_inv env ok n h \<longleftrightarrow> manager_reach n (fh_manager h) \<and> sm_held (fh_manager h) = [] \<and> ok (fh_am h)
     \<and> length (fh_conns h) = length (sm_objects (fh_manager h)) \<and> (\<forall>a < length (fh_conns h). conn_ok env ok h a)"

text \<open>Without other strong references a session object lives exactly while it is registered.\<close>

lemma alive_registered:
  assumes "manager_ok mgr" and "sm_held mgr = []"
  shows "session_alive mgr a \<longleftrightarrow> (\<exists>u. map_of (sm_sessions mgr) u = Some a)"
proof
  assume "session_alive mgr a"
  then obtain q where "Some q \<in> set (sm_stubs mgr)" "a \<in> set q"
    using assms(2) by (auto simp: session_alive_def list_ex_iff split: option.splits)
  then obtain i where i: "i < length (sm_stubs mgr)" "sm_stubs mgr ! i = Some q" by (auto simp: in_set_conv_nth)
  then have "stub_at mgr i = Some q" by (simp add: stub_at_def)
  then show "\<exists>u. map_of (sm_sessions mgr) u = Some a"
    using assms(1) \<open>a \<in> set q\<close> by (auto simp: manager_ok_def stubs_ok_def)
next
  assume "\<exists>u. map_of (sm_sessions mgr) u = Some a"
  then obtain u where "map_of (sm_sessions mgr) u = Some a" ..
  moreover have "registered_ok mgr" using assms(1) by (simp add: manager_ok_def)
  ultimately show "session_alive mgr a" using registeredE[of mgr u a] stub_alive by metis
qed

lemma registered_uuid:
  assumes "manager_ok mgr" and "map_of (sm_sessions mgr) u = Some a"
  shows "u = mg_uuid (sm_objects mgr ! a)"
proof -
  have "registered_ok mgr" using assms(1) by (simp add: manager_ok_def)
  from this assms(2) show ?thesis by (rule registeredE) simp
qed
lemma refresh_id:
  "refresh mgr a x = x \<longleftrightarrow> mg_ses (sm_objects mgr ! a) = fx_ses x
     \<and> mg_socket_open (sm_objects mgr ! a) = fx_socket_open x \<and> (fx_expired x \<longleftrightarrow> \<not> session_alive mgr a)"
  by (cases x) (auto simp: refresh_def)

lemma refresh_shared:
  "(refresh mgr a x)\<lparr>fx_am := am, fx_disk := w, fx_os := os\<rparr> = refresh mgr a (x\<lparr>fx_am := am, fx_disk := w, fx_os := os\<rparr>)"
  by (cases x) (simp add: refresh_def)

lemma ctl_map_simps [simp]:
  "ctl_ftp (ctl_map f c) = f (ctl_ftp c)" "ctl_map f (pc, inp, segs, x) = (pc, inp, segs, f x)"
  by (simp_all add: ctl_map_def split: prod.split)

lemma ctl_map_twice: "ctl_map f (ctl_map g c) = ctl_map (\<lambda>x. f (g x)) c"
  by (simp add: ctl_map_def split: prod.split)

lemma ctl_map_id: "f (ctl_ftp c) = ctl_ftp c \<Longrightarrow> ctl_map f c = c"
  by (cases c) simp

lemma view_put:
  "view (put a c h) b = (if a = b \<and> a < length (fh_conns h) then c
     else ctl_map (\<lambda>x. x\<lparr>fx_am := fx_am (ctl_ftp c), fx_disk := fx_disk (ctl_ftp c), fx_os := fx_os (ctl_ftp c)\<rparr>) (view h b))"
proof (cases "a = b \<and> a < length (fh_conns h)")
  case True
  then show ?thesis by (simp add: view_def put_def) (rule ctl_map_id, simp)
next
  case False
  then have "fh_conns (put a c h) ! b = fh_conns h ! b"
    by (cases "a = b") (simp_all add: put_def list_update_beyond)
  then show ?thesis using False by (auto simp: view_def ctl_map_twice put_def)
qed

text \<open>A connection that another one leaves alone.\<close>

lemma conn_ok_shared:
  assumes "conn_ok env ok h b" and "ok am"
    and "view h' b = ctl_map (\<lambda>x. x\<lparr>fx_am := am, fx_disk := w, fx_os := os\<rparr>) (view h b)"
    and "sm_objects (fh_manager h') ! b = sm_objects (fh_manager h) ! b"
    and "session_alive (fh_manager h') b = session_alive (fh_manager h) b"
  shows "conn_ok env ok h' b"
proof -
  obtain pc inp segs x where v: "view h b = (pc, inp, segs, x)" by (metis prod.exhaust)
  let ?y = "x\<lparr>fx_am := am, fx_disk := w, fx_os := os\<rparr>"
  have "control_step env ok (pc, inp, segs, x) (pc, inp, segs, ?y)"
    by (rule ctl_outside) (use assms(2) in \<open>auto simp: outside_step_iff\<close>)
  moreover have "control_reach env ok (pc, inp, segs, x)" using assms(1) v by (simp add: conn_ok_def)
  ultimately have "control_reach env ok (pc, inp, segs, ?y)" by (rule control_next[rotated])
  moreover have "refresh (fh_manager h') b ?y = ?y"
    using assms(1,4,5) v refresh_id[of "fh_manager h" b x] refresh_id[of "fh_manager h'" b ?y] by (simp add: conn_ok_def)
  ultimately show ?thesis using assms(3) v by (simp add: conn_ok_def)
qed

lemma conn_ok_am:
  assumes "mount_provider (e_auth env) ok" and "control_reach env ok c"
  shows "ok (fx_am (ctl_ftp c))"
proof -
  have "ftp_reach env ok (ctl_ftp c)" using control_reach_inv[OF assms(2)] by (simp add: control_inv_def split: prod.splits)
  from reach_inv[OF this assms(1)] show ?thesis by (simp add: ftp_inv_def)
qed

section \<open>A step of a connection\<close>

lemma ftp_do_close_expired:
  "fx_expired (ftp_do_close x) = fx_expired x \<or> fx_expired (ftp_do_close x) \<and> ses_closed (fx_ses (ftp_do_close x))"
proof -
  have "fx_ses (run_abort a y) = fx_ses y" for a :: abort_action and y :: "('p, 'cl, 'w, 'am, 'os) ftp"
    by (simp add: run_abort_def split: abort_action.split)
  then show ?thesis
    by (simp add: ftp_do_close_def Let_def session_close_def split: option.split)
qed

lemma control_own_expired:
  assumes "control_own env c c'"
  shows "fx_expired (ctl_ftp c') = fx_expired (ctl_ftp c) \<or> fx_expired (ctl_ftp c') \<and> ses_closed (fx_ses (ctl_ftp c'))"
  using assms
proof (induction rule: control_own.induct)
  case (ctl_ends x inp segs)
  then show ?case using ftp_do_close_expired[of x] by simp
next
  case (ctl_request x inp segs request inp' segs')
  then show ?case using process_request_marks[of env request x] by (simp add: marks_def)
next
  case (ctl_throws x inp segs e inp' segs')
  then show ?case
    using ftp_do_close_expired[of x] ftp_do_close_expired[of "ftp_send env RC_BYE too_long_message False x"] by simp
next
  case (ctl_task pc x y inp segs)
  then show ?case using task_step_marks[of env x y] by (simp add: marks_def)
qed simp_all

lemma with_session_fields [simp]:
  "sm_held (with_session a x mgr) = sm_held mgr" "sm_stubs (with_session a x mgr) = sm_stubs mgr"
  "sm_sessions (with_session a x mgr) = sm_sessions mgr" "length (sm_objects (with_session a x mgr)) = length (sm_objects mgr)"
  "session_alive (with_session a x mgr) b = session_alive mgr b" "stub_at (with_session a x mgr) = stub_at mgr"
  by (simp_all add: with_session_def session_alive_def)

lemma with_session_object:
  "b < length (sm_objects mgr) \<Longrightarrow> sm_objects (with_session a x mgr) ! b
     = (if b = a then (sm_objects mgr ! a)\<lparr>mg_ses := fx_ses x, mg_socket_open := fx_socket_open x\<rparr> else sm_objects mgr ! b)"
  by (simp add: with_session_def)

lemma manager_reach_with: "manager_reach n mgr \<Longrightarrow> manager_reach n (with_session a x mgr)"
  unfolding with_session_def by (erule manager_next) (rule step_use)

lemma put_fields [simp]:
  "fh_manager (put a c h) = with_session a (ctl_ftp c) (fh_manager h)" "fh_am (put a c h) = fx_am (ctl_ftp c)"
  "fh_conns (put a c h) = (fh_conns h)[a := c]"
  by (simp_all add: put_def)

text \<open>Closing the session of a connection that has marked its session as closed.\<close>

lemma close_marked:
  assumes "manager_reach n mgr" and "sm_held mgr = []" and "session_alive mgr a" and "a < length (sm_objects mgr)"
    and "ses_closed (fx_ses x)"
    and mgr': "mgr' = snd (close_session closes (mg_uuid (sm_objects mgr ! a)) (with_session a x mgr))"
  shows "sm_objects mgr' = sm_objects (with_session a x mgr)" and "sm_held mgr' = []"
    and "session_alive mgr' b \<longleftrightarrow> b \<noteq> a \<and> session_alive mgr b" and "manager_reach n mgr'"
proof -
  let ?u = "mg_uuid (sm_objects mgr ! a)" and ?w = "with_session a x mgr"
  have ok: "manager_ok mgr" using reach_ok[OF assms(1)] by simp
  have rw: "manager_reach n ?w" by (rule manager_reach_with[OF assms(1)])
  have okw: "manager_ok ?w" using reach_ok[OF rw] by simp
  obtain v where "map_of (sm_sessions mgr) v = Some a" using alive_registered[OF ok assms(2)] assms(3) by auto
  then have u: "map_of (sm_sessions mgr) ?u = Some a" using registered_uuid[OF ok] by metis
  then have get: "get_session ?u ?w = Inr a" by (simp add: get_session_ok[OF okw])
  have "close_object closes (sm_objects ?w ! a) = sm_objects ?w ! a"
    using assms(4,5) by (simp add: close_object_def with_session_object)
  then have o: "sm_objects mgr' = sm_objects ?w" and held: "sm_held mgr' = []"
    using mgr' get assms(2) by (simp_all add: close_session_def Let_def)
  have sess: "sm_sessions mgr' = AList.delete ?u (sm_sessions mgr)"
    using close_session_result(3)[OF okw] mgr' by simp
  show r: "manager_reach n mgr'" unfolding mgr' by (rule manager_next[OF rw step_close])
  have ok': "manager_ok mgr'" using reach_ok[OF r] by simp
  show "sm_objects mgr' = sm_objects ?w" "sm_held mgr' = []" using o held by simp_all
  show "session_alive mgr' b \<longleftrightarrow> b \<noteq> a \<and> session_alive mgr b"
    unfolding alive_registered[OF ok' held] alive_registered[OF ok assms(2)] sess
  proof
    assume "\<exists>v. map_of (AList.delete ?u (sm_sessions mgr)) v = Some b"
    then obtain v where v: "v \<noteq> ?u" "map_of (sm_sessions mgr) v = Some b" by (auto simp: delete_conv' split: if_splits)
    have "b \<noteq> a" using v(1) registered_uuid[OF ok v(2)] by blast
    with v(2) show "b \<noteq> a \<and> (\<exists>v. map_of (sm_sessions mgr) v = Some b)" by blast
  next
    assume "b \<noteq> a \<and> (\<exists>v. map_of (sm_sessions mgr) v = Some b)"
    then obtain v where v: "b \<noteq> a" "map_of (sm_sessions mgr) v = Some b" by blast
    have "v \<noteq> ?u" using u v by auto
    with v(2) show "\<exists>v. map_of (AList.delete ?u (sm_sessions mgr)) v = Some b" by (intro exI[of _ v]) (simp add: delete_conv')
  qed
qed

lemma host_moved_inv:
  assumes inv: "host_inv env ok n h" and "mount_provider (e_auth env) ok" and a: "a < length (fh_conns h)"
    and own: "control_own env (view h a) c"
  shows "host_inv env ok n (host_moved closes a c h)"
proof -
  let ?m = "fh_manager h" and ?x = "ctl_ftp c"
  have m: "manager_reach n ?m" "sm_held ?m = []" "length (fh_conns h) = length (sm_objects ?m)"
    and conns: "\<And>b. b < length (fh_conns h) \<Longrightarrow> conn_ok env ok h b" using inv by (simp_all add: host_inv_def)
  have c: "control_reach env ok c"
    using conns[OF a] own unfolding conn_ok_def by (blast intro: control_next ctl_own)
  have am: "ok (fx_am ?x)" by (rule conn_ok_am[OF assms(2) c])
  have alive: "fx_expired (ctl_ftp (view h a)) \<longleftrightarrow> \<not> session_alive ?m a"
    using conns[OF a] refresh_id[of ?m a "ctl_ftp (view h a)"] by (simp add: conn_ok_def)
  have main: "host_inv env ok n ((put a c h)\<lparr>fh_manager := mgr\<rparr>)"
    if "manager_reach n mgr" "sm_held mgr = []" "sm_objects mgr = sm_objects (with_session a ?x ?m)"
      "\<And>b. b \<noteq> a \<Longrightarrow> session_alive mgr b = session_alive ?m b" "session_alive mgr a = (\<not> fx_expired ?x)" for mgr
  proof -
    let ?h = "(put a c h)\<lparr>fh_manager := mgr\<rparr>"
    have v: "view ?h b = view (put a c h) b" for b by (simp add: view_def)
    have "conn_ok env ok ?h b" if b: "b < length (fh_conns h)" for b
    proof (cases "b = a")
      case True
      have "refresh mgr a ?x = ?x" unfolding refresh_id
        using \<open>sm_objects mgr = _\<close> \<open>session_alive mgr a = _\<close> a m(3) by (simp add: with_session_object)
      then show ?thesis using True a c v[of a] by (simp add: conn_ok_def view_put)
    next
      case False
      show ?thesis
        by (rule conn_ok_shared[OF conns[OF b] am, where w = "fx_disk ?x" and os = "fx_os ?x"])
           (use v[of b] False b m(3) \<open>sm_objects mgr = _\<close> \<open>\<And>b. b \<noteq> a \<Longrightarrow> _\<close> in \<open>simp_all add: view_put with_session_object\<close>)
    qed
    then show ?thesis using that am m(3) by (simp add: host_inv_def)
  qed
  show ?thesis
  proof (cases "fx_expired ?x \<and> \<not> fx_expired (ctl_ftp (view h a))")
    case True
    then have "ses_closed (fx_ses ?x)" using control_own_expired[OF own] by simp
    have a': "session_alive ?m a" "a < length (sm_objects ?m)" using True alive a m(3) by simp_all
    note cm = close_marked[OF m(1,2) a' \<open>ses_closed (fx_ses ?x)\<close> refl, of closes]
    have "host_moved closes a c h = (put a c h)\<lparr>fh_manager :=
        snd (close_session closes (mg_uuid (sm_objects ?m ! a)) (with_session a ?x ?m))\<rparr>"
      using True by (simp add: host_moved_def)
    then show ?thesis using main[OF cm(4,2,1)] cm(3) True by simp
  next
    case False
    then have "session_alive ?m a = (\<not> fx_expired ?x)" using control_own_expired[OF own] alive by auto
    moreover have "host_moved closes a c h = (put a c h)\<lparr>fh_manager := with_session a ?x ?m\<rparr>"
      using False by (auto simp: host_moved_def put_def)
    ultimately show ?thesis using main[OF manager_reach_with[OF m(1), of a ?x] _ refl] m(2) by simp
  qed
qed
section \<open>A new connection\<close>

lemma handle_connection_open:
  "\<not> fx_expired (handle_connection env g time_out perms am w os)" "fx_am (handle_connection env g time_out perms am w os) = am"
  by (simp_all add: handle_connection_def ftp_new_def)

lemma host_connect_inv:
  assumes inv: "host_inv env ok n h" and sp: "sp_pipeline sp < length (sm_stubs (fh_manager h))"
    and u: "u \<notin> mg_uuid ` set (sm_objects (fh_manager h))" and "mounts_ok perms" and "length buffer = input_cap"
  shows "host_inv env ok n (host_connect env garbage buffer segs sp perms u h)"
proof -
  let ?m = "fh_manager h" and ?a = "length (fh_conns h)"
  let ?x = "handle_connection env garbage (sp_time_out sp) perms (fh_am h) (fh_disk h) (fh_os h)"
  let ?c = "(Ctl_test, ftp_input_new buffer, segs, ?x)"
  define mgr where "mgr = snd (create_session garbage (e_clock env (fh_os h)) sp u ?m)"
  define h1 where "h1 = h\<lparr>fh_manager := mgr, fh_conns := fh_conns h @ [?c]\<rparr>"
  have m: "manager_reach n ?m" "sm_held ?m = []" "?a = length (sm_objects ?m)" "ok (fh_am h)"
    and conns: "\<And>b. b < ?a \<Longrightarrow> conn_ok env ok h b" using inv by (simp_all add: host_inv_def)
  have ok: "manager_ok ?m" using reach_ok[OF m(1)] by simp
  have h': "host_connect env garbage buffer segs sp perms u h = put ?a ?c h1"
    by (simp add: host_connect_def create_session_def Let_def mgr_def h1_def m(3))
  have r: "manager_reach n mgr" unfolding mgr_def by (rule manager_next[OF m(1) step_create[OF sp u]])
  have ok': "manager_ok mgr" using reach_ok[OF r] by simp
  have parts: "sm_held mgr = []" "length (sm_objects mgr) = Suc ?a" "\<And>b. b < ?a \<Longrightarrow> sm_objects mgr ! b = sm_objects ?m ! b"
    "sm_sessions mgr = AList.update u ?a (sm_sessions ?m)"
    using m(2,3) by (simp_all add: mgr_def create_session_def Let_def attach_session_def nth_append)
  have "u \<notin> open_ids ?m"
  proof
    assume "u \<in> open_ids ?m"
    then obtain b where b: "map_of (sm_sessions ?m) u = Some b" by (auto simp: open_ids_iff)
    have "registered_ok ?m" using ok by (simp add: manager_ok_def)
    from this b show False by (rule registeredE) (use u in auto)
  qed
  then have fresh: "map_of (sm_sessions ?m) u = None" by (simp add: open_ids_iff)
  have alive: "session_alive mgr b = session_alive ?m b" if "b < ?a" for b
    unfolding alive_registered[OF ok' parts(1)] alive_registered[OF ok m(2)] parts(4)
  proof
    assume "\<exists>v. map_of (AList.update u ?a (sm_sessions ?m)) v = Some b"
    then show "\<exists>v. map_of (sm_sessions ?m) v = Some b" using that by (auto simp: update_conv' split: if_splits)
  next
    assume "\<exists>v. map_of (sm_sessions ?m) v = Some b"
    then obtain v where v: "map_of (sm_sessions ?m) v = Some b" ..
    then have "v \<noteq> u" using fresh by auto
    then show "\<exists>v. map_of (AList.update u ?a (sm_sessions ?m)) v = Some b"
      using v by (intro exI[of _ v]) (simp add: update_conv')
  qed
  have new: "session_alive mgr ?a"
    unfolding alive_registered[OF ok' parts(1)] parts(4) by (intro exI[of _ u]) (simp add: update_conv')
  have old: "conn_ok env ok (put ?a ?c h1) b" if b: "b < ?a" for b
  proof (rule conn_ok_shared[OF conns[OF b] m(4), where w = "fx_disk ?x" and os = "fx_os ?x"])
    have "fh_conns h1 ! b = fh_conns h ! b" using b by (simp add: h1_def nth_append)
    then have "view h1 b = view h b" by (simp add: view_def h1_def)
    then show "view (put ?a ?c h1) b = ctl_map (\<lambda>x. x\<lparr>fx_am := fh_am h, fx_disk := fx_disk ?x, fx_os := fx_os ?x\<rparr>) (view h b)"
      using b by (simp add: view_put handle_connection_open)
    show "sm_objects (fh_manager (put ?a ?c h1)) ! b = sm_objects ?m ! b"
      using b parts(2,3) by (simp add: h1_def with_session_object)
    show "session_alive (fh_manager (put ?a ?c h1)) b = session_alive ?m b" using alive[OF b] by (simp add: h1_def)
  qed
  have "conn_ok env ok (put ?a ?c h1) ?a"
  proof -
    have "control_reach env ok ?c" by (rule control_start) (use m(4) assms(4,5) in auto)
    moreover have "view (put ?a ?c h1) ?a = ?c" by (simp add: view_put h1_def)
    moreover have "refresh (fh_manager (put ?a ?c h1)) ?a ?x = ?x"
      unfolding refresh_id using new parts(2) by (simp add: h1_def with_session_object handle_connection_open)
    ultimately show ?thesis by (simp add: conn_ok_def)
  qed
  moreover have "manager_reach n (fh_manager (put ?a ?c h1))" by (simp add: h1_def) (rule manager_reach_with[OF r])
  ultimately show ?thesis unfolding h' using old m(4) parts(1,2)
    by (simp add: host_inv_def h1_def less_Suc_eq handle_connection_open)
qed

section \<open>The manager acts\<close>

lemma manager_moved_inv:
  fixes h :: "('p, 'cl, 'w, 'am, 'os, 'i) ftp_host"
  assumes inv: "host_inv env ok n h" and r: "manager_reach n mgr" and "sm_held mgr = []"
    and "length (sm_objects mgr) = length (sm_objects (fh_manager h))"
    and event: "\<And>a (x :: ('p, 'cl, 'w, 'am, 'os) ftp). a < length (fh_conns h) \<Longrightarrow> refresh (fh_manager h) a x = x \<Longrightarrow>
      refresh mgr a x = x \<or> manager_event x (refresh mgr a x)"
  shows "host_inv env ok n (manager_moved mgr h)"
proof -
  have "conn_ok env ok (manager_moved mgr h) a" if a: "a < length (fh_conns h)" for a
  proof -
    obtain pc inp segs x where v: "view h a = (pc, inp, segs, x)" by (metis prod.exhaust)
    have "conn_ok env ok h a" using inv a by (simp add: host_inv_def)
    then have x: "control_reach env ok (pc, inp, segs, x)" "refresh (fh_manager h) a x = x" using v by (simp_all add: conn_ok_def)
    have "view (manager_moved mgr h) a = ctl_map (refresh mgr a) (view h a)"
      using a by (simp add: view_def manager_moved_def ctl_map_twice refresh_shared)
    then have v': "view (manager_moved mgr h) a = (pc, inp, segs, refresh mgr a x)" using v by simp
    have "control_reach env ok (pc, inp, segs, refresh mgr a x)"
      using event[OF a x(2)] x(1) by (auto intro: control_next ctl_event)
    moreover have "refresh mgr a (refresh mgr a x) = refresh mgr a x" by (simp add: refresh_def)
    ultimately show ?thesis using v' by (simp add: conn_ok_def manager_moved_def)
  qed
  then show ?thesis using assms(1-4) by (simp add: host_inv_def manager_moved_def)
qed

lemma stub_on_thd_timer_object:
  assumes "distinct q" and "set q \<subseteq> {..<length (sm_objects st)}"
  shows "sm_objects (stub_on_thd_timer clock q st) ! a = (if a \<in> set q
    then (sm_objects st ! a)\<lparr>mg_ses := snd (session_on_housekeeping (clock a) (mg_ses (sm_objects st ! a)))\<rparr>
    else sm_objects st ! a)"
  using assms
proof (induction q arbitrary: st)
  case (Cons b q)
  obtain keep ses where h: "session_on_housekeeping (clock b) (mg_ses (sm_objects st ! b)) = (keep, ses)" by fastforce
  let ?st = "set_object b ((sm_objects st ! b)\<lparr>mg_ses := ses\<rparr>) st"
  have "set q \<subseteq> {..<length (sm_objects ?st)}" using Cons.prems by simp
  then show ?case using Cons h by (auto simp: Let_def nth_list_update)
qed simp

lemma timer_object:
  assumes "manager_ok mgr" and "mgr' = manager_on_thd_timer clock i (mgr\<lparr>sm_timers := r\<rparr>)"
  shows "sm_objects mgr' ! a = sm_objects mgr ! a
      \<or> sm_objects mgr' ! a = (sm_objects mgr ! a)\<lparr>mg_ses := snd (session_on_housekeeping (clock a) (mg_ses (sm_objects mgr ! a)))\<rparr>"
    and "length (sm_objects mgr') = length (sm_objects mgr)" and "sm_held mgr' = sm_held mgr"
    and "sm_sessions mgr' = sm_sessions mgr"
proof -
  let ?m = "mgr\<lparr>sm_timers := r\<rparr>"
  show "sm_objects mgr' ! a = sm_objects mgr ! a
      \<or> sm_objects mgr' ! a = (sm_objects mgr ! a)\<lparr>mg_ses := snd (session_on_housekeeping (clock a) (mg_ses (sm_objects mgr ! a)))\<rparr>"
  proof (cases "stub_at mgr i")
    case (Some q)
    then have "distinct q" "set q \<subseteq> {..<length (sm_objects ?m)}" using assms(1) by (auto simp: manager_ok_def stubs_ok_def)
    from stub_on_thd_timer_object[OF this, of clock a] Some show ?thesis
      by (simp add: assms(2) manager_on_thd_timer_def)
  qed (simp add: assms(2) manager_on_thd_timer_def)
  have "length (sm_objects (stub_on_thd_timer clock q ?m)) = length (sm_objects mgr)" for q
    using map_eq_imp_length_eq[OF stub_on_thd_timer_fields(5)[of clock q ?m]] by simp
  then show "length (sm_objects mgr') = length (sm_objects mgr)" and "sm_held mgr' = sm_held mgr"
    and "sm_sessions mgr' = sm_sessions mgr"
    by (simp_all add: assms(2) manager_on_thd_timer_def split: option.split)
qed

lemma host_timer_inv:
  assumes inv: "host_inv env ok n h" and "i \<in> set (sm_timers (fh_manager h))"
  shows "host_inv env ok n (manager_moved (manager_on_thd_timer clock i
      ((fh_manager h)\<lparr>sm_timers := remove1 i (sm_timers (fh_manager h))\<rparr>)) h)"
proof (rule manager_moved_inv[OF inv])
  let ?m = "fh_manager h"
  let ?m' = "manager_on_thd_timer clock i (?m\<lparr>sm_timers := remove1 i (sm_timers ?m)\<rparr>)"
  have m: "manager_reach n ?m" "sm_held ?m = []" using inv by (simp_all add: host_inv_def)
  have ok: "manager_ok ?m" using reach_ok[OF m(1)] by simp
  note t = timer_object[OF ok refl, of clock i "remove1 i (sm_timers ?m)"]
  show r: "manager_reach n ?m'" by (rule manager_next[OF m(1) step_timer[OF assms(2)]])
  show held: "sm_held ?m' = []" "length (sm_objects ?m') = length (sm_objects ?m)" using t m(2) by simp_all
  have ok': "manager_ok ?m'" using reach_ok[OF r] by simp
  fix a x
  assume x: "refresh ?m a x = x"
  have "session_alive ?m' a = session_alive ?m a"
    unfolding alive_registered[OF ok' held(1)] alive_registered[OF ok m(2)] t(4) ..
  then have alive: "fx_expired x = (\<not> session_alive ?m' a)" and same: "mg_ses (sm_objects ?m ! a) = fx_ses x"
    "mg_socket_open (sm_objects ?m ! a) = fx_socket_open x" using x unfolding refresh_id by simp_all
  from t(1)[of a] show "refresh ?m' a x = x \<or> manager_event x (refresh ?m' a x)"
  proof
    assume "sm_objects ?m' ! a = (sm_objects ?m ! a)\<lparr>mg_ses := snd (session_on_housekeeping (clock a) (mg_ses (sm_objects ?m ! a)))\<rparr>"
    then have "refresh ?m' a x = x\<lparr>fx_ses := snd (session_on_housekeeping (clock a) (fx_ses x))\<rparr>"
      using same alive by (cases x) (simp add: refresh_def)
    then show ?thesis using event_housekeeping[OF prod.collapse[symmetric], of x "clock a"] by simp
  qed (use same alive in \<open>simp add: refresh_id\<close>)
qed
lemma posted_close_object:
  assumes "manager_reach n mgr" and "sm_held mgr = []" and "mgr' = posted_close closes u (mgr\<lparr>sm_posted := r\<rparr>)"
    and "manager_reach n mgr'"
  obtains "sm_objects mgr' = sm_objects mgr" and "\<And>b. session_alive mgr' b = session_alive mgr b" and "sm_held mgr' = []"
  | a where "a < length (sm_objects mgr)" and "session_alive mgr a" and "sm_objects mgr' = (sm_objects mgr)[a := close_object closes (sm_objects mgr ! a)]"
    and "\<And>b. session_alive mgr' b = (b \<noteq> a \<and> session_alive mgr b)" and "sm_held mgr' = []"
proof -
  let ?m = "mgr\<lparr>sm_posted := r\<rparr>"
  have ok: "manager_ok mgr" and ok': "manager_ok mgr'" using reach_ok[OF assms(1)] reach_ok[OF assms(4)] by simp_all
  then have okm: "manager_ok ?m" by simp
  have sess: "sm_sessions mgr' = AList.delete u (sm_sessions mgr)"
    using close_session_result(3)[OF okm] assms(3) by (simp add: posted_close_def)
  show ?thesis
  proof (cases "map_of (sm_sessions mgr) u")
    case None
    then have "mgr' = ?m" using close_session_result(2)[OF okm, of u closes] assms(3)
      by (simp add: posted_close_def open_ids_iff)
    then show ?thesis using assms(2) by (intro that(1)) (simp_all add: session_alive_def)
  next
    case (Some a)
    have "registered_ok mgr" using ok by (simp add: manager_ok_def)
    from this Some have a: "a < length (sm_objects mgr)" by (rule registeredE)
    have get: "get_session u ?m = Inr a" using Some by (simp add: get_session_ok[OF okm])
    then have o: "sm_objects mgr' = (sm_objects mgr)[a := close_object closes (sm_objects mgr ! a)]" and held: "sm_held mgr' = []"
      using assms(2,3) by (simp_all add: posted_close_def close_session_def Let_def)
    have "session_alive mgr' b = (b \<noteq> a \<and> session_alive mgr b)" for b
      unfolding alive_registered[OF ok' held] alive_registered[OF ok assms(2)] sess
    proof
      assume "\<exists>v. map_of (AList.delete u (sm_sessions mgr)) v = Some b"
      then obtain v where v: "v \<noteq> u" "map_of (sm_sessions mgr) v = Some b" by (auto simp: delete_conv' split: if_splits)
      then show "b \<noteq> a \<and> (\<exists>v. map_of (sm_sessions mgr) v = Some b)"
        using registered_uuid[OF ok v(2)] registered_uuid[OF ok Some] by blast
    next
      assume "b \<noteq> a \<and> (\<exists>v. map_of (sm_sessions mgr) v = Some b)"
      then obtain v where v: "b \<noteq> a" "map_of (sm_sessions mgr) v = Some b" by blast
      have "v \<noteq> u" using Some v by auto
      with v(2) show "\<exists>v. map_of (AList.delete u (sm_sessions mgr)) v = Some b" by (intro exI[of _ v]) (simp add: delete_conv')
    qed
    moreover have "session_alive mgr a" unfolding alive_registered[OF ok assms(2)] using Some by blast
    ultimately show ?thesis using a o held by (intro that(2))
  qed
qed

lemma host_posted_inv:
  fixes h :: "('p, 'cl, 'w, 'am, 'os, 'i) ftp_host"
  assumes inv: "host_inv env ok n h" and t: "t \<in> set (sm_posted (fh_manager h))"
  shows "host_inv env ok n (manager_moved (posted_close closes (snd t)
      ((fh_manager h)\<lparr>sm_posted := remove1 t (sm_posted (fh_manager h))\<rparr>)) h)"
proof -
  let ?m = "fh_manager h"
  define m' where "m' = posted_close closes (snd t) (?m\<lparr>sm_posted := remove1 t (sm_posted ?m)\<rparr>)"
  have m: "manager_reach n ?m" "sm_held ?m = []" "length (fh_conns h) = length (sm_objects ?m)"
    using inv by (simp_all add: host_inv_def)
  have r: "manager_reach n m'" unfolding m'_def by (rule manager_next[OF m(1) step_posted[OF t]])
  from posted_close_object[OF m(1,2) m'_def r] have "host_inv env ok n (manager_moved m' h)"
  proof cases
    case 1
    have "refresh m' b x = refresh ?m b x" for b and x :: "('p, 'cl, 'w, 'am, 'os) ftp" using 1 by (simp add: refresh_def)
    then show ?thesis using 1(1) by (intro manager_moved_inv[OF inv r 1(3)]) simp_all
  next
    case (2 a)
    show ?thesis
    proof (rule manager_moved_inv[OF inv r 2(5)])
      show "length (sm_objects m') = length (sm_objects ?m)" using 2(3) by simp
      fix b x
      assume x: "refresh ?m b x = x"
      show "refresh m' b x = x \<or> manager_event x (refresh m' b x)"
      proof (cases "b = a")
        case True
        let ?c = "\<not> ses_closed (fx_ses x) \<and> closes"
        have "refresh m' b x = (if ?c then x\<lparr>fx_ses := session_close (fx_ses x), fx_socket_open := False\<rparr> else x)\<lparr>fx_expired := True\<rparr>"
          using x True 2(1,3,4) unfolding refresh_id by (cases x) (auto simp: refresh_def close_object_def)
        then show ?thesis using event_close[of x ?c] by simp
      next
        case False
        then have "refresh m' b x = refresh ?m b x" using 2(3,4) by (simp add: refresh_def)
        then show ?thesis using x by simp
      qed
    qed
  qed
  then show ?thesis by (simp add: m'_def)
qed

section \<open>The host as a whole\<close>

lemma host_step_inv:
  assumes "host_inv env ok n h" and "mount_provider (e_auth env) ok" and "host_step env h h'"
  shows "host_inv env ok n h'"
  using assms(3)
  by cases (use assms(1,2) in \<open>auto intro: host_connect_inv host_moved_inv host_timer_inv host_posted_inv\<close>)

lemma host_outside_inv:
  assumes "host_inv env ok n h" and "ok am"
  shows "host_inv env ok n (h\<lparr>fh_am := am, fh_disk := w, fh_os := os\<rparr>)"
proof -
  have "conn_ok env ok (h\<lparr>fh_am := am, fh_disk := w, fh_os := os\<rparr>) a" if "a < length (fh_conns h)" for a
  proof (rule conn_ok_shared[where am = am and w = w and os = os])
    show "conn_ok env ok h a" using assms(1) that by (simp add: host_inv_def)
  qed (simp_all add: assms(2) view_def ctl_map_twice)
  then show ?thesis using assms by (simp add: host_inv_def)
qed

lemma host_reach_inv:
  assumes "host_reach env ok n h" and "mount_provider (e_auth env) ok"
  shows "host_inv env ok n h"
  using assms(1)
proof induction
  case (host_start am w os)
  then show ?case by (simp add: host_inv_def host_new_def session_manager_new_def manager_start[unfolded session_manager_new_def])
qed (simp_all add: host_step_inv[OF _ assms(2)] host_outside_inv)

text \<open>C7: the connections of a host. In every state that is reached by accepting connections, by steps
  of their coroutines and tasks in any order, by timers and posted tasks of the session manager and by
  what happens on the machine, the session manager is in a state that its own steps reach, and every
  connection is in one that its control coroutine can reach, with the disk and the users as they are
  now. Its session is the object of the session manager, and counts as expired exactly when the
  manager no longer finds its uuid.\<close>
theorem host_composes:
  assumes "host_reach env ok n h" and "mount_provider (e_auth env) ok" and "a < length (fh_conns h)"
    and "view h a = (pc, inp, segs, x)" and "m = sm_objects (fh_manager h) ! a"
  shows "manager_reach n (fh_manager h) \<and> control_reach env ok (pc, inp, segs, x)
    \<and> fx_ses x = mg_ses m \<and> fx_socket_open x = mg_socket_open m
    \<and> get_session (mg_uuid m) (fh_manager h) = (if fx_expired x then Inl ExceptionNotFound else Inr a)"
proof -
  let ?m = "fh_manager h"
  have inv: "host_inv env ok n h" by (rule host_reach_inv[OF assms(1,2)])
  then have m: "manager_reach n ?m" "sm_held ?m = []" "length (fh_conns h) = length (sm_objects ?m)" "conn_ok env ok h a"
    using assms(3) by (simp_all add: host_inv_def)
  have ok: "manager_ok ?m" using reach_ok[OF m(1)] by simp
  have x: "control_reach env ok (pc, inp, segs, x)" "refresh ?m a x = x" using m(4) assms(4) by (simp_all add: conn_ok_def)
  have f: "mg_ses (sm_objects ?m ! a) = fx_ses x" "mg_socket_open (sm_objects ?m ! a) = fx_socket_open x"
    "fx_expired x = (\<not> session_alive ?m a)" using x(2) unfolding refresh_id by simp_all
  have reg: "registered_ok ?m" using ok by (simp add: manager_ok_def)
  have "get_session (mg_uuid m) ?m = (if session_alive ?m a then Inr a else Inl ExceptionNotFound)"
  proof (cases "map_of (sm_sessions ?m) (mg_uuid m)")
    case None
    then have "\<not> session_alive ?m a" unfolding alive_registered[OF ok m(2)] assms(5)
      using registered_uuid[OF ok] by fastforce
    then show ?thesis using None by (simp add: get_session_ok[OF ok])
  next
    case (Some b)
    from reg Some have b: "b < length (sm_objects ?m)" "mg_uuid (sm_objects ?m ! b) = mg_uuid m" by (rule registeredE, simp)+
    have "distinct (map mg_uuid (sm_objects ?m))" using reg by (simp add: registered_ok_def)
    then have "b = a" using b assms(3,5) m(3) by (simp add: distinct_conv_nth) metis
    moreover have "session_alive ?m b" unfolding alive_registered[OF ok m(2)] using Some by blast
    ultimately show ?thesis using Some by (simp add: get_session_ok[OF ok])
  qed
  then show ?thesis using m(1) x(1) f assms(5) by auto
qed
section \<open>Who changes the disk\<close>

lemma control_own_step:
  assumes "control_own env (pc, inp, segs, x) (pc', inp', segs', y)" and "fx_closed x \<longleftrightarrow> pc = Ctl_done"
  shows "ftp_step env x y \<or> y = x"
  using assms by cases (auto intro: step_request step_end step_too_big step_task)

text \<open>C3: on a host, nobody changes the disk without having logged on. When a step of the host, whatever
  connections it has and whatever they are doing, changes the disk, then it is a step of a
  connection whose session has a client that the authentication manager has accepted.\<close>
theorem host_disk_needs_login:
  assumes "host_reach env ok n h" and "mount_provider (e_auth env) ok" and "host_step env h h'"
    and "fh_disk h' \<noteq> fh_disk h"
  shows "\<exists>a client. a < length (fh_conns h) \<and> ses_client (fx_ses (ctl_ftp (view h a))) = Some client
    \<and> client_accepted (e_auth env) ok client"
  using assms(3)
proof cases
  case (host_moves a c closes)
  obtain pc inp segs x where v: "view h a = (pc, inp, segs, x)" by (metis prod.exhaust)
  obtain pc' inp' segs' y where c: "c = (pc', inp', segs', y)" by (metis prod.exhaust)
  have "host_inv env ok n h" by (rule host_reach_inv[OF assms(1,2)])
  then have "conn_ok env ok h a" using host_moves(2) by (simp add: host_inv_def)
  then have "control_reach env ok (pc, inp, segs, x)" using v by (simp add: conn_ok_def)
  then have x: "ftp_reach env ok x" "fx_closed x \<longleftrightarrow> pc = Ctl_done" using control_reach_inv[of env ok "(pc, inp, segs, x)"]
    by (simp_all add: control_inv_def)
  have "fx_disk x = fh_disk h" using v by (auto simp: view_def ctl_map_def split: prod.splits)
  moreover have "fh_disk h' = fx_disk y" by (simp add: host_moves(1) c host_moved_def put_def Let_def)
  ultimately have "fx_disk y \<noteq> fx_disk x" using assms(4) by simp
  then have "ftp_step env x y" using control_own_step[OF _ x(2)] host_moves(3) v c by metis
  from step_disk_client[OF x(1) assms(2) this \<open>fx_disk y \<noteq> fx_disk x\<close>] host_moves(2) v show ?thesis by auto
next
  case (host_accepts sp u perms buffer garbage segs)
  then have "fh_disk h' = fh_disk h"
    by (simp add: host_connect_def put_def Let_def handle_connection_def ftp_new_def split: prod.split)
  then show ?thesis using assms(4) by simp
qed (use assms(4) in \<open>simp_all add: manager_moved_def\<close>)

section \<open>A host for the witnesses\<close>

text \<open>A connection serves a line.\<close>

lemma host_serves:
  fixes h :: "('p, 'cl, 'w, 'am, 'os, 'i) ftp_host"
  assumes "host_reach env ok n h" and "a < length (fh_conns h)" and "view h a = (Ctl_test, inp, pre @ post, x)"
    and "ftp_alive x" and "input_ok inp" and "in_hand inp @ concat pre = wire (l # ls)" and "no_eol l" and "[] \<notin> set pre"
    and "pre = [] \<or> length (in_hand inp @ concat (butlast pre)) \<le> length l" and "length (wire (l # ls)) \<le> input_cap"
  shows "\<exists>(h' :: ('p, 'cl, 'w, 'am, 'os, 'i) ftp_host) inp'. host_reach env ok n h' \<and> a < length (fh_conns h') \<and> input_ok inp' \<and> in_hand inp' = wire ls
    \<and> view h' a = (Ctl_test, inp', post, process_request env l x)"
proof -
  obtain inp' where i: "input_ok inp'" "in_hand inp' = wire ls" "fetch_next_command inp (pre @ post) = (Request l, inp', post)"
    by (rule fetch_wire[OF assms(5-10)])
  let ?c1 = "(Ctl_fetch, inp, pre @ post, x)" and ?c2 = "(Ctl_test, inp', post, process_request env l x)"
  have e: "fx_expired x = False" "fx_hung x = False" using assms(4) by (simp_all add: ftp_alive_def)
  have p: "fx_expired (process_request env l x) = False" using process_request_marks[of env l x] e by (simp add: marks_def)
  let ?h1 = "host_moved False a ?c1 h"
  have "control_own env (view h a) ?c1" unfolding assms(3) by (rule ctl_goes_on[OF assms(4)])
  from host_next[OF assms(1) host_moves[OF assms(2) this]] have r1: "host_reach env ok n ?h1" .
  have h1: "view ?h1 a = ?c1" "length (fh_conns ?h1) = length (fh_conns h)"
    using assms(2) e by (simp_all add: host_moved_def view_put)
  let ?h2 = "host_moved False a ?c2 ?h1"
  have "control_own env (view ?h1 a) ?c2" unfolding h1(1) by (rule ctl_request) (use e i in simp_all)
  from host_next[OF r1 host_moves[OF _ this]] have r2: "host_reach env ok n ?h2" using assms(2) h1(2) by simp
  have "view ?h2 a = ?c2" "length (fh_conns ?h2) = length (fh_conns h)"
    using assms(2) p h1 by (simp_all add: host_moved_def[of _ _ ?c2] view_put)
  then show ?thesis using r2 i assms(2) by (intro exI[of _ ?h2] exI[of _ inp']) simp
qed

definition demo_lines :: "string list" where
  "demo_lines = [''USER bob'', ''PASS pw'', ''RNFR a'', ''RNTO c'']"

definition demo_host :: "(demo_path, nat, demo_disk, demo_path auth_manager, int, nat) ftp_host" where
  "demo_host = host_connect demo_env 0 (replicate input_cap nul) [wire demo_lines] demo_params [] 7
     (host_new 2 bob_auth bob_disk 0)"

lemma demo_host_reach: "host_reach demo_env am_served 2 demo_host"
  unfolding demo_host_def
  by (rule host_next[OF host_start[of am_served bob_auth]])
     (auto intro!: host_accepts simp: bob_served host_new_def session_manager_new_def demo_params_def mounts_ok_def)

lemma demo_host_view:
  "view demo_host 0 = (Ctl_test, demo_input, [wire demo_lines], demo_connected)" "length (fh_conns demo_host) = 1"
  by (simp_all add: demo_host_def host_connect_def create_session_def Let_def view_put demo_input_def demo_connected_def
      host_new_def session_manager_new_def demo_params_def)

theorem host_composes_witness: "get_session 7 (fh_manager demo_host) = Inr 0"
proof -
  have *: "mg_uuid (sm_objects (fh_manager demo_host) ! 0) = 7"
    by (simp add: demo_host_def host_connect_def create_session_def Let_def put_def with_session_def host_new_def
        session_manager_new_def attach_session_def)
  have "\<not> fx_expired demo_connected" unfolding demo_connected_def by (rule handle_connection_open)
  then show ?thesis
    using host_composes[OF demo_host_reach demo_provider _ demo_host_view(1) refl] demo_host_view(2) * by simp
qed
text \<open>The connection of \<open>demo_host\<close> after its first three lines.\<close>

lemma demo_host_served:
  "\<exists>(h :: (demo_path, nat, demo_disk, demo_path auth_manager, int, nat) ftp_host) inp. host_reach demo_env am_served 2 h
     \<and> 0 < length (fh_conns h) \<and> input_ok inp \<and> in_hand inp = wire [''RNTO c'']
     \<and> view h 0 = (Ctl_test, inp, [], after_requests [''USER bob'', ''PASS pw'', ''RNFR a''])"
proof -
  let ?x1 = "after_requests [''USER bob'']" and ?x2 = "after_requests [''USER bob'', ''PASS pw'']"
  have alive: "ftp_alive demo_connected \<and> ftp_alive ?x1 \<and> ftp_alive ?x2" by code_simp
  have fits: "length (wire demo_lines) \<le> input_cap" by (simp add: demo_lines_def input_cap_def)
  have 1: "view demo_host 0 = (Ctl_test, demo_input, [wire demo_lines] @ [], demo_connected)" by (simp add: demo_host_view)
  have w: "in_hand demo_input @ concat [wire demo_lines] = wire (''USER bob'' # [''PASS pw'', ''RNFR a'', ''RNTO c''])"
    "length (wire (''USER bob'' # [''PASS pw'', ''RNFR a'', ''RNTO c''])) \<le> input_cap" "[] \<notin> set [wire demo_lines]"
    using fits by (simp_all add: demo_input_in_hand demo_lines_def)
  from host_serves[OF demo_host_reach _ 1 conjunct1[OF alive] demo_input_ok w(1) _ w(3) _ w(2)]
  obtain h1 :: "(demo_path, nat, demo_disk, demo_path auth_manager, int, nat) ftp_host" and i1 where
    h1: "host_reach demo_env am_served 2 h1" "0 < length (fh_conns h1)" "input_ok i1"
    "in_hand i1 = wire [''PASS pw'', ''RNFR a'', ''RNTO c'']"
    and v1: "view h1 0 = (Ctl_test, i1, [] @ [], ?x1)"
    using demo_host_view(2) by (auto simp: demo_input_in_hand after_requests_def)
  from host_serves[OF h1(1,2) v1 _ h1(3), of "''PASS pw''" "[''RNFR a'', ''RNTO c'']"]
  obtain h2 :: "(demo_path, nat, demo_disk, demo_path auth_manager, int, nat) ftp_host" and i2 where
    h2: "host_reach demo_env am_served 2 h2" "0 < length (fh_conns h2)" "input_ok i2"
    "in_hand i2 = wire [''RNFR a'', ''RNTO c'']"
    and v2: "view h2 0 = (Ctl_test, i2, [] @ [], ?x2)"
    using alive h1(4) by (auto simp: after_requests_def input_cap_def)
  from host_serves[OF h2(1,2) v2 _ h2(3), of "''RNFR a''" "[''RNTO c'']"] show ?thesis
    using alive h2(4) by (auto simp: after_requests_def input_cap_def)
qed

theorem host_disk_needs_login_witness:
  "\<exists>(h :: (demo_path, nat, demo_disk, demo_path auth_manager, int, nat) ftp_host) a client. host_reach demo_env am_served 2 h
     \<and> ses_client (fx_ses (ctl_ftp (view h a))) = Some client \<and> client_accepted (e_auth demo_env) am_served client"
proof -
  let ?x = "after_requests [''USER bob'', ''PASS pw'', ''RNFR a'']" and ?l = "''RNTO c''"
  have *: "ftp_alive ?x \<and> fx_disk (process_request demo_env ?l ?x) \<noteq> fx_disk ?x" by code_simp
  obtain h :: "(demo_path, nat, demo_disk, demo_path auth_manager, int, nat) ftp_host" and inp where
    h: "host_reach demo_env am_served 2 h" "0 < length (fh_conns h)" "input_ok inp" "in_hand inp = wire [''RNTO c'']"
    "view h 0 = (Ctl_test, inp, [], ?x)"
    using demo_host_served by blast
  let ?h1 = "host_moved False 0 (Ctl_fetch, inp, [], ?x) h"
  have own: "control_own demo_env (view h 0) (Ctl_fetch, inp, [], ?x)"
    unfolding h(5) by (rule ctl_goes_on[OF conjunct1[OF *]])
  have r1: "host_reach demo_env am_served 2 ?h1" by (rule host_next[OF h(1) host_moves[OF h(2) own]])
  have e: "fx_expired ?x = False" "fx_hung ?x = False" using * by (simp_all add: ftp_alive_def)
  have v1: "view ?h1 0 = (Ctl_fetch, inp, [], ?x)" "0 < length (fh_conns ?h1)" "fh_disk ?h1 = fx_disk ?x"
    using h(2) e by (simp_all add: host_moved_def view_put, simp add: put_def)
  obtain inp' where f: "fetch_next_command inp ([] @ []) = (Request ?l, inp', [])"
    by (rule fetch_wire[of inp "[]" ?l "[]" "[]"]) (use h(3,4) in \<open>auto simp: input_cap_def\<close>)
  let ?h2 = "host_moved False 0 (Ctl_test, inp', [], process_request demo_env ?l ?x) ?h1"
  have step: "host_step demo_env ?h1 ?h2"
    by (rule host_moves[OF v1(2)], unfold v1(1), rule ctl_request) (use e f in simp_all)
  have "fh_disk ?h2 = fx_disk (process_request demo_env ?l ?x)" by (simp add: host_moved_def[of _ _ "(Ctl_test, _)"] put_def Let_def)
  then have "fh_disk ?h2 \<noteq> fh_disk ?h1" using * v1(3) by simp
  from host_disk_needs_login[OF r1 demo_provider step this] r1 show ?thesis by blast
qed

end
