(* ===== verification/WfdeEntities.thy ===== *)
theory WfdeEntities
  imports AuthManager
begin

text \<open>
  The tree of servers, hosts, protocols and interfaces: \<open>src/wfde/WfdeEntity.h\<close>, \<open>WfdeServer\<close>,
  \<open>WfdeHost\<close>, \<open>WfdeProtocol\<close> and \<open>WfdeInterface\<close> (\<open>.h\<close> and \<open>.cpp\<close>). The entities are the entries of a list,
  the address of an entity is its index; they live as long as the daemon. \<open>'e\<close> is an endpoint, \<open>'i\<close> a
  uuid, \<open>'sm\<close> the state of a session manager, \<open>'am\<close> that of an authentication manager. Names are
  resolved, patterns matched and sockets opened outside, as is \<open>WarMapAddUnique\<close>; mutexes and logging
  are left out.
\<close>

section \<open>State\<close>

datatype entity_type = SERVER | HOST | PROTOCOL | INTERFACE

record ('sm, 'am) host_data =
  ho_long_name :: string
  ho_protocols :: "nat list"
  ho_session_manager :: 'sm
  ho_auth_manager :: 'am

record protocol_data =
  pr_interfaces :: "nat list"
  pr_running :: bool

text \<open>An acceptor that does not exist yet is \<open>None\<close>, else it is open or not.\<close>

record 'e interface_data =
  if_endpoint :: 'e
  if_acceptor :: "bool option"
  if_on_connected :: "nat option"
  if_tls_cert :: string

datatype ('e, 'sm, 'am) entity_data =
    Server_data (sv_hosts: "(string \<times> nat) list")
  | Host_data "('sm, 'am) host_data"
  | Protocol_data protocol_data
  | Interface_data "'e interface_data"

record ('p, 'c, 'i, 'e, 'sm, 'am) entity =
  en_id :: 'i
  en_name :: string
  en_conf :: "'c sub_config"
  en_parent :: "nat option"
  en_permissions :: "'p paths option"
  en_data :: "('e, 'sm, 'am) entity_data"

type_synonym ('p, 'c, 'i, 'e, 'sm, 'am) world = "('p, 'c, 'i, 'e, 'sm, 'am) entity list"

text \<open>
  What lies outside: the parser of uuids and a fresh uuid for every new entity, \<open>regex_match\<close>, the
  resolver (the addresses as text and the endpoints of a name and a port), the opening of an acceptor
  (an exception, and whether it is open then) and \<open>WarMapAddUnique\<close>.
\<close>

record ('c, 'i, 'e, 'sm) server_env =
  se_conf :: "'c config_ops"
  se_uuid :: "string \<Rightarrow> exn + 'i"
  se_random :: "nat \<Rightarrow> 'i"
  se_matches :: "string \<Rightarrow> string \<Rightarrow> bool"
  se_resolve :: "string \<Rightarrow> string \<Rightarrow> exn + (string \<times> 'e) list"
  se_listen :: "'e \<Rightarrow> exn option \<times> bool"
  se_map_add :: "(string \<times> nat) list \<Rightarrow> string \<Rightarrow> nat \<Rightarrow> exn + (string \<times> nat) list"
  se_session_manager :: 'sm

definition en_type :: "('p, 'c, 'i, 'e, 'sm, 'am) entity \<Rightarrow> entity_type" where
  "en_type e =
     (case en_data e of
        Server_data h \<Rightarrow> SERVER | Host_data d \<Rightarrow> HOST | Protocol_data d \<Rightarrow> PROTOCOL | Interface_data d \<Rightarrow> INTERFACE)"

definition host_of :: "('p, 'c, 'i, 'e, 'sm, 'am) entity \<Rightarrow> ('sm, 'am) host_data option" where
  "host_of e = (case en_data e of Host_data d \<Rightarrow> Some d | _ \<Rightarrow> None)"

definition protocol_of :: "('p, 'c, 'i, 'e, 'sm, 'am) entity \<Rightarrow> protocol_data option" where
  "protocol_of e = (case en_data e of Protocol_data d \<Rightarrow> Some d | _ \<Rightarrow> None)"

definition interface_of :: "('p, 'c, 'i, 'e, 'sm, 'am) entity \<Rightarrow> 'e interface_data option" where
  "interface_of e = (case en_data e of Interface_data d \<Rightarrow> Some d | _ \<Rightarrow> None)"

section \<open>Entities\<close>

definition load_id :: "('c, 'i, 'e, 'sm) server_env \<Rightarrow> 'c sub_config \<Rightarrow> nat \<Rightarrow> exn + 'i" where
  "load_id env conf a =
     (let i = sub_get_value (se_conf env) conf ''/Id'' (Some [])
      in if i = [] then Inr (se_random env a) else se_uuid env i)"

definition entity_new ::
    "('c, 'i, 'e, 'sm) server_env \<Rightarrow> nat option \<Rightarrow> 'c sub_config \<Rightarrow> ('e, 'sm, 'am) entity_data \<Rightarrow>
     ('p, 'c, 'i, 'e, 'sm, 'am) world \<Rightarrow> exn + nat \<times> ('p, 'c, 'i, 'e, 'sm, 'am) world" where
  "entity_new env parent conf data w =
     bindE (load_id env conf (length w)) (\<lambda>i.
       Inr (length w, w @ [\<lparr>en_id = i, en_name = sub_get_value (se_conf env) conf ''/Name'' (Some ''Default''),
                            en_conf = conf, en_parent = parent, en_permissions = None, en_data = data\<rparr>]))"

definition have_parent :: "('p, 'c, 'i, 'e, 'sm, 'am) entity \<Rightarrow> bool" where
  "have_parent e \<longleftrightarrow> en_parent e \<noteq> None"

text \<open>\<open>SetParent\<close>; the cast fails for a parent of the wrong type.\<close>

fun parent_type :: "entity_type \<Rightarrow> entity_type option" where
  "parent_type SERVER = None"
| "parent_type HOST = Some SERVER"
| "parent_type PROTOCOL = Some HOST"
| "parent_type INTERFACE = Some PROTOCOL"

definition set_parent ::
    "nat \<Rightarrow> nat \<Rightarrow> ('p, 'c, 'i, 'e, 'sm, 'am) world \<Rightarrow> exn + ('p, 'c, 'i, 'e, 'sm, 'am) world" where
  "set_parent a p w =
     (if have_parent (w ! a) then Inl ExceptionAlreadyExist
      else if parent_type (en_type (w ! a)) \<notin> {None, Some (en_type (w ! p))} then Inl ExceptionLibrary
      else Inr (w[a := (w ! a)\<lparr>en_parent := Some p\<rparr>]))"

definition set_permissions ::
    "nat \<Rightarrow> 'p paths option \<Rightarrow> ('p, 'c, 'i, 'e, 'sm, 'am) world \<Rightarrow> ('p, 'c, 'i, 'e, 'sm, 'am) world" where
  "set_permissions a perms w = w[a := (w ! a)\<lparr>en_permissions := perms\<rparr>]"

text \<open>
  \<open>GetEffectivePermissions\<close>. The loop goes on while \<open>parent\<close> has a parent, and steps from \<open>parent\<close> to the
  parent of \<open>parent_\<close>, the parent of the entity itself (\<open>first\<close>). \<open>None\<close> is a call that does not return.
\<close>

partial_function (option) merge_parents ::
    "('p, 'c, 'i, 'e, 'sm, 'am) world \<Rightarrow> nat \<Rightarrow> nat \<Rightarrow> 'p paths \<Rightarrow> 'p paths option" where
  "merge_parents w first parent rval =
     (if have_parent (w ! parent)
      then merge_parents w first (the (en_parent (w ! first)))
             (case en_permissions (w ! parent) of Some pperms \<Rightarrow> permissions_merge rval pperms | None \<Rightarrow> rval)
      else Some rval)"

partial_function (option) effective_permissions ::
    "('p, 'c, 'i, 'e, 'sm, 'am) world \<Rightarrow> nat \<Rightarrow> (exn + 'p paths) option" where
  "effective_permissions w a =
     (case en_permissions (w ! a) of
        None \<Rightarrow>
          (case en_parent (w ! a) of
             Some p \<Rightarrow> effective_permissions w p
           | None \<Rightarrow> Some (Inl ExceptionMissingInternalObject))
      | Some perms \<Rightarrow>
          (case en_parent (w ! a) of
             Some p \<Rightarrow> map_option Inr (merge_parents w p p (permissions_copy perms))
           | None \<Rightarrow> Some (Inr (permissions_copy perms))))"

declare merge_parents.simps [code] effective_permissions.simps [code]

text \<open>\<open>GetMyChildren\<close> over the map of a server and over the list of a host or protocol.\<close>

definition my_named_children :: "('c, 'i, 'e, 'sm) server_env \<Rightarrow> string \<Rightarrow> (string \<times> nat) list \<Rightarrow> nat list" where
  "my_named_children env pat children = map snd (filter (\<lambda>c. se_matches env pat (fst c)) children)"

definition my_children ::
    "('c, 'i, 'e, 'sm) server_env \<Rightarrow> ('p, 'c, 'i, 'e, 'sm, 'am) world \<Rightarrow> string \<Rightarrow> nat list \<Rightarrow> nat list" where
  "my_children env w pat children = filter (\<lambda>c. se_matches env pat (en_name (w ! c))) children"

definition get_hosts :: "('c, 'i, 'e, 'sm) server_env \<Rightarrow> ('p, 'c, 'i, 'e, 'sm, 'am) world \<Rightarrow> nat \<Rightarrow> nat list" where
  "get_hosts env w s =
     (case en_data (w ! s) of Server_data hosts \<Rightarrow> my_named_children env ''.*'' hosts | _ \<Rightarrow> [])"

definition get_protocols :: "('c, 'i, 'e, 'sm) server_env \<Rightarrow> ('p, 'c, 'i, 'e, 'sm, 'am) world \<Rightarrow> nat \<Rightarrow> nat list" where
  "get_protocols env w h =
     (case host_of (w ! h) of Some d \<Rightarrow> my_children env w ''.*'' (ho_protocols d) | None \<Rightarrow> [])"

definition get_interfaces :: "('c, 'i, 'e, 'sm) server_env \<Rightarrow> ('p, 'c, 'i, 'e, 'sm, 'am) world \<Rightarrow> nat \<Rightarrow> nat list" where
  "get_interfaces env w p =
     (case protocol_of (w ! p) of Some d \<Rightarrow> my_children env w ''.*'' (pr_interfaces d) | None \<Rightarrow> [])"
section \<open>Building the tree\<close>

definition create_server ::
    "('c, 'i, 'e, 'sm) server_env \<Rightarrow> 'c sub_config \<Rightarrow> ('p, 'c, 'i, 'e, 'sm, 'am) world \<Rightarrow>
     exn + nat \<times> ('p, 'c, 'i, 'e, 'sm, 'am) world" where
  "create_server env conf w = entity_new env None conf (Server_data []) w"

definition set_hosts ::
    "nat \<Rightarrow> (string \<times> nat) list \<Rightarrow> ('p, 'c, 'i, 'e, 'sm, 'am) world \<Rightarrow> ('p, 'c, 'i, 'e, 'sm, 'am) world" where
  "set_hosts s hosts w = w[s := (w ! s)\<lparr>en_data := Server_data hosts\<rparr>]"

text \<open>\<open>WfdeServer::AddHost\<close>; when the parent cannot be set, the transaction erases the host again.\<close>

definition add_host ::
    "('c, 'i, 'e, 'sm) server_env \<Rightarrow> nat \<Rightarrow> nat \<Rightarrow> ('p, 'c, 'i, 'e, 'sm, 'am) world \<Rightarrow>
     (exn + unit) \<times> ('p, 'c, 'i, 'e, 'sm, 'am) world" where
  "add_host env s h w =
     (case se_map_add env (sv_hosts (en_data (w ! s))) (en_name (w ! h)) h of
        Inl e \<Rightarrow> (Inl e, w)
      | Inr hosts \<Rightarrow>
          let w = set_hosts s hosts w
          in (case set_parent h s w of
                Inl e \<Rightarrow> (Inl e, set_hosts s (filter (\<lambda>c. fst c \<noteq> en_name (w ! h)) hosts) w)
              | Inr w \<Rightarrow> (Inr (), w)))"

definition default_host_long_name :: string where
  "default_host_long_name = ''Jgaa'' @ [CHR 0x27] @ ''s Fan Club FTP Server''"

definition create_host ::
    "('c, 'i, 'e, 'sm) server_env \<Rightarrow> nat \<Rightarrow> 'am \<Rightarrow> 'c sub_config \<Rightarrow> ('p, 'c, 'i, 'e, 'sm, 'am) world \<Rightarrow>
     exn + nat \<times> ('p, 'c, 'i, 'e, 'sm, 'am) world" where
  "create_host env s am conf w =
     bindE (entity_new env None conf
              (Host_data \<lparr>ho_long_name = sub_get_value (se_conf env) conf ''/LongName'' (Some default_host_long_name),
                          ho_protocols = [], ho_session_manager = se_session_manager env, ho_auth_manager = am\<rparr>) w)
       (\<lambda>(h, w). case add_host env s h w of (Inl e, w) \<Rightarrow> Inl e | (Inr u, w) \<Rightarrow> Inr (h, w))"

definition add_protocol ::
    "nat \<Rightarrow> nat \<Rightarrow> ('p, 'c, 'i, 'e, 'sm, 'am) world \<Rightarrow> ('p, 'c, 'i, 'e, 'sm, 'am) world" where
  "add_protocol h p w =
     (case host_of (w ! h) of
        Some d \<Rightarrow> w[h := (w ! h)\<lparr>en_data := Host_data (d\<lparr>ho_protocols := ho_protocols d @ [p]\<rparr>)\<rparr>]
      | None \<Rightarrow> w)"

text \<open>
  The factories by the names of their protocols. The one factory of the program is that of FTP, which
  makes a \<open>WfdeProtocolFtp\<close>.
\<close>

definition ftp_factory :: nat where "ftp_factory = 0"

definition register_protocol_factory ::
    "('c, 'i, 'e, 'sm) server_env \<Rightarrow> string \<Rightarrow> nat \<Rightarrow> (string \<times> nat) list \<Rightarrow> exn + (string \<times> nat) list" where
  "register_protocol_factory env name factory factories = se_map_add env factories name factory"

definition register_default_protocols ::
    "('c, 'i, 'e, 'sm) server_env \<Rightarrow> (string \<times> nat) list \<Rightarrow> exn + (string \<times> nat) list" where
  "register_default_protocols env = register_protocol_factory env ''FTP'' ftp_factory"

definition get_factory :: "(string \<times> nat) list \<Rightarrow> string \<Rightarrow> exn + nat" where
  "get_factory factories name =
     (case map_of factories name of None \<Rightarrow> Inl ExceptionNotFound | Some f \<Rightarrow> Inr f)"

definition create_protocol ::
    "('c, 'i, 'e, 'sm) server_env \<Rightarrow> (string \<times> nat) list \<Rightarrow> nat option \<Rightarrow> 'c sub_config \<Rightarrow>
     ('p, 'c, 'i, 'e, 'sm, 'am) world \<Rightarrow> exn + nat \<times> ('p, 'c, 'i, 'e, 'sm, 'am) world" where
  "create_protocol env factories parent conf w =
     bindE (get_factory factories (sub_get_value (se_conf env) conf ''/Name'' None)) (\<lambda>factory.
       bindE (entity_new env parent conf (Protocol_data \<lparr>pr_interfaces = [], pr_running = False\<rparr>) w) (\<lambda>(p, w).
         Inr (p, case parent of Some h \<Rightarrow> add_protocol h p w | None \<Rightarrow> w)))"

text \<open>\<open>CreateInterface\<close> does not use the name it is given.\<close>

definition create_interface ::
    "('c, 'i, 'e, 'sm) server_env \<Rightarrow> nat \<Rightarrow> string \<Rightarrow> 'e \<Rightarrow> 'c sub_config \<Rightarrow>
     ('p, 'c, 'i, 'e, 'sm, 'am) world \<Rightarrow> exn + nat \<times> ('p, 'c, 'i, 'e, 'sm, 'am) world" where
  "create_interface env parent name endpoint conf w =
     entity_new env (Some parent) conf
       (Interface_data \<lparr>if_endpoint = endpoint, if_acceptor = None, if_on_connected = None,
                        if_tls_cert = sub_get_value (se_conf env) conf ''TlsCert'' (Some [])\<rparr>) w"

definition push_interface ::
    "nat \<Rightarrow> nat \<Rightarrow> ('p, 'c, 'i, 'e, 'sm, 'am) world \<Rightarrow> ('p, 'c, 'i, 'e, 'sm, 'am) world" where
  "push_interface p i w =
     (case protocol_of (w ! p) of
        Some d \<Rightarrow> w[p := (w ! p)\<lparr>en_data := Protocol_data (d\<lparr>pr_interfaces := pr_interfaces d @ [i]\<rparr>)\<rparr>]
      | None \<Rightarrow> w)"

fun add_endpoints ::
    "('c, 'i, 'e, 'sm) server_env \<Rightarrow> nat \<Rightarrow> string \<Rightarrow> 'c sub_config \<Rightarrow> (string \<times> 'e) list \<Rightarrow>
     nat \<times> ('p, 'c, 'i, 'e, 'sm, 'am) world \<Rightarrow> exn + nat \<times> ('p, 'c, 'i, 'e, 'sm, 'am) world" where
  "add_endpoints env p if_name conf [] (n, w) = Inr (n, w)"
| "add_endpoints env p if_name conf ((address, ep) # endpoints) (n, w) =
     bindE (create_interface env p (if_name @ ''-'' @ address) ep conf w) (\<lambda>(i, w).
       add_endpoints env p if_name conf endpoints (Suc n, push_interface p i w))"

definition add_interface ::
    "('c, 'i, 'e, 'sm) server_env \<Rightarrow> nat \<Rightarrow> 'c sub_config \<Rightarrow> ('p, 'c, 'i, 'e, 'sm, 'am) world \<Rightarrow>
     exn + nat \<times> ('p, 'c, 'i, 'e, 'sm, 'am) world" where
  "add_interface env p conf w =
     (let if_name = sub_get_value (se_conf env) conf ''/Name'' None;
          if_ip = sub_get_value (se_conf env) conf ''/Ip'' None;
          if_port = sub_get_value (se_conf env) conf ''/Port'' None
      in bindE (se_resolve env if_ip if_port) (\<lambda>endpoints. add_endpoints env p if_name conf endpoints (0, w)))"

fun add_interfaces_loop ::
    "('c, 'i, 'e, 'sm) server_env \<Rightarrow> nat \<Rightarrow> string list \<Rightarrow>
     nat \<times> ('p, 'c, 'i, 'e, 'sm, 'am) world \<Rightarrow> exn + nat \<times> ('p, 'c, 'i, 'e, 'sm, 'am) world" where
  "add_interfaces_loop env p [] (n, w) = Inr (n, w)"
| "add_interfaces_loop env p (name # names) (n, w) =
     bindE (add_interface env p (sub_get_config_for_path (en_conf (w ! p)) (''/Interfaces'' @ ''/'' @ name)) w)
       (\<lambda>(k, w). add_interfaces_loop env p names (n + k, w))"

definition add_interfaces ::
    "('c, 'i, 'e, 'sm) server_env \<Rightarrow> nat \<Rightarrow> ('p, 'c, 'i, 'e, 'sm, 'am) world \<Rightarrow>
     exn + nat \<times> ('p, 'c, 'i, 'e, 'sm, 'am) world" where
  "add_interfaces env p w =
     add_interfaces_loop env p (sub_enum_nodes (se_conf env) (en_conf (w ! p)) ''/Interfaces'') (0, w)"

section \<open>Starting and stopping\<close>

text \<open>A loop over children that ends with the first exception.\<close>

fun for_each :: "(nat \<Rightarrow> 'st \<Rightarrow> (exn + unit) \<times> 'st) \<Rightarrow> nat list \<Rightarrow> 'st \<Rightarrow> (exn + unit) \<times> 'st" where
  "for_each f [] st = (Inr (), st)"
| "for_each f (a # as) st =
     (case f a st of (Inl e, st) \<Rightarrow> (Inl e, st) | (Inr u, st) \<Rightarrow> for_each f as st)"

definition update_interface ::
    "nat \<Rightarrow> ('e interface_data \<Rightarrow> 'e interface_data) \<Rightarrow> ('p, 'c, 'i, 'e, 'sm, 'am) world \<Rightarrow> ('p, 'c, 'i, 'e, 'sm, 'am) world" where
  "update_interface i f w =
     (case interface_of (w ! i) of
        Some d \<Rightarrow> w[i := (w ! i)\<lparr>en_data := Interface_data (f d)\<rparr>] | None \<Rightarrow> w)"

definition interface_start ::
    "('c, 'i, 'e, 'sm) server_env \<Rightarrow> nat \<Rightarrow> nat \<Rightarrow> ('p, 'c, 'i, 'e, 'sm, 'am) world \<Rightarrow>
     (exn + unit) \<times> ('p, 'c, 'i, 'e, 'sm, 'am) world" where
  "interface_start env on_connected i w =
     (case interface_of (w ! i) of
        None \<Rightarrow> (Inr (), w)
      | Some d \<Rightarrow>
          (case se_listen env (if_endpoint d) of
             (ex, is_open) \<Rightarrow>
               (case ex of None \<Rightarrow> Inr () | Some e \<Rightarrow> Inl e,
                update_interface i (\<lambda>d. d\<lparr>if_on_connected := Some on_connected, if_acceptor := Some is_open\<rparr>) w)))"

definition set_running ::
    "nat \<Rightarrow> bool \<Rightarrow> ('p, 'c, 'i, 'e, 'sm, 'am) world \<Rightarrow> ('p, 'c, 'i, 'e, 'sm, 'am) world" where
  "set_running p b w =
     (case protocol_of (w ! p) of
        Some d \<Rightarrow> w[p := (w ! p)\<lparr>en_data := Protocol_data (d\<lparr>pr_running := b\<rparr>)\<rparr>] | None \<Rightarrow> w)"

definition protocol_start ::
    "('c, 'i, 'e, 'sm) server_env \<Rightarrow> nat \<Rightarrow> ('p, 'c, 'i, 'e, 'sm, 'am) world \<Rightarrow>
     (exn + unit) \<times> ('p, 'c, 'i, 'e, 'sm, 'am) world" where
  "protocol_start env p w =
     (let w = set_running p True w in for_each (interface_start env p) (get_interfaces env w p) w)"

definition host_start ::
    "('c, 'i, 'e, 'sm) server_env \<Rightarrow> nat \<Rightarrow> ('p, 'c, 'i, 'e, 'sm, 'am) world \<Rightarrow>
     (exn + unit) \<times> ('p, 'c, 'i, 'e, 'sm, 'am) world" where
  "host_start env h w = for_each (protocol_start env) (get_protocols env w h) w"

definition server_start ::
    "('c, 'i, 'e, 'sm) server_env \<Rightarrow> nat \<Rightarrow> ('p, 'c, 'i, 'e, 'sm, 'am) world \<Rightarrow>
     (exn + unit) \<times> ('p, 'c, 'i, 'e, 'sm, 'am) world" where
  "server_start env s w = for_each (host_start env) (get_hosts env w s) w"

text \<open>\<open>WfdeInterface::Stop\<close> follows the pointer to the acceptor; \<open>None\<close> is the crash when there is none.\<close>

fun for_each_ptr :: "(nat \<Rightarrow> 'st \<Rightarrow> 'st option) \<Rightarrow> nat list \<Rightarrow> 'st \<Rightarrow> 'st option" where
  "for_each_ptr f [] st = Some st"
| "for_each_ptr f (a # as) st = Option.bind (f a st) (for_each_ptr f as)"

definition interface_stop ::
    "nat \<Rightarrow> ('p, 'c, 'i, 'e, 'sm, 'am) world \<Rightarrow> ('p, 'c, 'i, 'e, 'sm, 'am) world option" where
  "interface_stop i w =
     (case interface_of (w ! i) of
        None \<Rightarrow> Some w
      | Some d \<Rightarrow>
          (case if_acceptor d of
             None \<Rightarrow> None
           | Some is_open \<Rightarrow>
               Some (if is_open then update_interface i (\<lambda>d. d\<lparr>if_acceptor := Some False\<rparr>) w else w)))"

definition protocol_stop ::
    "('c, 'i, 'e, 'sm) server_env \<Rightarrow> nat \<Rightarrow> ('p, 'c, 'i, 'e, 'sm, 'am) world \<Rightarrow>
     ('p, 'c, 'i, 'e, 'sm, 'am) world option" where
  "protocol_stop env p w =
     (let w = set_running p False w in for_each_ptr interface_stop (get_interfaces env w p) w)"

definition host_stop ::
    "('c, 'i, 'e, 'sm) server_env \<Rightarrow> nat \<Rightarrow> ('p, 'c, 'i, 'e, 'sm, 'am) world \<Rightarrow>
     ('p, 'c, 'i, 'e, 'sm, 'am) world option" where
  "host_stop env h w = for_each_ptr (protocol_stop env) (get_protocols env w h) w"

definition server_stop ::
    "('c, 'i, 'e, 'sm) server_env \<Rightarrow> nat \<Rightarrow> ('p, 'c, 'i, 'e, 'sm, 'am) world \<Rightarrow>
     ('p, 'c, 'i, 'e, 'sm, 'am) world option" where
  "server_stop env s w = for_each_ptr (host_stop env) (get_hosts env w s) w"

text \<open>
  A connection that the acceptor of an interface takes: the handler to call, and whether the socket
  can be upgraded to TLS.
\<close>

definition interface_accept ::
    "nat \<Rightarrow> ('p, 'c, 'i, 'e, 'sm, 'am) world \<Rightarrow> (nat \<times> bool) option" where
  "interface_accept i w =
     (case interface_of (w ! i) of
        None \<Rightarrow> None
      | Some d \<Rightarrow>
          if if_acceptor d = Some True
          then map_option (\<lambda>p. (p, if_tls_cert d \<noteq> [])) (if_on_connected d) else None)"

text \<open>\<open>WfdeProtocol::OnConnected\<close>: the protocol handles the connection when it is running; exceptions are caught.\<close>

definition protocol_on_connected ::
    "(('p, 'c, 'i, 'e, 'sm, 'am) world \<Rightarrow> 'r \<times> ('p, 'c, 'i, 'e, 'sm, 'am) world) \<Rightarrow> nat \<Rightarrow>
     ('p, 'c, 'i, 'e, 'sm, 'am) world \<Rightarrow> 'r option \<times> ('p, 'c, 'i, 'e, 'sm, 'am) world" where
  "protocol_on_connected handle_connection p w =
     (case protocol_of (w ! p) of
        Some d \<Rightarrow> if pr_running d then map_prod Some id (handle_connection w) else (None, w)
      | None \<Rightarrow> (None, w))"
section \<open>The tree is well-formed\<close>

definition children_of :: "('p, 'c, 'i, 'e, 'sm, 'am) entity \<Rightarrow> nat list" where
  "children_of e =
     (case en_data e of
        Server_data hosts \<Rightarrow> map snd hosts | Host_data d \<Rightarrow> ho_protocols d
      | Protocol_data d \<Rightarrow> pr_interfaces d | Interface_data d \<Rightarrow> [])"

text \<open>
  Parents are of the right type, only servers (and hosts that were not added yet) have none, and
  children know their parent.
\<close>

definition parents_ok :: "('p, 'c, 'i, 'e, 'sm, 'am) world \<Rightarrow> bool" where
  "parents_ok w \<longleftrightarrow>
     (\<forall>a < length w. case en_parent (w ! a) of
        None \<Rightarrow> en_type (w ! a) \<in> {SERVER, HOST}
      | Some p \<Rightarrow> p < length w \<and> parent_type (en_type (w ! a)) = Some (en_type (w ! p)))"

definition children_ok :: "('p, 'c, 'i, 'e, 'sm, 'am) world \<Rightarrow> bool" where
  "children_ok w \<longleftrightarrow>
     (\<forall>a < length w. distinct (children_of (w ! a))
        \<and> (\<forall>c \<in> set (children_of (w ! a)). c < length w \<and> en_parent (w ! c) = Some a))"

section \<open>Effective permissions\<close>

lemma merge_parents_returns: "\<not> have_parent (w ! p) \<Longrightarrow> merge_parents w first p rval = Some rval"
  by (simp add: merge_parents.simps[of w first p])

lemma merge_parents_steps:
  "have_parent (w ! p) \<Longrightarrow> merge_parents w first p rval = merge_parents w first (the (en_parent (w ! first)))
     (case en_permissions (w ! p) of Some pperms \<Rightarrow> permissions_merge rval pperms | None \<Rightarrow> rval)"
  by (simp add: merge_parents.simps[of w first p])

text \<open>The loop never leaves a parent that has a parent itself.\<close>

lemma merge_parents_hangs:
  assumes "have_parent (w ! the (en_parent (w ! first)))"
  shows "merge_parents w first (the (en_parent (w ! first))) rval = None"
proof -
  have "have_parent (w ! the (en_parent (w ! first))) \<longrightarrow> p \<noteq> the (en_parent (w ! first))"
    if "merge_parents w first p r = Some y" for w :: "('a, 'b, 'c, 'd, 'e, 'f) world" and first p r y
    by (rule merge_parents.raw_induct[where P = "\<lambda>w first p r y.
          have_parent (w ! the (en_parent (w ! first))) \<longrightarrow> p \<noteq> the (en_parent (w ! first))", OF _ that])
       (fastforce split: if_splits)
  from this[of w first "the (en_parent (w ! first))" rval] assms show ?thesis
    by (cases "merge_parents w first (the (en_parent (w ! first))) rval") auto
qed

lemma parent_types:
  assumes "parents_ok w" and "a < length w" and "en_parent (w ! a) = Some p"
  shows "p < length w" and "parent_type (en_type (w ! a)) = Some (en_type (w ! p))"
  using assms by (auto simp: parents_ok_def)

lemma server_no_parent: "parents_ok w \<Longrightarrow> a < length w \<Longrightarrow> en_type (w ! a) = SERVER \<Longrightarrow> en_parent (w ! a) = None"
  using parent_types(2)[of w a] by (cases "en_parent (w ! a)") auto

lemma orphans: "parents_ok w \<Longrightarrow> a < length w \<Longrightarrow> en_parent (w ! a) = None \<Longrightarrow> en_type (w ! a) \<in> {SERVER, HOST}"
  by (auto simp: parents_ok_def)

text \<open>What an entity with permissions of its own answers.\<close>

definition merged_with ::
    "('p, 'c, 'i, 'e, 'sm, 'am) world \<Rightarrow> nat \<Rightarrow> 'p paths \<Rightarrow> 'p paths" where
  "merged_with w p perms = (case en_permissions (w ! p) of Some pperms \<Rightarrow> permissions_merge perms pperms | None \<Rightarrow> perms)"

lemma effective_own:
  assumes "en_permissions (w ! a) = Some perms"
  shows "effective_permissions w a =
    (case en_parent (w ! a) of
       None \<Rightarrow> Some (Inr (permissions_copy perms))
     | Some p \<Rightarrow>
         if \<not> have_parent (w ! p) then Some (Inr (permissions_copy perms))
         else if have_parent (w ! the (en_parent (w ! p))) then None
         else Some (Inr (merged_with w p (permissions_copy perms))))"
proof (cases "en_parent (w ! a)")
  case (Some p)
  have eff: "effective_permissions w a = map_option Inr (merge_parents w p p (permissions_copy perms))"
    using assms Some by (simp add: effective_permissions.simps[of w a])
  show ?thesis
  proof (cases "have_parent (w ! p)")
    case True
    from merge_parents_steps[OF this] have
      "effective_permissions w a = map_option Inr (merge_parents w p (the (en_parent (w ! p))) (merged_with w p (permissions_copy perms)))"
      by (simp add: eff merged_with_def)
    then show ?thesis using Some True
      by (cases "have_parent (w ! the (en_parent (w ! p)))") (simp_all add: merge_parents_returns merge_parents_hangs)
  qed (simp add: Some eff merge_parents_returns)
qed (use assms in \<open>simp add: effective_permissions.simps[of w a]\<close>)

lemma effective_inherited:
  assumes "en_permissions (w ! a) = None"
  shows "effective_permissions w a =
    (case en_parent (w ! a) of None \<Rightarrow> Some (Inl ExceptionMissingInternalObject) | Some p \<Rightarrow> effective_permissions w p)"
  using assms by (simp add: effective_permissions.simps[of w a])

lemma effective_server:
  assumes "parents_ok w" and "s < length w" and "en_type (w ! s) = SERVER"
  shows "effective_permissions w s = Some (case en_permissions (w ! s) of
      Some perms \<Rightarrow> Inr (permissions_copy perms) | None \<Rightarrow> Inl ExceptionMissingInternalObject)"
  using server_no_parent[OF assms]
  by (cases "en_permissions (w ! s)") (simp_all add: effective_own effective_inherited)

lemma effective_host:
  assumes "parents_ok w" and "h < length w" and "en_type (w ! h) = HOST"
  shows "effective_permissions w h = Some (case en_permissions (w ! h) of
      Some perms \<Rightarrow> Inr (permissions_copy perms)
    | None \<Rightarrow> (case Option.bind (en_parent (w ! h)) (\<lambda>s. en_permissions (w ! s)) of
                 Some perms \<Rightarrow> Inr (permissions_copy perms) | None \<Rightarrow> Inl ExceptionMissingInternalObject))"
proof (cases "en_parent (w ! h)")
  case None
  then show ?thesis by (cases "en_permissions (w ! h)") (simp_all add: effective_own effective_inherited)
next
  case (Some s)
  then have s: "s < length w" "en_type (w ! s) = SERVER" using parent_types[OF assms(1,2) Some] assms(3) by simp_all
  with Some server_no_parent[OF assms(1) s] show ?thesis
    by (cases "en_permissions (w ! h)")
       (simp_all add: effective_own effective_inherited effective_server[OF assms(1) s] have_parent_def)
qed

lemma protocol_has_host:
  assumes "parents_ok w" and "p < length w" and "en_type (w ! p) = PROTOCOL"
  obtains h where "en_parent (w ! p) = Some h" "h < length w" "en_type (w ! h) = HOST"
  using parent_types[OF assms(1,2)] orphans[OF assms(1,2)] assms(3) by (cases "en_parent (w ! p)") auto

text \<open>The permissions of a protocol. The effective permissions that a new session gets always come
  out: those of the protocol itself, in front of those of its host when the host belongs to a server;
  else those of the host, and else those of the server. The permissions of the server are never
  merged with the others, although the tree is documented to combine server, host and protocol.\<close>
lemma effective_protocol:
  assumes "parents_ok w" and "p < length w" and "en_type (w ! p) = PROTOCOL"
  shows "\<exists>h. en_parent (w ! p) = Some h \<and> effective_permissions w p = Some
    (case en_permissions (w ! p) of
       Some perms \<Rightarrow> Inr (if have_parent (w ! h) then merged_with w h (permissions_copy perms) else permissions_copy perms)
     | None \<Rightarrow> (case en_permissions (w ! h) of
         Some perms \<Rightarrow> Inr (permissions_copy perms)
       | None \<Rightarrow> (case Option.bind (en_parent (w ! h)) (\<lambda>s. en_permissions (w ! s)) of
           Some perms \<Rightarrow> Inr (permissions_copy perms) | None \<Rightarrow> Inl ExceptionMissingInternalObject)))"
proof -
  obtain h where h: "en_parent (w ! p) = Some h" "h < length w" "en_type (w ! h) = HOST"
    by (rule protocol_has_host[OF assms])
  have "\<not> have_parent (w ! s)" if "en_parent (w ! h) = Some s" for s
    using parent_types[OF assms(1) h(2) that] h(3) server_no_parent[OF assms(1)] by (simp add: have_parent_def)
  with h show ?thesis
    by (cases "en_permissions (w ! p)")
       (auto simp: effective_own effective_inherited effective_host[OF assms(1) h(2,3)] have_parent_def)
qed

text \<open>C22: when the computation of the effective permissions ends. In a well-formed tree it returns for
  every entity, except for an interface with permissions of its own below a host that belongs to a
  server: there the loop over the parents reads the same parent again and again and never ends.\<close>
theorem effective_permissions_returns:
  assumes "parents_ok w" and "a < length w"
  shows "effective_permissions w a = None \<longleftrightarrow>
    en_type (w ! a) = INTERFACE \<and> en_permissions (w ! a) \<noteq> None
    \<and> have_parent (w ! the (en_parent (w ! the (en_parent (w ! a)))))"
proof (cases "en_type (w ! a)")
  case INTERFACE
  obtain p where p: "en_parent (w ! a) = Some p" "p < length w" "en_type (w ! p) = PROTOCOL"
    using parent_types[OF assms] orphans[OF assms] INTERFACE by (cases "en_parent (w ! a)") auto
  obtain h where h: "en_parent (w ! p) = Some h" by (rule protocol_has_host[OF assms(1) p(2,3)])
  have "effective_permissions w p \<noteq> None" using effective_protocol[OF assms(1) p(2,3)] by auto
  then show ?thesis using INTERFACE p(1) h
    by (cases "en_permissions (w ! a)") (simp_all add: effective_own effective_inherited have_parent_def)
qed (use effective_server[OF assms] effective_host[OF assms] effective_protocol[OF assms] in auto)
section \<open>Starting and stopping: what stays, what changes\<close>

text \<open>The part of an entity that starting and stopping leave alone.\<close>

fun data_shape :: "('e, 'sm, 'am) entity_data \<Rightarrow> ('e, 'sm, 'am) entity_data" where
  "data_shape (Protocol_data d) = Protocol_data (d\<lparr>pr_running := False\<rparr>)"
| "data_shape (Interface_data d) = Interface_data (d\<lparr>if_acceptor := None, if_on_connected := None\<rparr>)"
| "data_shape d = d"

definition shape :: "('p, 'c, 'i, 'e, 'sm, 'am) entity \<Rightarrow> ('p, 'c, 'i, 'e, 'sm, 'am) entity" where
  "shape e = e\<lparr>en_data := data_shape (en_data e)\<rparr>"

definition entity_running :: "('p, 'c, 'i, 'e, 'sm, 'am) entity \<Rightarrow> bool" where
  "entity_running e \<longleftrightarrow> (case protocol_of e of Some d \<Rightarrow> pr_running d | None \<Rightarrow> False)"

definition entity_listening :: "('p, 'c, 'i, 'e, 'sm, 'am) entity \<Rightarrow> bool" where
  "entity_listening e \<longleftrightarrow> (case interface_of e of Some d \<Rightarrow> if_acceptor d = Some True | None \<Rightarrow> False)"

definition entity_bound :: "('p, 'c, 'i, 'e, 'sm, 'am) entity \<Rightarrow> bool" where
  "entity_bound e \<longleftrightarrow> (case interface_of e of Some d \<Rightarrow> if_acceptor d \<noteq> None | None \<Rightarrow> False)"

text \<open>An interface is up when it listens and hands connections to the protocol it belongs to.\<close>

definition entity_up :: "('p, 'c, 'i, 'e, 'sm, 'am) entity \<Rightarrow> bool" where
  "entity_up e \<longleftrightarrow> (case interface_of e of
     Some d \<Rightarrow> if_acceptor d = Some True \<and> if_on_connected d = en_parent e | None \<Rightarrow> False)"

text \<open>The order in which starting moves, and the one in which stopping moves.\<close>

definition same_tree :: "('p, 'c, 'i, 'e, 'sm, 'am) world \<Rightarrow> ('p, 'c, 'i, 'e, 'sm, 'am) world \<Rightarrow> bool" where
  "same_tree = list_all2 (\<lambda>e e'. shape e' = shape e)"

definition rises :: "('p, 'c, 'i, 'e, 'sm, 'am) world \<Rightarrow> ('p, 'c, 'i, 'e, 'sm, 'am) world \<Rightarrow> bool" where
  "rises = list_all2 (\<lambda>e e'. shape e' = shape e \<and> (entity_running e \<longrightarrow> entity_running e') \<and> (entity_up e \<longrightarrow> entity_up e'))"

definition falls :: "('p, 'c, 'i, 'e, 'sm, 'am) world \<Rightarrow> ('p, 'c, 'i, 'e, 'sm, 'am) world \<Rightarrow> bool" where
  "falls = list_all2 (\<lambda>e e'. shape e' = shape e \<and> (entity_running e' \<longrightarrow> entity_running e)
     \<and> (entity_listening e' \<longrightarrow> entity_listening e) \<and> (entity_bound e \<longrightarrow> entity_bound e'))"

lemma tree_refl: "same_tree w w" "rises w w" "falls w w"
  by (simp_all add: same_tree_def rises_def falls_def list_all2_refl)

lemma same_tree_trans: "same_tree w w' \<Longrightarrow> same_tree w' w'' \<Longrightarrow> same_tree w w''"
  unfolding same_tree_def by (rule list_all2_trans[rotated], assumption, assumption) auto

lemma rises_trans: "rises w w' \<Longrightarrow> rises w' w'' \<Longrightarrow> rises w w''"
  unfolding rises_def by (rule list_all2_trans[rotated], assumption, assumption) auto

lemma falls_trans: "falls w w' \<Longrightarrow> falls w' w'' \<Longrightarrow> falls w w''"
  unfolding falls_def by (rule list_all2_trans[rotated], assumption, assumption) auto

lemma rises_same_tree: "rises w w' \<Longrightarrow> same_tree w w'" and falls_same_tree: "falls w w' \<Longrightarrow> same_tree w w'"
  unfolding rises_def falls_def same_tree_def by (auto elim: list_all2_mono)

lemma same_tree_length: "same_tree w w' \<Longrightarrow> length w' = length w"
  unfolding same_tree_def by (drule list_all2_lengthD) simp

lemma same_tree_nth: "same_tree w w' \<Longrightarrow> a < length w \<Longrightarrow> shape (w' ! a) = shape (w ! a)"
  unfolding same_tree_def by (rule list_all2_nthD)

lemma rises_nth:
  assumes "rises w w'" and "a < length w"
  shows "entity_running (w ! a) \<Longrightarrow> entity_running (w' ! a)" and "entity_up (w ! a) \<Longrightarrow> entity_up (w' ! a)"
  using list_all2_nthD[OF assms[unfolded rises_def]] by simp_all

lemma falls_nth:
  assumes "falls w w'" and "a < length w"
  shows "\<not> entity_running (w ! a) \<Longrightarrow> \<not> entity_running (w' ! a)"
    and "\<not> entity_listening (w ! a) \<Longrightarrow> \<not> entity_listening (w' ! a)"
    and "entity_bound (w ! a) \<Longrightarrow> entity_bound (w' ! a)"
  using list_all2_nthD[OF assms[unfolded falls_def]] by simp_all

lemma list_all2_set_nth: "(\<And>x. R x x) \<Longrightarrow> a < length w \<Longrightarrow> R (w ! a) e \<Longrightarrow> list_all2 R w (w[a := e])"
  using list_all2_update_cong[of R w w "w ! a" e a] by (simp add: list_all2_refl)

lemma shape_select [simp]:
  "en_name (shape e) = en_name e" "en_parent (shape e) = en_parent e" "en_permissions (shape e) = en_permissions e"
  "en_data (shape e) = data_shape (en_data e)"
  by (simp_all add: shape_def)

lemma protocol_shape: "p\<lparr>pr_running := b\<rparr> = q\<lparr>pr_running := c\<rparr> \<Longrightarrow> pr_interfaces p = pr_interfaces q"
  by (drule arg_cong[where f = pr_interfaces]) simp

lemma interface_shape:
  "p\<lparr>if_acceptor := x, if_on_connected := y\<rparr> = q\<lparr>if_acceptor := u, if_on_connected := v\<rparr> \<Longrightarrow> if_endpoint p = if_endpoint q"
  by (drule arg_cong[where f = if_endpoint]) simp

lemma shape_fields:
  assumes "shape e' = shape e"
  shows "en_name e' = en_name e" "en_parent e' = en_parent e" "en_permissions e' = en_permissions e"
    "en_type e' = en_type e" "host_of e' = host_of e" "children_of e' = children_of e"
    "(en_data e' = Server_data hosts) = (en_data e = Server_data hosts)"
    "map_option pr_interfaces (protocol_of e') = map_option pr_interfaces (protocol_of e)"
    "map_option if_endpoint (interface_of e') = map_option if_endpoint (interface_of e)"
proof -
  have d: "data_shape (en_data e') = data_shape (en_data e)"
    using arg_cong[OF assms, of en_data] by simp
  show "en_name e' = en_name e" "en_parent e' = en_parent e" "en_permissions e' = en_permissions e"
    using arg_cong[OF assms, of en_name] arg_cong[OF assms, of en_parent] arg_cong[OF assms, of en_permissions] by simp_all
  show "en_type e' = en_type e" "host_of e' = host_of e" "children_of e' = children_of e"
    "(en_data e' = Server_data hosts) = (en_data e = Server_data hosts)"
    "map_option pr_interfaces (protocol_of e') = map_option pr_interfaces (protocol_of e)"
    "map_option if_endpoint (interface_of e') = map_option if_endpoint (interface_of e)"
    using d
    by (cases "en_data e"; cases "en_data e'";
        auto simp: en_type_def host_of_def children_of_def protocol_of_def interface_of_def
          dest: protocol_shape interface_shape)+
qed
definition tree_ok :: "('p, 'c, 'i, 'e, 'sm, 'am) world \<Rightarrow> bool" where
  "tree_ok w \<longleftrightarrow> parents_ok w \<and> children_ok w"

lemma same_tree_ok:
  assumes "same_tree w w'" and "tree_ok w"
  shows "tree_ok w'"
proof -
  note len = same_tree_length[OF assms(1)] and f = shape_fields[OF same_tree_nth[OF assms(1)]]
  have "parents_ok w'" unfolding parents_ok_def
  proof (intro allI impI)
    fix a
    assume "a < length w'"
    then have a: "a < length w" using len by simp
    have p: "p < length w \<and> parent_type (en_type (w ! a)) = Some (en_type (w ! p))" if "en_parent (w ! a) = Some p" for p
      using assms(2) a that parent_types[of w a p] by (simp add: tree_ok_def)
    have o: "en_type (w ! a) \<in> {SERVER, HOST}" if "en_parent (w ! a) = None"
      using assms(2) a that orphans[of w a] by (simp add: tree_ok_def)
    show "case en_parent (w' ! a) of None \<Rightarrow> en_type (w' ! a) \<in> {SERVER, HOST}
      | Some p \<Rightarrow> p < length w' \<and> parent_type (en_type (w' ! a)) = Some (en_type (w' ! p))"
      using p o len f(2,4)[OF a] f(4) by (cases "en_parent (w ! a)") simp_all
  qed
  moreover have "children_ok w'" using assms(2) len f(2,6) by (simp add: tree_ok_def children_ok_def)
  ultimately show ?thesis by (simp add: tree_ok_def)
qed

lemma childrenD:
  assumes "tree_ok w" and "a < length w" and "c \<in> set (children_of (w ! a))"
  shows "c < length w" "en_parent (w ! c) = Some a" "parent_type (en_type (w ! c)) = Some (en_type (w ! a))"
  using assms parent_types(2)[of w c a] by (auto simp: tree_ok_def children_ok_def)

lemma get_children:
  "h \<in> set (get_hosts env w s) \<Longrightarrow> h \<in> set (children_of (w ! s)) \<and> en_type (w ! s) = SERVER"
  "p \<in> set (get_protocols env w h) \<Longrightarrow> p \<in> set (children_of (w ! h)) \<and> en_type (w ! h) = HOST"
  "i \<in> set (get_interfaces env w p) \<Longrightarrow> i \<in> set (children_of (w ! p)) \<and> en_type (w ! p) = PROTOCOL"
  by (auto simp: get_hosts_def get_protocols_def get_interfaces_def my_named_children_def my_children_def
      children_of_def host_of_def protocol_of_def en_type_def split: entity_data.splits)

lemma parent_type_inv: "parent_type t = Some HOST \<longleftrightarrow> t = PROTOCOL" "parent_type t = Some PROTOCOL \<longleftrightarrow> t = INTERFACE"
  "parent_type t = Some SERVER \<longleftrightarrow> t = HOST"
  by (cases t; simp)+

lemma get_memberD:
  assumes "tree_ok w" and "a < length w"
  shows "h \<in> set (get_hosts env w a) \<Longrightarrow> h < length w \<and> en_type (w ! h) = HOST \<and> en_parent (w ! h) = Some a"
    "p \<in> set (get_protocols env w a) \<Longrightarrow> p < length w \<and> en_type (w ! p) = PROTOCOL \<and> en_parent (w ! p) = Some a"
    "i \<in> set (get_interfaces env w a) \<Longrightarrow> i < length w \<and> en_type (w ! i) = INTERFACE \<and> en_parent (w ! i) = Some a"
  using get_children childrenD[OF assms] parent_type_inv by metis+

lemma same_tree_children:
  assumes "same_tree w w'" and "tree_ok w" and "a < length w"
  shows "get_hosts env w' a = get_hosts env w a" "get_protocols env w' a = get_protocols env w a"
    "get_interfaces env w' a = get_interfaces env w a"
proof -
  note f = shape_fields[OF same_tree_nth[OF assms(1,3)]]
  have names: "my_children env w' pat cs = my_children env w pat cs" if "set cs \<subseteq> set (children_of (w ! a))" for pat cs
    using that childrenD(1)[OF assms(2,3)] shape_fields(1)[OF same_tree_nth[OF assms(1)]]
    by (auto simp: my_children_def intro!: filter_cong)
  show "get_hosts env w' a = get_hosts env w a" using f(7)[of "sv_hosts (en_data (w ! a))"] f(7)[of "sv_hosts (en_data (w' ! a))"]
    by (cases "en_data (w ! a)"; cases "en_data (w' ! a)") (simp_all add: get_hosts_def)
  show "get_protocols env w' a = get_protocols env w a" using f(5) names[of "ho_protocols d" "''.*''" for d]
    by (auto simp: get_protocols_def host_of_def children_of_def split: option.splits entity_data.splits)
  show "get_interfaces env w' a = get_interfaces env w a" using f(8) names[of "pr_interfaces d" "''.*''" for d]
    by (auto simp: get_interfaces_def protocol_of_def children_of_def split: option.splits entity_data.splits)
qed

section \<open>Starting and stopping a tree\<close>

lemma for_each_spec:
  assumes "for_each f as st = (Inr (), st')" and "I st" and "\<And>st st'. I st \<Longrightarrow> R st st' \<Longrightarrow> I st'"
    and "\<And>a st st'. a \<in> set as \<Longrightarrow> I st \<Longrightarrow> f a st = (Inr (), st') \<Longrightarrow> R st st' \<and> Q a st'"
    and "\<And>x. R x x" and "\<And>x y z. R x y \<Longrightarrow> R y z \<Longrightarrow> R x z"
    and "\<And>a x y. a \<in> set as \<Longrightarrow> I x \<Longrightarrow> R x y \<Longrightarrow> Q a x \<Longrightarrow> Q a y"
  shows "R st st' \<and> (\<forall>a \<in> set as. Q a st')"
  using assms(1,2,4,7)
proof (induction as arbitrary: st)
  case Nil
  then show ?case using assms(5) by simp
next
  case (Cons a as)
  obtain r st1 where 1: "f a st = (r, st1)" by fastforce
  then have r: "r = Inr ()" "for_each f as st1 = (Inr (), st')" using Cons.prems(1) by (simp_all split: sum.splits)
  have 2: "R st st1" "Q a st1" using Cons.prems(3)[of a st st1] Cons.prems(2) 1 r(1) by simp_all
  have i: "I st1" by (rule assms(3)[OF Cons.prems(2) 2(1)])
  have 3: "R st1 st' \<and> (\<forall>a \<in> set as. Q a st')"
    by (rule Cons.IH[OF r(2) i]) (use Cons.prems(3,4) in auto)
  show ?case using 3 assms(6)[OF 2(1)] Cons.prems(4)[of a st1 st'] 2(2) i by auto
qed

lemma for_each_ptr_spec:
  assumes "I st" and "\<And>st st'. I st \<Longrightarrow> R st st' \<Longrightarrow> I st'"
    and "\<And>a st. a \<in> set as \<Longrightarrow> I st \<Longrightarrow> \<exists>st'. f a st = Some st' \<and> R st st' \<and> Q a st'"
    and "\<And>x. R x x" and "\<And>x y z. R x y \<Longrightarrow> R y z \<Longrightarrow> R x z"
    and "\<And>a x y. a \<in> set as \<Longrightarrow> I x \<Longrightarrow> R x y \<Longrightarrow> Q a x \<Longrightarrow> Q a y"
  shows "\<exists>st'. for_each_ptr f as st = Some st' \<and> R st st' \<and> (\<forall>a \<in> set as. Q a st')"
  using assms(1,3,6)
proof (induction as arbitrary: st)
  case Nil
  then show ?case using assms(4) by simp
next
  case (Cons a as)
  obtain st1 where 1: "f a st = Some st1" "R st st1" "Q a st1" using Cons.prems(2)[of a st] Cons.prems(1) by auto
  have i: "I st1" by (rule assms(2)[OF Cons.prems(1) 1(2)])
  obtain st' where 2: "for_each_ptr f as st1 = Some st'" "R st1 st'" "\<forall>a \<in> set as. Q a st'"
    using Cons.IH[OF i Cons.prems(2,3)] by fastforce
  then show ?case using 1 assms(5)[OF 1(2) 2(2)] Cons.prems(3)[OF _ i 2(2) 1(3)] by simp
qed
text \<open>A change of one entity that keeps its shape.\<close>

lemma set_rises:
  assumes "a < length w" and "shape e = shape (w ! a)" and "entity_running (w ! a) \<Longrightarrow> entity_running e"
    and "entity_up (w ! a) \<Longrightarrow> entity_up e"
  shows "rises w (w[a := e])"
  unfolding rises_def by (rule list_all2_set_nth) (use assms in simp_all)

lemma set_falls:
  assumes "a < length w" and "shape e = shape (w ! a)" and "entity_running e \<Longrightarrow> entity_running (w ! a)"
    and "entity_listening e \<Longrightarrow> entity_listening (w ! a)" and "entity_bound (w ! a) \<Longrightarrow> entity_bound e"
  shows "falls w (w[a := e])"
  unfolding falls_def by (rule list_all2_set_nth) (use assms in simp_all)

lemma entity_fields [simp]:
  "protocol_of (e\<lparr>en_data := Protocol_data d\<rparr>) = Some d" "protocol_of (e\<lparr>en_data := Interface_data d'\<rparr>) = None"
  "interface_of (e\<lparr>en_data := Interface_data d'\<rparr>) = Some d'" "interface_of (e\<lparr>en_data := Protocol_data d\<rparr>) = None"
  by (simp_all add: protocol_of_def interface_of_def)

lemma of_type:
  "en_type e = PROTOCOL \<longleftrightarrow> (\<exists>d. protocol_of e = Some d)" "en_type e = INTERFACE \<longleftrightarrow> (\<exists>d. interface_of e = Some d)"
  "interface_of e = Some i \<Longrightarrow> protocol_of e = None" "protocol_of e = Some p \<Longrightarrow> interface_of e = None"
  by (auto simp: en_type_def protocol_of_def interface_of_def split: entity_data.splits)

lemma shape_protocol: "protocol_of e = Some d \<Longrightarrow> shape (e\<lparr>en_data := Protocol_data (d\<lparr>pr_running := b\<rparr>)\<rparr>) = shape e"
  by (simp add: shape_def protocol_of_def split: entity_data.splits)

lemma shape_interface: "interface_of e = Some d \<Longrightarrow>
    shape (e\<lparr>en_data := Interface_data (d\<lparr>if_on_connected := x, if_acceptor := y\<rparr>)\<rparr>) = shape e"
  "interface_of e = Some d \<Longrightarrow> shape (e\<lparr>en_data := Interface_data (d\<lparr>if_acceptor := y\<rparr>)\<rparr>) = shape e"
  by (simp_all add: shape_def interface_of_def split: entity_data.splits)

lemmas entity_preds = entity_running_def entity_listening_def entity_bound_def entity_up_def

lemma set_running_moves:
  assumes "p < length w" and "en_type (w ! p) = PROTOCOL"
  shows "rises w (set_running p True w) \<and> entity_running (set_running p True w ! p)"
    and "falls w (set_running p False w) \<and> \<not> entity_running (set_running p False w ! p)"
proof -
  obtain d where d: "protocol_of (w ! p) = Some d" using assms(2) of_type(1) by blast
  then have s: "set_running p b w = w[p := (w ! p)\<lparr>en_data := Protocol_data (d\<lparr>pr_running := b\<rparr>)\<rparr>]" for b
    by (simp add: set_running_def)
  show "rises w (set_running p True w) \<and> entity_running (set_running p True w ! p)" unfolding s
    by (intro conjI set_rises) (use assms(1) d of_type(4)[OF d] in \<open>simp_all add: shape_protocol entity_preds\<close>)
  show "falls w (set_running p False w) \<and> \<not> entity_running (set_running p False w ! p)" unfolding s
    by (intro conjI set_falls) (use assms(1) d of_type(4)[OF d] in \<open>simp_all add: shape_protocol entity_preds\<close>)
qed

text \<open>Opening an acceptor without an exception leaves it open.\<close>

definition listen_opens :: "('c, 'i, 'e, 'sm) server_env \<Rightarrow> bool" where
  "listen_opens env \<longleftrightarrow> (\<forall>ep. fst (se_listen env ep) = None \<longrightarrow> snd (se_listen env ep))"

lemma interface_start_rises:
  assumes "listen_opens env" and "i < length w" and "en_type (w ! i) = INTERFACE" and "en_parent (w ! i) = Some p"
    and "interface_start env p i w = (Inr (), w')"
  shows "rises w w' \<and> entity_up (w' ! i)"
proof -
  obtain d where d: "interface_of (w ! i) = Some d" using assms(3) of_type(2) by blast
  obtain ex is_open where l: "se_listen env (if_endpoint d) = (ex, is_open)" by fastforce
  have "ex = None" using assms(5) d l by (simp add: interface_start_def split: option.splits)
  then have w': "is_open" "w' = w[i := (w ! i)\<lparr>en_data := Interface_data (d\<lparr>if_on_connected := Some p, if_acceptor := Some True\<rparr>)\<rparr>]"
    using assms(1,5) d l by (auto simp: interface_start_def update_interface_def listen_opens_def dest: spec[of _ "if_endpoint d"])
  show ?thesis unfolding w'(2)
    by (intro conjI set_rises) (use assms(2,4) d of_type(3)[OF d] in \<open>simp_all add: shape_interface entity_preds\<close>)
qed

lemma interface_stop_falls:
  assumes "i < length w" and "entity_bound (w ! i)"
  shows "\<exists>w'. interface_stop i w = Some w' \<and> falls w w' \<and> \<not> entity_listening (w' ! i)"
proof -
  obtain d b where d: "interface_of (w ! i) = Some d" "if_acceptor d = Some b"
    using assms(2) by (auto simp: entity_bound_def split: option.splits)
  show ?thesis
  proof (cases b)
    case True
    let ?w = "w[i := (w ! i)\<lparr>en_data := Interface_data (d\<lparr>if_acceptor := Some False\<rparr>)\<rparr>]"
    have "interface_stop i w = Some ?w" using d True by (simp add: interface_stop_def update_interface_def)
    moreover have "falls w ?w \<and> \<not> entity_listening (?w ! i)"
      by (intro conjI set_falls) (use assms(1) d of_type(3)[OF d(1)] True in \<open>simp_all add: shape_interface entity_preds\<close>)
    ultimately show ?thesis by blast
  next
    case False
    then show ?thesis using d tree_refl(3) by (simp add: interface_stop_def entity_listening_def)
  qed
qed

lemma protocol_start_rises:
  assumes "tree_ok w" and "listen_opens env" and "p < length w" and "en_type (w ! p) = PROTOCOL"
    and "protocol_start env p w = (Inr (), w')"
  shows "rises w w' \<and> entity_running (w' ! p) \<and> (\<forall>i \<in> set (get_interfaces env w p). entity_up (w' ! i))"
proof -
  let ?w = "set_running p True w"
  note r = set_running_moves(1)[OF assms(3,4)]
  note s = rises_same_tree[OF conjunct1[OF r]]
  note len = same_tree_length[OF s] and ok = same_tree_ok[OF s assms(1)]
  have e: "for_each (interface_start env p) (get_interfaces env w p) ?w = (Inr (), w')"
    using assms(5) same_tree_children(3)[OF s assms(1,3)] by (simp add: protocol_start_def Let_def)
  have m: "i < length ?w \<and> en_type (v ! i) = INTERFACE \<and> en_parent (v ! i) = Some p"
    if "i \<in> set (get_interfaces env w p)" "same_tree ?w v" for i v
    using get_memberD(3)[OF assms(1,3) that(1)] shape_fields(2,4)[OF same_tree_nth[OF same_tree_trans[OF s that(2)]]] len by simp
  have "rises ?w w' \<and> (\<forall>i \<in> set (get_interfaces env w p). entity_up (w' ! i))"
  proof (rule for_each_spec[OF e, where I = "same_tree ?w"])
    fix i v v'
    assume i: "i \<in> set (get_interfaces env w p)" and v: "same_tree ?w v" and st: "interface_start env p i v = (Inr (), v')"
    show "rises v v' \<and> entity_up (v' ! i)"
      by (rule interface_start_rises[OF assms(2) _ _ _ st]) (use m[OF i v] same_tree_length[OF v] in simp_all)
  next
    fix i v v'
    assume "i \<in> set (get_interfaces env w p)" "same_tree ?w v" "rises v v'" "entity_up (v ! i)"
    then show "entity_up (v' ! i)" using m[of i v] same_tree_length[of ?w v] rises_nth(2)[of v v' i] by simp
  qed (blast intro: tree_refl same_tree_trans rises_same_tree rises_trans)+
  then show ?thesis using r rises_trans rises_nth(1)[of ?w w' p] len assms(3) by metis
qed
text \<open>What is up below a host and below a server, when the entities are looked up in the tree \<open>w\<close>.\<close>

definition protocol_served :: "('c, 'i, 'e, 'sm) server_env \<Rightarrow> ('p, 'c, 'i, 'e, 'sm, 'am) world \<Rightarrow> nat \<Rightarrow> ('p, 'c, 'i, 'e, 'sm, 'am) world \<Rightarrow> bool" where
  "protocol_served env w p w' \<longleftrightarrow> entity_running (w' ! p) \<and> (\<forall>i \<in> set (get_interfaces env w p). entity_up (w' ! i))"

definition protocol_silent :: "('c, 'i, 'e, 'sm) server_env \<Rightarrow> ('p, 'c, 'i, 'e, 'sm, 'am) world \<Rightarrow> nat \<Rightarrow> ('p, 'c, 'i, 'e, 'sm, 'am) world \<Rightarrow> bool" where
  "protocol_silent env w p w' \<longleftrightarrow>
     \<not> entity_running (w' ! p) \<and> (\<forall>i \<in> set (get_interfaces env w p). \<not> entity_listening (w' ! i))"

lemma served_stable:
  assumes "tree_ok w" and "same_tree w v" and "p < length w" and "rises v v'" and "protocol_served env w p v"
  shows "protocol_served env w p v'"
  using assms(5) rises_nth[OF assms(4)] same_tree_length[OF assms(2)] get_memberD(3)[OF assms(1,3)] assms(3)
  by (simp add: protocol_served_def)

lemma silent_stable:
  assumes "tree_ok w" and "same_tree w v" and "p < length w" and "falls v v'" and "protocol_silent env w p v"
  shows "protocol_silent env w p v'"
  using assms(5) falls_nth(1,2)[OF assms(4)] same_tree_length[OF assms(2)] get_memberD(3)[OF assms(1,3)] assms(3)
  by (simp add: protocol_silent_def)

lemma host_start_rises:
  assumes "tree_ok w" and "listen_opens env" and "same_tree w v" and "h < length w" and "host_start env h v = (Inr (), v')"
  shows "rises v v' \<and> (\<forall>p \<in> set (get_protocols env w h). protocol_served env w p v')"
proof -
  have e: "for_each (protocol_start env) (get_protocols env w h) v = (Inr (), v')"
    using assms(5) same_tree_children(2)[OF assms(3,1,4)] by (simp add: host_start_def)
  note m = get_memberD(2)[OF assms(1,4)]
  show ?thesis
  proof (rule for_each_spec[OF e, where I = "same_tree w"])
    fix p u u'
    assume p: "p \<in> set (get_protocols env w h)" and u: "same_tree w u" and st: "protocol_start env p u = (Inr (), u')"
    have "p < length u" "en_type (u ! p) = PROTOCOL"
      using m[OF p] same_tree_length[OF u] shape_fields(4)[OF same_tree_nth[OF u]] by simp_all
    then show "rises u u' \<and> protocol_served env w p u'"
      using protocol_start_rises[OF same_tree_ok[OF u assms(1)] assms(2) _ _ st] same_tree_children(3)[OF u assms(1)] m[OF p]
      by (simp add: protocol_served_def)
  qed (use assms(3) m served_stable[OF assms(1)] in \<open>blast intro: tree_refl same_tree_trans rises_same_tree rises_trans\<close>)+
qed

lemma server_start_rises:
  assumes "tree_ok w" and "listen_opens env" and "s < length w" and "server_start env s w = (Inr (), w')"
  shows "rises w w' \<and> (\<forall>h \<in> set (get_hosts env w s). \<forall>p \<in> set (get_protocols env w h). protocol_served env w p w')"
proof -
  note m = get_memberD(1)[OF assms(1,3)]
  show ?thesis
  proof (rule for_each_spec[OF assms(4)[unfolded server_start_def], where I = "same_tree w"])
    fix h u u'
    assume h: "h \<in> set (get_hosts env w s)" and u: "same_tree w u" and st: "host_start env h u = (Inr (), u')"
    show "rises u u' \<and> (\<forall>p \<in> set (get_protocols env w h). protocol_served env w p u')"
      by (rule host_start_rises[OF assms(1,2) u _ st]) (use m[OF h] in simp)
  next
    fix h u u'
    assume h: "h \<in> set (get_hosts env w s)" and u: "same_tree w u" "rises u u'"
      and all: "\<forall>p \<in> set (get_protocols env w h). protocol_served env w p u"
    have "h < length w" using m[OF h] by simp
    then show "\<forall>p \<in> set (get_protocols env w h). protocol_served env w p u'"
      using all served_stable[OF assms(1) u(1) _ u(2)] get_memberD(2)[OF assms(1)] by blast
  qed (blast intro: tree_refl same_tree_trans rises_same_tree rises_trans)+
qed

text \<open>Stopping: every acceptor that is reached exists, because it was opened before.\<close>

definition all_bound :: "('c, 'i, 'e, 'sm) server_env \<Rightarrow> ('p, 'c, 'i, 'e, 'sm, 'am) world \<Rightarrow> nat \<Rightarrow> ('p, 'c, 'i, 'e, 'sm, 'am) world \<Rightarrow> bool" where
  "all_bound env w p w' \<longleftrightarrow> (\<forall>i \<in> set (get_interfaces env w p). entity_bound (w' ! i))"

lemma bound_stable:
  assumes "tree_ok w" and "same_tree w v" and "p < length w" and "falls v v'" and "all_bound env w p v"
  shows "all_bound env w p v'"
  using assms(5) falls_nth(3)[OF assms(4)] same_tree_length[OF assms(2)] get_memberD(3)[OF assms(1,3)]
  by (simp add: all_bound_def)

lemma protocol_stop_falls:
  assumes "tree_ok w" and "same_tree w v" and "p < length w" and "en_type (w ! p) = PROTOCOL" and "all_bound env w p v"
  shows "\<exists>v'. protocol_stop env p v = Some v' \<and> falls v v' \<and> protocol_silent env w p v'"
proof -
  let ?v = "set_running p False v"
  have p: "p < length v" "en_type (v ! p) = PROTOCOL"
    using assms(3,4) same_tree_length[OF assms(2)] shape_fields(4)[OF same_tree_nth[OF assms(2,3)]] by simp_all
  note r = set_running_moves(2)[OF p]
  have s: "same_tree w ?v" by (rule same_tree_trans[OF assms(2) falls_same_tree[OF conjunct1[OF r]]])
  note m = get_memberD(3)[OF assms(1,3)]
  have b: "all_bound env w p ?v" by (rule bound_stable[OF assms(1-3) conjunct1[OF r] assms(5)])
  have "\<exists>v'. for_each_ptr interface_stop (get_interfaces env w p) ?v = Some v' \<and> falls ?v v'
    \<and> (\<forall>i \<in> set (get_interfaces env w p). \<not> entity_listening (v' ! i))"
  proof (rule for_each_ptr_spec[where I = "\<lambda>u. same_tree w u \<and> all_bound env w p u"])
    fix i u
    assume "i \<in> set (get_interfaces env w p)" and u: "same_tree w u \<and> all_bound env w p u"
    then show "\<exists>u'. interface_stop i u = Some u' \<and> falls u u' \<and> \<not> entity_listening (u' ! i)"
      using m same_tree_length[of w u] by (intro interface_stop_falls) (auto simp: all_bound_def)
  next
    fix u u'
    assume "same_tree w u \<and> all_bound env w p u" "falls u u'"
    then show "same_tree w u' \<and> all_bound env w p u'"
      using bound_stable[OF assms(1) _ assms(3)] same_tree_trans falls_same_tree by blast
  next
    fix i u u'
    assume "i \<in> set (get_interfaces env w p)" "same_tree w u \<and> all_bound env w p u" "falls u u'" "\<not> entity_listening (u ! i)"
    then show "\<not> entity_listening (u' ! i)" using m same_tree_length[of w u] falls_nth(2)[of u u' i] by simp
  qed (use s b in \<open>blast intro: tree_refl falls_trans\<close>)+
  then obtain v' where v': "for_each_ptr interface_stop (get_interfaces env w p) ?v = Some v'" "falls ?v v'"
    "\<forall>i \<in> set (get_interfaces env w p). \<not> entity_listening (v' ! i)" by blast
  have "protocol_stop env p v = Some v'" using v'(1) same_tree_children(3)[OF s assms(1,3)] by (simp add: protocol_stop_def Let_def)
  moreover have "falls v v'" using r v'(2) falls_trans by blast
  moreover have "\<not> entity_running (v' ! p)"
    using falls_nth(1)[OF v'(2)] r same_tree_length[OF s] assms(3) by simp
  ultimately show ?thesis using v'(3) by (simp add: protocol_silent_def)
qed

lemma host_stop_falls:
  assumes "tree_ok w" and "same_tree w v" and "h < length w" and "\<forall>p \<in> set (get_protocols env w h). all_bound env w p v"
  shows "\<exists>v'. host_stop env h v = Some v' \<and> falls v v' \<and> (\<forall>p \<in> set (get_protocols env w h). protocol_silent env w p v')"
proof -
  note m = get_memberD(2)[OF assms(1,3)]
  have "\<exists>v'. for_each_ptr (protocol_stop env) (get_protocols env w h) v = Some v' \<and> falls v v'
    \<and> (\<forall>p \<in> set (get_protocols env w h). protocol_silent env w p v')"
  proof (rule for_each_ptr_spec[where I = "\<lambda>u. same_tree w u \<and> (\<forall>p \<in> set (get_protocols env w h). all_bound env w p u)"])
    fix p u
    assume p: "p \<in> set (get_protocols env w h)"
      and u: "same_tree w u \<and> (\<forall>p \<in> set (get_protocols env w h). all_bound env w p u)"
    show "\<exists>u'. protocol_stop env p u = Some u' \<and> falls u u' \<and> protocol_silent env w p u'"
      by (rule protocol_stop_falls[OF assms(1)]) (use p u m in blast)+
  next
    fix u u'
    assume u: "same_tree w u \<and> (\<forall>p \<in> set (get_protocols env w h). all_bound env w p u)" "falls u u'"
    then show "same_tree w u' \<and> (\<forall>p \<in> set (get_protocols env w h). all_bound env w p u')"
      using bound_stable[OF assms(1) conjunct1[OF u(1)] _ u(2)] same_tree_trans[OF _ falls_same_tree[OF u(2)]] m by blast
  next
    fix p u u'
    assume "p \<in> set (get_protocols env w h)" and u: "same_tree w u
      \<and> (\<forall>p \<in> set (get_protocols env w h). all_bound env w p u)" "falls u u'" and "protocol_silent env w p u"
    then show "protocol_silent env w p u'" using silent_stable[OF assms(1) conjunct1[OF u(1)] _ u(2)] m by blast
  qed (use assms(2,4) in \<open>blast intro: tree_refl falls_trans\<close>)+
  then show ?thesis using same_tree_children(2)[OF assms(2,1,3)] by (simp add: host_stop_def)
qed

lemma server_stop_falls:
  assumes "tree_ok w" and "same_tree w v" and "s < length w"
    and "\<forall>h \<in> set (get_hosts env w s). \<forall>p \<in> set (get_protocols env w h). all_bound env w p v"
  shows "\<exists>v'. server_stop env s v = Some v' \<and> falls v v'
    \<and> (\<forall>h \<in> set (get_hosts env w s). \<forall>p \<in> set (get_protocols env w h). protocol_silent env w p v')"
proof -
  note m = get_memberD(1)[OF assms(1,3)] and m2 = get_memberD(2)[OF assms(1)]
  have "\<exists>v'. for_each_ptr (host_stop env) (get_hosts env w s) v = Some v' \<and> falls v v'
    \<and> (\<forall>h \<in> set (get_hosts env w s). \<forall>p \<in> set (get_protocols env w h). protocol_silent env w p v')"
  proof (rule for_each_ptr_spec[where I = "\<lambda>u. same_tree w u
      \<and> (\<forall>h \<in> set (get_hosts env w s). \<forall>p \<in> set (get_protocols env w h). all_bound env w p u)"])
    fix h u
    assume h: "h \<in> set (get_hosts env w s)" and u: "same_tree w u
      \<and> (\<forall>h \<in> set (get_hosts env w s). \<forall>p \<in> set (get_protocols env w h). all_bound env w p u)"
    show "\<exists>u'. host_stop env h u = Some u' \<and> falls u u' \<and> (\<forall>p \<in> set (get_protocols env w h). protocol_silent env w p u')"
      by (rule host_stop_falls[OF assms(1)]) (use h u m in blast)+
  next
    fix u u'
    assume u: "same_tree w u \<and> (\<forall>h \<in> set (get_hosts env w s). \<forall>p \<in> set (get_protocols env w h). all_bound env w p u)" "falls u u'"
    then show "same_tree w u' \<and> (\<forall>h \<in> set (get_hosts env w s). \<forall>p \<in> set (get_protocols env w h). all_bound env w p u')"
      using bound_stable[OF assms(1) conjunct1[OF u(1)] _ u(2)] same_tree_trans[OF _ falls_same_tree[OF u(2)]] m m2 by blast
  next
    fix h u u'
    assume h: "h \<in> set (get_hosts env w s)" and u: "same_tree w u
      \<and> (\<forall>h \<in> set (get_hosts env w s). \<forall>p \<in> set (get_protocols env w h). all_bound env w p u)" "falls u u'"
      and q: "\<forall>p \<in> set (get_protocols env w h). protocol_silent env w p u"
    show "\<forall>p \<in> set (get_protocols env w h). protocol_silent env w p u'"
      using q silent_stable[OF assms(1) conjunct1[OF u(1)] _ u(2)] m[OF h] m2 by blast
  qed (use assms(2,4) in \<open>blast intro: tree_refl falls_trans\<close>)+
  then show ?thesis using same_tree_children(1)[OF assms(2,1,3)] by (auto simp: server_stop_def)
qed
section \<open>A tree for the witnesses\<close>

text \<open>A server, its host, the host's protocol and an interface; the host and the interface have mounts.\<close>

definition demo_entity ::
    "nat option \<Rightarrow> demo_path paths option \<Rightarrow> (string, unit, unit) entity_data \<Rightarrow> (demo_path, unit, nat, string, unit, unit) entity" where
  "demo_entity parent perms data =
     \<lparr>en_id = 0, en_name = ''Default'', en_conf = \<lparr>root_path = ''/'', sub_conf = ()\<rparr>, en_parent = parent,
      en_permissions = perms, en_data = data\<rparr>"

definition demo_tree :: "(demo_path, unit, nat, string, unit, unit) world" where
  "demo_tree =
     [demo_entity None None (Server_data [(''Default'', 1)]),
      demo_entity (Some 0) (Some demo_mounts)
        (Host_data \<lparr>ho_long_name = [], ho_protocols = [2], ho_session_manager = (), ho_auth_manager = ()\<rparr>),
      demo_entity (Some 1) None (Protocol_data \<lparr>pr_interfaces = [3], pr_running = False\<rparr>),
      demo_entity (Some 2) (Some demo_mounts)
        (Interface_data \<lparr>if_endpoint = ''127.0.0.1'', if_acceptor = None, if_on_connected = None, if_tls_cert = []\<rparr>)]"

lemma demo_tree_parents: "parents_ok demo_tree"
  by code_simp

lemma effective_protocol_demo: "effective_permissions demo_tree 2 = Some (Inr demo_mounts)"
  using effective_protocol[OF demo_tree_parents, of 2] permissions_copy_id[of demo_mounts] demo_mounts_ok
  by (simp add: demo_tree_def demo_entity_def en_type_def mounts_ok_def)

theorem effective_permissions_returns_witness: "effective_permissions demo_tree 3 = None"
  using effective_permissions_returns[OF demo_tree_parents, of 3]
  by (simp add: demo_tree_def demo_entity_def en_type_def have_parent_def)

end
