(* ===== verification/Wfded.thy ===== *)
theory Wfded
  imports WfdeEntities WfdeSessionManager FtpTheorems "HOL-Library.Multiset"
begin

text \<open>
  The daemon: \<open>src/wfded/wfded.cpp\<close>. \<open>PrepareServers\<close> builds the tree of entities from the configuration,
  with an authentication manager and mounts for every host; \<open>main\<close> starts and stops the servers. A
  connection that a running FTP protocol takes becomes a session (\<open>WfdeProtocolFtp::HandleConnection\<close>).
  The output of the log, the signals and the thread pool are left out.
\<close>

type_synonym ('p, 'c, 'i, 'e) daemon_world =
  "('p, 'c, 'i, 'e, ('p, nat, 'i) session_manager, 'p auth_manager) world"

type_synonym ('p, 'c, 'i, 'e) daemon_env = "('c, 'i, 'e, ('p, nat, 'i) session_manager) server_env"

section \<open>Preparing the servers\<close>

fun prepare_protocols ::
    "('p, 'c, 'i, 'e) daemon_env \<Rightarrow> (string \<times> nat) list \<Rightarrow> 'c \<Rightarrow> string \<Rightarrow> nat \<Rightarrow> string list \<Rightarrow>
     ('p, 'c, 'i, 'e) daemon_world \<Rightarrow> exn + ('p, 'c, 'i, 'e) daemon_world" where
  "prepare_protocols env factories conf prot_path h [] w = Inr w"
| "prepare_protocols env factories conf prot_path h (prdef # prdefs) w =
     bindE (create_protocol env factories (Some h) (get_config_for_path conf (prot_path @ ''/'' @ prdef)) w) (\<lambda>(p, w).
       bindE (add_interfaces env p w) (\<lambda>(n, w).
         prepare_protocols env factories conf prot_path h prdefs w))"

definition prepare_host ::
    "('p, 'c, 'i, 'e) daemon_env \<Rightarrow> ('p, 'w) fs_ops \<Rightarrow> int \<Rightarrow> (string \<times> nat) list \<Rightarrow> 'c \<Rightarrow> nat \<Rightarrow> string \<Rightarrow>
     ('p, 'c, 'i, 'e) daemon_world \<Rightarrow> exn + ('p, 'c, 'i, 'e) daemon_world" where
  "prepare_host env fs garbage factories conf server thishost_path w =
     bindE (auth_manager_new fs (sub_config_ops (se_conf env)) (get_config_for_path conf (thishost_path @ ''/Users'')) garbage)
       (\<lambda>auth_mgr.
          bindE (create_host env server auth_mgr (get_config_for_path conf thishost_path) w) (\<lambda>(h, w).
            bindE (create_permissions fs (sub_config_ops (se_conf env)) (get_config_for_path conf (thishost_path @ ''/Paths'')))
              (\<lambda>perms.
                 let w = set_permissions h (Some perms) w;
                     prot_path = thishost_path @ ''/Protocols''
                 in prepare_protocols env factories conf prot_path h (cf_enum_nodes (se_conf env) conf prot_path) w)))"

fun prepare_hosts ::
    "('p, 'c, 'i, 'e) daemon_env \<Rightarrow> ('p, 'w) fs_ops \<Rightarrow> int \<Rightarrow> (string \<times> nat) list \<Rightarrow> 'c \<Rightarrow> nat \<Rightarrow> string \<Rightarrow> string list \<Rightarrow>
     ('p, 'c, 'i, 'e) daemon_world \<Rightarrow> exn + ('p, 'c, 'i, 'e) daemon_world" where
  "prepare_hosts env fs garbage factories conf server hosts_path [] w = Inr w"
| "prepare_hosts env fs garbage factories conf server hosts_path (hostdef # hostsdefs) w =
     bindE (prepare_host env fs garbage factories conf server (hosts_path @ ''/'' @ hostdef) w)
       (prepare_hosts env fs garbage factories conf server hosts_path hostsdefs)"

fun prepare_servers_loop ::
    "('p, 'c, 'i, 'e) daemon_env \<Rightarrow> ('p, 'w) fs_ops \<Rightarrow> int \<Rightarrow> (string \<times> nat) list \<Rightarrow> 'c \<Rightarrow> string list \<Rightarrow>
     nat list \<times> ('p, 'c, 'i, 'e) daemon_world \<Rightarrow> exn + nat list \<times> ('p, 'c, 'i, 'e) daemon_world" where
  "prepare_servers_loop env fs garbage factories conf [] (servers, w) = Inr (servers, w)"
| "prepare_servers_loop env fs garbage factories conf (svrdef # svrdefs) (servers, w) =
     (let svr_path = ''/'' @ svrdef
      in bindE (create_server env (get_config_for_path conf svr_path) w) (\<lambda>(server, w).
           let hosts_path = svr_path @ ''/Hosts''
           in bindE (prepare_hosts env fs garbage factories conf server hosts_path
                       (cf_enum_nodes (se_conf env) conf hosts_path) w) (\<lambda>w.
                prepare_servers_loop env fs garbage factories conf svrdefs (servers @ [server], w))))"

definition prepare_servers ::
    "('p, 'c, 'i, 'e) daemon_env \<Rightarrow> ('p, 'w) fs_ops \<Rightarrow> int \<Rightarrow> (string \<times> nat) list \<Rightarrow> 'c \<Rightarrow>
     exn + nat list \<times> ('p, 'c, 'i, 'e) daemon_world" where
  "prepare_servers env fs garbage factories conf =
     prepare_servers_loop env fs garbage factories conf (cf_enum_nodes (se_conf env) conf ''/'') ([], [])"

section \<open>Running\<close>

text \<open>The start of \<open>main\<close>, up to where it waits for a signal, and what follows the signal.\<close>

definition daemon_start ::
    "('p, 'c, 'i, 'e) daemon_env \<Rightarrow> ('p, 'w) fs_ops \<Rightarrow> int \<Rightarrow> 'c \<Rightarrow> exn + nat list \<times> ('p, 'c, 'i, 'e) daemon_world" where
  "daemon_start env fs garbage conf =
     bindE (register_default_protocols env []) (\<lambda>factories.
       bindE (prepare_servers env fs garbage factories conf) (\<lambda>(servers, w).
         case for_each (server_start env) servers w of
           (Inl e, w) \<Rightarrow> Inl e
         | (Inr u, w) \<Rightarrow> Inr (servers, w)))"

definition daemon_stop ::
    "('p, 'c, 'i, 'e) daemon_env \<Rightarrow> nat list \<Rightarrow> ('p, 'c, 'i, 'e) daemon_world \<Rightarrow> ('p, 'c, 'i, 'e) daemon_world option" where
  "daemon_stop env servers w = for_each_ptr (server_stop env) servers w"

text \<open>
  The exit code: the configuration is read, the servers run until the signal (\<open>meanwhile\<close> is what
  happens to the tree until then), and are stopped. \<open>None\<close> is a crash.
\<close>

definition daemon_main ::
    "('p, 'c, 'i, 'e) daemon_env \<Rightarrow> ('p, 'w) fs_ops \<Rightarrow> int \<Rightarrow> exn + 'c \<Rightarrow>
     (('p, 'c, 'i, 'e) daemon_world \<Rightarrow> ('p, 'c, 'i, 'e) daemon_world) \<Rightarrow> int option" where
  "daemon_main env fs garbage conf meanwhile =
     (case bindE conf (daemon_start env fs garbage) of
        Inl e \<Rightarrow> Some (-1)
      | Inr (servers, w) \<Rightarrow> map_option (\<lambda>w. 0) (daemon_stop env servers (meanwhile w)))"

section \<open>The command line\<close>

text \<open>
  What \<open>boost::program_options\<close> has read, the defaults filled in, is the record \<open>option_values\<close>; an option it does
  not know or a bad value throws. A name that is no log level throws, too (\<open>level\<close>).
\<close>

record option_values =
  ov_help :: bool
  ov_config_file :: string
  ov_console_log :: string
  ov_log_level :: string
  ov_log_file :: string
  ov_truncate_log :: bool
  ov_daemon :: "bool option"
  ov_io_threads :: int
  ov_io_queue_size :: int

record cmd_line_options =
  co_num_io_threads :: int
  co_max_io_thread_queue_capacity :: int
  co_daemon :: bool
  co_conf_file :: string

definition cmd_line_options_new :: cmd_line_options where
  "cmd_line_options_new =
     \<lparr>co_num_io_threads = 0, co_max_io_thread_queue_capacity = 1024 * 64, co_daemon = False, co_conf_file = ''wfded.conf''\<rparr>"

datatype 'l log_handler = Log_to_stream 'l | Log_to_file string bool 'l

text \<open>Whether to go on, the handlers of the log, and the options.\<close>

definition parse_command_line ::
    "(string list \<Rightarrow> exn + option_values) \<Rightarrow> (string \<Rightarrow> exn + 'l) \<Rightarrow> string list \<Rightarrow>
     exn + bool \<times> 'l log_handler list \<times> cmd_line_options" where
  "parse_command_line parse level argv =
     bindE (parse argv) (\<lambda>v.
       let conf = \<lparr>co_num_io_threads = ov_io_threads v, co_max_io_thread_queue_capacity = ov_io_queue_size v,
                   co_daemon = (case ov_daemon v of Some d \<Rightarrow> d | None \<Rightarrow> co_daemon cmd_line_options_new),
                   co_conf_file = ov_config_file v\<rparr>
       in if ov_help v then Inr (False, [], conf)
          else
            bindE (if \<not> co_daemon conf then bindE (level (ov_console_log v)) (\<lambda>l. Inr [Log_to_stream l]) else Inr []) (\<lambda>console.
              bindE (level (ov_log_level v)) (\<lambda>l.
                Inr (True, console @ [Log_to_file (ov_log_file v) (ov_truncate_log v) l], conf))))"

text \<open>
  The whole of \<open>main\<close>: what the process ends with, or \<open>None\<close> for a crash. The command line is parsed outside of
  the \<open>try\<close> block, so an exception of it is not caught.
\<close>

datatype process_end = Exits int | Terminates

definition wfded_main ::
    "('p, 'c, 'i, 'e) daemon_env \<Rightarrow> ('p, 'w) fs_ops \<Rightarrow> int \<Rightarrow> (string list \<Rightarrow> exn + option_values) \<Rightarrow> (string \<Rightarrow> exn + 'l) \<Rightarrow>
     (string \<Rightarrow> exn + 'c) \<Rightarrow> (('p, 'c, 'i, 'e) daemon_world \<Rightarrow> ('p, 'c, 'i, 'e) daemon_world) \<Rightarrow> string list \<Rightarrow> process_end option" where
  "wfded_main env fs garbage parse level get_configuration meanwhile argv =
     (case parse_command_line parse level argv of
        Inl e \<Rightarrow> Some Terminates
      | Inr (False, _, _) \<Rightarrow> Some (Exits (-1))
      | Inr (True, _, conf) \<Rightarrow>
          map_option Exits (daemon_main env fs garbage (get_configuration (co_conf_file conf)) meanwhile))"

text \<open>An option that is not known ends the process by \<open>std::terminate\<close>, and so does an unknown log level.\<close>

lemma bad_option_terminates:
  "parse argv = Inl e \<Longrightarrow> wfded_main env fs garbage parse level conf meanwhile argv = Some Terminates"
  "parse argv = Inr v \<Longrightarrow> \<not> ov_help v \<Longrightarrow> level (ov_log_level v) = Inl e \<Longrightarrow>
    wfded_main env fs garbage parse level conf meanwhile argv = Some Terminates"
proof -
  show "parse argv = Inl e \<Longrightarrow> wfded_main env fs garbage parse level conf meanwhile argv = Some Terminates"
    by (simp add: wfded_main_def parse_command_line_def)
next
  assume "parse argv = Inr v" "\<not> ov_help v" "level (ov_log_level v) = Inl e"
  then show "wfded_main env fs garbage parse level conf meanwhile argv = Some Terminates"
    by (cases "level (ov_console_log v)") (simp_all add: wfded_main_def parse_command_line_def Let_def)
qed

text \<open>Otherwise it ends with 0 or -1, when stopping does not crash.\<close>

lemma main_exit_code:
  "wfded_main env fs garbage parse level conf meanwhile argv \<in> {None, Some Terminates, Some (Exits 0), Some (Exits (-1))}"
  by (auto simp: wfded_main_def daemon_main_def split: sum.splits prod.splits bool.splits)

section \<open>A connection\<close>

text \<open>
  \<open>WfdeProtocolFtp::HandleConnection\<close>: the session of the host's session manager and its FTP session. An
  exception of \<open>GetEffectivePermissions\<close> comes after the session was made; \<open>None\<close> is a call that does not
  return.
\<close>

definition ftp_handle_connection ::
    "('p, 'w, 'p auth_manager, nat, 'os) ftp_env \<Rightarrow> 64 word \<Rightarrow> 'i \<Rightarrow> nat \<Rightarrow> 'w \<Rightarrow> 'os \<Rightarrow> nat \<Rightarrow>
     ('p, 'c, 'i, 'e) daemon_world \<Rightarrow>
     (exn + ('p, nat, 'w, 'p auth_manager, 'os) ftp) option \<times> ('p, 'c, 'i, 'e) daemon_world" where
  "ftp_handle_connection fenv garbage u pipeline disk os p w =
     (let h = the (en_parent (w ! p))
      in case host_of (w ! h) of
           None \<Rightarrow> (None, w)
         | Some d \<Rightarrow>
             let sp = \<lparr>sp_pipeline = pipeline, sp_client = None, sp_time_out = 60\<rparr>;
                 (session, sm) = create_session garbage (e_clock fenv os) sp u (ho_session_manager d);
                 w = w[h := (w ! h)\<lparr>en_data := Host_data (d\<lparr>ho_session_manager := sm\<rparr>)\<rparr>]
             in (map_option (map_sum id (\<lambda>perms.
                    handle_connection fenv garbage (sp_time_out sp) perms (ho_auth_manager d) disk os))
                   (effective_permissions w p), w))"
section \<open>Building keeps the tree well-formed\<close>

lemma type_fields [simp]:
  "en_type (e\<lparr>en_parent := p\<rparr>) = en_type e" "en_type (e\<lparr>en_permissions := q\<rparr>) = en_type e"
  "children_of (e\<lparr>en_parent := p\<rparr>) = children_of e" "children_of (e\<lparr>en_permissions := q\<rparr>) = children_of e"
  "host_of (e\<lparr>en_parent := p\<rparr>) = host_of e" "host_of (e\<lparr>en_permissions := q\<rparr>) = host_of e"
  by (simp_all add: en_type_def children_of_def host_of_def)

lemma tree_ok_set:
  assumes "tree_ok w" and "a < length w" and "en_type e = en_type (w ! a)" and "en_parent e = en_parent (w ! a)"
    and "distinct (children_of e)" and "\<And>c. c \<in> set (children_of e) \<Longrightarrow> c < length w \<and> en_parent (w ! c) = Some a"
  shows "tree_ok (w[a := e])"
proof -
  have "parents_ok (w[a := e])" unfolding parents_ok_def length_list_update
  proof (intro allI impI)
    fix b
    assume b: "b < length w"
    have t: "en_type (w[a := e] ! c) = en_type (w ! c)" for c using assms(2,3) by (simp add: nth_list_update)
    have p: "en_parent (w[a := e] ! c) = en_parent (w ! c)" for c using assms(2,4) by (simp add: nth_list_update)
    show "case en_parent (w[a := e] ! b) of None \<Rightarrow> en_type (w[a := e] ! b) \<in> {SERVER, HOST}
      | Some q \<Rightarrow> q < length w \<and> parent_type (en_type (w[a := e] ! b)) = Some (en_type (w[a := e] ! q))"
      using assms(1) b unfolding t p tree_ok_def parents_ok_def by blast
  qed
  moreover have "children_ok (w[a := e])"
    using assms by (auto simp: tree_ok_def children_ok_def nth_list_update)
  ultimately show ?thesis by (simp add: tree_ok_def)
qed

lemma tree_ok_append:
  assumes "tree_ok w" and "children_of e = []" and "en_parent e = None \<Longrightarrow> en_type e \<in> {SERVER, HOST}"
    and "\<And>p. en_parent e = Some p \<Longrightarrow> p < length w \<and> parent_type (en_type e) = Some (en_type (w ! p))"
  shows "tree_ok (w @ [e])"
proof -
  have "parents_ok (w @ [e])"
    using assms(1,3,4) unfolding tree_ok_def parents_ok_def
    by (auto simp: nth_append less_Suc_eq split: option.splits)
  moreover have "children_ok (w @ [e])"
    using assms(1,2) by (auto simp: tree_ok_def children_ok_def nth_append less_Suc_eq)
  ultimately show ?thesis by (simp add: tree_ok_def)
qed

text \<open>A host gets its server.\<close>

lemma tree_ok_adopt:
  assumes "tree_ok w" and "h < length w" and "s < length w" and "en_type (w ! h) = HOST" and "en_type (w ! s) = SERVER"
    and "en_parent (w ! h) = None"
  shows "tree_ok (w[h := (w ! h)\<lparr>en_parent := Some s\<rparr>])"
proof -
  let ?w = "w[h := (w ! h)\<lparr>en_parent := Some s\<rparr>]"
  have t: "en_type (?w ! c) = en_type (w ! c)" "children_of (?w ! c) = children_of (w ! c)" for c
    by (simp_all add: nth_list_update assms(2))
  have "parents_ok ?w" unfolding parents_ok_def length_list_update
  proof (intro allI impI)
    fix b
    assume b: "b < length w"
    show "case en_parent (?w ! b) of None \<Rightarrow> en_type (?w ! b) \<in> {SERVER, HOST}
      | Some q \<Rightarrow> q < length w \<and> parent_type (en_type (?w ! b)) = Some (en_type (?w ! q))"
      unfolding t
    proof (cases "b = h")
      case False
      then show "case en_parent (?w ! b) of None \<Rightarrow> en_type (w ! b) \<in> {SERVER, HOST}
        | Some q \<Rightarrow> q < length w \<and> parent_type (en_type (w ! b)) = Some (en_type (w ! q))"
        using assms(1) b by (simp add: tree_ok_def parents_ok_def)
    qed (use assms in simp)
  qed
  moreover have "en_parent (?w ! c) = Some a" if "a < length w" "c \<in> set (children_of (w ! a))" for a c
    using childrenD(2)[OF assms(1) that] assms(6) by (cases "c = h") simp_all
  then have "children_ok ?w" unfolding children_ok_def t length_list_update
    using assms(1) by (simp add: tree_ok_def children_ok_def)
  ultimately show ?thesis by (simp add: tree_ok_def)
qed

section \<open>What the daemon has built\<close>

text \<open>The part of an entity that later building leaves alone, and what is promised of a finished one.\<close>

definition core :: "('p, 'c, 'i, 'e, 'sm, 'am) entity \<Rightarrow> entity_type \<times> nat option \<times> 'p paths option \<times> ('sm \<times> 'am) option" where
  "core e = (en_type e, en_parent e, en_permissions e, map_option (\<lambda>d. (ho_session_manager d, ho_auth_manager d)) (host_of e))"

definition entity_fine :: "'sm \<Rightarrow> ('p, 'c, 'i, 'e, 'sm, 'p auth_manager) entity \<Rightarrow> bool" where
  "entity_fine sm e \<longleftrightarrow>
     (if en_type e = HOST
      then have_parent e \<and> (\<exists>perms. en_permissions e = Some perms \<and> paths_ok perms)
        \<and> (\<exists>d. host_of e = Some d \<and> am_ok (ho_auth_manager d) \<and> ho_session_manager d = sm)
      else en_permissions e = None)"

definition grows :: "'sm \<Rightarrow> ('p, 'c, 'i, 'e, 'sm, 'p auth_manager) world \<Rightarrow> ('p, 'c, 'i, 'e, 'sm, 'p auth_manager) world \<Rightarrow> bool" where
  "grows sm w w' \<longleftrightarrow> tree_ok w' \<and> length w \<le> length w' \<and> (\<forall>a < length w. core (w' ! a) = core (w ! a))
     \<and> (\<forall>a. length w \<le> a \<and> a < length w' \<longrightarrow> entity_fine sm (w' ! a))"

lemma entity_fine_core: "core e = core e' \<Longrightarrow> entity_fine sm e = entity_fine sm e'"
  by (auto simp: core_def entity_fine_def have_parent_def map_option_case split: option.splits)

lemma grows_ok: "grows sm w w' \<Longrightarrow> tree_ok w'"
  by (simp add: grows_def)

lemma grows_refl: "tree_ok w \<Longrightarrow> grows sm w w"
  by (auto simp: grows_def)

lemma grows_trans:
  assumes "grows sm w w'" and "grows sm w' w''"
  shows "grows sm w w''"
proof -
  have fine: "entity_fine sm (w'' ! a)" if a: "length w \<le> a" "a < length w''" for a
  proof (cases "a < length w'")
    case True
    then have "core (w'' ! a) = core (w' ! a)" using assms(2) by (simp add: grows_def)
    moreover have "entity_fine sm (w' ! a)" using assms(1) a(1) True by (simp add: grows_def)
    ultimately show ?thesis using entity_fine_core[of "w'' ! a" "w' ! a"] by simp
  next
    case False
    then show ?thesis using assms(2) a(2) by (simp add: grows_def)
  qed
  have keep: "core (w'' ! a) = core (w ! a)" if "a < length w" for a
    using assms that by (simp add: grows_def)
  have "tree_ok w''" "length w \<le> length w''" using assms by (simp_all add: grows_def)
  with fine keep show ?thesis unfolding grows_def by blast
qed

lemma core_fields: "core e = core e' \<Longrightarrow> en_type e = en_type e' \<and> en_parent e = en_parent e' \<and> en_permissions e = en_permissions e'"
  by (simp add: core_def)
lemma grows_type: "grows sm w w' \<Longrightarrow> a < length w \<Longrightarrow> a < length w' \<and> en_type (w' ! a) = en_type (w ! a)"
  using core_fields[of "w' ! a" "w ! a"] by (simp add: grows_def)

section \<open>Each operation of the builder\<close>

text \<open>\<open>WarMapAddUnique\<close>: a name that is taken is refused, any other is added.\<close>

definition map_add_unique :: "((string \<times> nat) list \<Rightarrow> string \<Rightarrow> nat \<Rightarrow> exn + (string \<times> nat) list) \<Rightarrow> bool" where
  "map_add_unique add \<longleftrightarrow>
     (\<forall>m k v. if k \<in> fst ` set m then add m k v = Inl ExceptionAlreadyExist
              else \<exists>m'. add m k v = Inr m' \<and> mset m' = add_mset (k, v) (mset m))"

lemma bindE_Inr: "bindE m f = Inr y \<longleftrightarrow> (\<exists>x. m = Inr x \<and> f x = Inr y)"
  by (cases m) simp_all

lemma entity_new_Inr:
  assumes "entity_new env parent conf data w = Inr (a, w')"
  shows "a = length w \<and> (\<exists>e. w' = w @ [e] \<and> en_parent e = parent \<and> en_permissions e = None \<and> en_data e = data)"
  using assms by (auto simp: entity_new_def bindE_Inr)

text \<open>A new entity without children, below a parent.\<close>

lemma grows_append:
  assumes "tree_ok w" and "children_of e = []" and "en_parent e = Some p" and "p < length w"
    and "parent_type (en_type e) = Some (en_type (w ! p))" and "en_type e \<noteq> HOST" and "en_permissions e = None"
  shows "grows sm w (w @ [e])"
proof -
  have "tree_ok (w @ [e])" using assms by (intro tree_ok_append) simp_all
  then show ?thesis using assms(6,7) by (auto simp: grows_def nth_append entity_fine_def less_Suc_eq)
qed

lemma core_data [simp]:
  "host_of e = Some d \<Longrightarrow> core (e\<lparr>en_data := Host_data (d\<lparr>ho_protocols := ps\<rparr>)\<rparr>) = core e"
  "protocol_of e = Some d' \<Longrightarrow> core (e\<lparr>en_data := Protocol_data d''\<rparr>) = core e"
  by (auto simp: core_def en_type_def host_of_def protocol_of_def split: entity_data.splits)

lemma grows_set:
  assumes "tree_ok (w[a := e])" and "core e = core (w ! a)"
  shows "grows sm w (w[a := e])"
proof -
  have "core (w[a := e] ! b) = core (w ! b)" if "b < length w" for b
    using assms(2) that by (cases "b = a") simp_all
  then show ?thesis using assms(1) by (auto simp: grows_def)
qed

lemma set_child:
  assumes "tree_ok w" and "a < length w" and "core e = core (w ! a)" and "children_of e = children_of (w ! a) @ [c]"
    and "c < length w" and "en_parent (w ! c) = Some a" and "c \<notin> set (children_of (w ! a))"
  shows "grows sm w (w[a := e])"
proof (rule grows_set[OF _ assms(3)])
  show "tree_ok (w[a := e])"
    by (rule tree_ok_set[OF assms(1,2)])
       (use assms core_fields[OF assms(3)] childrenD[OF assms(1,2)] in \<open>auto simp: tree_ok_def children_ok_def\<close>)
qed

lemma children_bound: "tree_ok w \<Longrightarrow> a < length w \<Longrightarrow> length w \<notin> set (children_of (w ! a))"
  using childrenD(1)[of w a "length w"] by blast

lemma create_protocol_grows:
  assumes "tree_ok w" and "h < length w" and "en_type (w ! h) = HOST"
    and "create_protocol env factories (Some h) conf w = Inr (p, w')"
  shows "grows sm w w' \<and> p < length w' \<and> en_type (w' ! p) = PROTOCOL"
proof -
  obtain e where e: "p = length w" "w' = add_protocol h p (w @ [e])" "en_parent e = Some h" "en_permissions e = None"
    "en_data e = Protocol_data \<lparr>pr_interfaces = [], pr_running = False\<rparr>"
    using assms(4) by (auto simp: create_protocol_def bindE_Inr dest!: entity_new_Inr)
  have t: "en_type e = PROTOCOL" "children_of e = []" using e(5) by (simp_all add: en_type_def children_of_def)
  have 1: "grows sm w (w @ [e])" by (rule grows_append[OF assms(1) t(2) e(3) assms(2)]) (use t e assms in simp_all)
  obtain d where d: "host_of (w ! h) = Some d" using assms(3) by (auto simp: en_type_def host_of_def split: entity_data.splits)
  let ?h = "(w ! h)\<lparr>en_data := Host_data (d\<lparr>ho_protocols := ho_protocols d @ [length w]\<rparr>)\<rparr>"
  have w': "w' = (w @ [e])[h := ?h]" using e(1,2) d assms(2) by (simp add: add_protocol_def nth_append)
  have "children_of ?h = children_of (w ! h) @ [length w]"
    using d by (simp add: children_of_def host_of_def split: entity_data.splits)
  then have 2: "grows sm (w @ [e]) w'" unfolding w'
    using 1 assms(2) d e(3) children_bound[OF assms(1,2)]
    by (intro set_child[where c = "length w"]) (simp_all add: grows_def nth_append)
  show ?thesis using grows_trans[OF 1 2] e(1) t(1) assms(2) w' by (simp add: nth_append nth_list_update)
qed

lemma add_endpoints_grows:
  assumes "tree_ok w" and "p < length w" and "en_type (w ! p) = PROTOCOL"
    and "add_endpoints env p if_name conf endpoints (n, w) = Inr (k, w')"
  shows "grows sm w w'"
  using assms
proof (induction endpoints arbitrary: n w)
  case Nil
  then show ?case by (simp add: grows_refl)
next
  case (Cons x endpoints)
  obtain address ep where x: "x = (address, ep)" by fastforce
  obtain i w1 where i: "create_interface env p (if_name @ ''-'' @ address) ep conf w = Inr (i, w1)"
    and rest: "add_endpoints env p if_name conf endpoints (Suc n, push_interface p i w1) = Inr (k, w')"
    using Cons.prems(4) x by (auto simp: bindE_Inr)
  obtain e where e: "i = length w" "w1 = w @ [e]" "en_parent e = Some p" "en_permissions e = None"
    "children_of e = []" "en_type e = INTERFACE"
    using i by (auto simp: create_interface_def children_of_def en_type_def dest!: entity_new_Inr)
  have 1: "grows sm w w1" unfolding e(2)
    by (rule grows_append[OF Cons.prems(1) e(5,3) Cons.prems(2)]) (use e Cons.prems(3) in simp_all)
  obtain d where d: "protocol_of (w ! p) = Some d" using Cons.prems(3) of_type(1) by blast
  let ?p = "(w ! p)\<lparr>en_data := Protocol_data (d\<lparr>pr_interfaces := pr_interfaces d @ [length w]\<rparr>)\<rparr>"
  have w2: "push_interface p i w1 = (w @ [e])[p := ?p]"
    using e(1,2) d Cons.prems(2) by (simp add: push_interface_def nth_append)
  have "children_of ?p = children_of (w ! p) @ [length w]"
    using d by (simp add: children_of_def protocol_of_def split: entity_data.splits)
  then have 2: "grows sm w1 (push_interface p i w1)" unfolding w2 unfolding e(2)
    using 1 Cons.prems(2) d e(2,3) children_bound[OF Cons.prems(1,2)]
    by (intro set_child[where c = "length w"]) (simp_all add: grows_def nth_append)
  note 3 = grows_trans[OF 1 2]
  have "en_type (push_interface p i w1 ! p) = PROTOCOL"
    using 3 Cons.prems(2,3) core_fields[of "push_interface p i w1 ! p" "w ! p"] by (simp add: grows_def)
  then have "grows sm (push_interface p i w1) w'"
    using 3 Cons.prems(2) by (intro Cons.IH[OF _ _ _ rest]) (auto simp: grows_def)
  then show ?case by (rule grows_trans[OF 3])
qed
lemma add_interfaces_grows:
  assumes "tree_ok w" and "p < length w" and "en_type (w ! p) = PROTOCOL" and "add_interfaces env p w = Inr (k, w')"
  shows "grows sm w w'"
proof -
  have "grows sm w w'" if "add_interfaces_loop env p names (n, w) = Inr (k, w')" "tree_ok w" "p < length w" "en_type (w ! p) = PROTOCOL"
    for names n w
    using that
  proof (induction names arbitrary: n w)
    case Nil
    then show ?case by (simp add: grows_refl)
  next
    case (Cons name names)
    obtain j w1 where 1: "add_interface env p (sub_get_config_for_path (en_conf (w ! p)) (''/Interfaces'' @ ''/'' @ name)) w = Inr (j, w1)"
      and rest: "add_interfaces_loop env p names (n + j, w1) = Inr (k, w')"
      using Cons.prems(1) by (auto simp: bindE_Inr)
    have 2: "grows sm w w1"
      using 1 by (auto simp: add_interface_def Let_def bindE_Inr intro: add_endpoints_grows[OF Cons.prems(2-4)])
    then have "tree_ok w1" "p < length w1" "en_type (w1 ! p) = PROTOCOL"
      using Cons.prems(3,4) core_fields[of "w1 ! p" "w ! p"] by (simp_all add: grows_def)
    then show ?case using grows_trans[OF 2 Cons.IH[OF rest]] by simp
  qed
  then show ?thesis using assms unfolding add_interfaces_def by blast
qed

lemma prepare_protocols_grows:
  assumes "prepare_protocols env factories conf prot_path h prdefs w = Inr w'" and "tree_ok w" and "h < length w" and "en_type (w ! h) = HOST"
  shows "grows sm w w'"
  using assms
proof (induction prdefs arbitrary: w)
  case Nil
  then show ?case by (simp add: grows_refl)
next
  case (Cons prdef prdefs)
  obtain p w1 n w2 where 1: "create_protocol env factories (Some h) (get_config_for_path conf (prot_path @ ''/'' @ prdef)) w = Inr (p, w1)"
    and 2: "add_interfaces env p w1 = Inr (n, w2)"
    and rest: "prepare_protocols env factories conf prot_path h prdefs w2 = Inr w'"
    using Cons.prems(1) by (auto simp: bindE_Inr)
  have g1: "grows sm w w1" "p < length w1" "en_type (w1 ! p) = PROTOCOL"
    using create_protocol_grows[OF Cons.prems(2-4) 1] by simp_all
  have g2: "grows sm w w2" by (rule grows_trans[OF g1(1) add_interfaces_grows[OF grows_ok[OF g1(1)] g1(2,3) 2]])
  then have "tree_ok w2" "h < length w2" "en_type (w2 ! h) = HOST"
    using Cons.prems(3,4) core_fields[of "w2 ! h" "w ! h"] by (simp_all add: grows_def)
  then show ?case using grows_trans[OF g2 Cons.IH[OF rest]] by simp
qed

text \<open>A host is added to its server and gets its mounts.\<close>

lemma create_host_Inr:
  assumes "map_add_unique (se_map_add env)" and "tree_ok w" and "s < length w" and "en_type (w ! s) = SERVER"
    and "create_host env s am conf w = Inr (h, w')"
  obtains hosts e where "h = length w" "w' = (w @ [e])[s := (w ! s)\<lparr>en_data := Server_data hosts\<rparr>]"
    "mset (map snd hosts) = add_mset (length w) (mset (children_of (w ! s)))"
    "en_parent e = Some s" "en_type e = HOST" "children_of e = []"
    "map_option (\<lambda>d. (ho_session_manager d, ho_auth_manager d)) (host_of e) = Some (se_session_manager env, am)"
proof -
  let ?data = "Host_data \<lparr>ho_long_name = sub_get_value (se_conf env) conf ''/LongName'' (Some default_host_long_name),
      ho_protocols = [], ho_session_manager = se_session_manager env, ho_auth_manager = am\<rparr>"
  obtain x where x: "entity_new env None conf ?data w = Inr x"
    "(case x of (h, w) \<Rightarrow> case add_host env s h w of (Inl e, w) \<Rightarrow> Inl e | (Inr u, w) \<Rightarrow> Inr (h, w)) = Inr (h, w')"
    using assms(5) unfolding create_host_def bindE_Inr by blast
  obtain h1 w1 r w2 where y: "x = (h1, w1)" "add_host env s h1 w1 = (r, w2)" by fastforce
  then have "h1 = h" "w2 = w'" "r = Inr ()" using x(2) by (simp_all split: sum.splits)
  then have "entity_new env None conf ?data w = Inr (h, w1)" and a: "fst (add_host env s h w1) = Inr ()"
    "snd (add_host env s h w1) = w'" using x(1) y by simp_all
  then obtain e where e: "h = length w" "w1 = w @ [e]" "en_parent e = None" "en_data e = ?data"
    using entity_new_Inr by blast
  obtain old where old: "en_data (w ! s) = Server_data old" using assms(4) by (auto simp: en_type_def split: entity_data.splits)
  have s1: "w1 ! s = w ! s" "w1 ! h = e" using e(1,2) assms(3) by (simp_all add: nth_append)
  then obtain hosts where hosts: "se_map_add env old (en_name e) h = Inr hosts"
    using a(1) old by (auto simp: add_host_def split: sum.splits)
  then have "mset hosts = add_mset (en_name e, h) (mset old)"
    using assms(1) unfolding map_add_unique_def by (metis Inr_inject sum.distinct(1))
  then have m: "mset (map snd hosts) = add_mset (length w) (mset (children_of (w ! s)))"
    using old e(1) by (simp add: children_of_def)
  have t: "en_type e = HOST" "host_of e = Some \<lparr>ho_long_name = sub_get_value (se_conf env) conf ''/LongName'' (Some default_host_long_name),
      ho_protocols = [], ho_session_manager = se_session_manager env, ho_auth_manager = am\<rparr>"
    using e(4) by (simp_all add: en_type_def host_of_def)
  let ?s = "(w ! s)\<lparr>en_data := Server_data hosts\<rparr>"
  have "w' = (w1[s := ?s])[h := e\<lparr>en_parent := Some s\<rparr>]"
    using a hosts old s1 e(1,2,3) t(1) assms(3)
    by (auto simp: add_host_def set_hosts_def set_parent_def have_parent_def en_type_def nth_append nth_list_update split: sum.splits if_splits)
  also have "\<dots> = (w @ [e\<lparr>en_parent := Some s\<rparr>])[s := ?s]"
    using e(1,2) assms(3) by (simp add: list_update_append list_update_swap)
  finally have w': "w' = (w @ [e\<lparr>en_parent := Some s\<rparr>])[s := ?s]" .
  show ?thesis by (rule that[OF e(1) w' m]) (use t e(4) in \<open>simp_all add: children_of_def\<close>)
qed
lemma entity_with_data: "en_data (e\<lparr>en_data := d\<rparr>) = d" "en_parent (e\<lparr>en_data := d\<rparr>) = en_parent e"
  "en_permissions (e\<lparr>en_data := d\<rparr>) = en_permissions e"
  by simp_all

lemma prepare_host_grows:
  assumes "map_add_unique (se_map_add env)" and "tree_ok w" and "s < length w" and "en_type (w ! s) = SERVER"
    and "prepare_host env fs garbage factories conf s path w = Inr w'"
  shows "grows (se_session_manager env) w w'"
proof -
  obtain am h w1 perms where am: "auth_manager_new fs (sub_config_ops (se_conf env)) (get_config_for_path conf (path @ ''/Users'')) garbage = Inr am"
    and h: "create_host env s am (get_config_for_path conf path) w = Inr (h, w1)"
    and perms: "create_permissions fs (sub_config_ops (se_conf env)) (get_config_for_path conf (path @ ''/Paths'')) = Inr perms"
    and rest: "prepare_protocols env factories conf (path @ ''/Protocols'') h (cf_enum_nodes (se_conf env) conf (path @ ''/Protocols''))
      (set_permissions h (Some perms) w1) = Inr w'"
    using assms(5) by (auto simp: prepare_host_def bindE_Inr Let_def)
  obtain hosts e where e: "h = length w" "w1 = (w @ [e])[s := (w ! s)\<lparr>en_data := Server_data hosts\<rparr>]"
    "mset (map snd hosts) = add_mset (length w) (mset (children_of (w ! s)))"
    "en_parent e = Some s" "en_type e = HOST" "children_of e = []"
    "map_option (\<lambda>d. (ho_session_manager d, ho_auth_manager d)) (host_of e) = Some (se_session_manager env, am)"
    by (rule create_host_Inr[OF assms(1-4) h])
  let ?e = "e\<lparr>en_permissions := Some perms\<rparr>" and ?s = "(w ! s)\<lparr>en_data := Server_data hosts\<rparr>"
  let ?w = "set_permissions h (Some perms) w1"
  have w: "?w = (w @ [?e])[s := ?s]"
    using e(1,2) assms(3) by (simp add: set_permissions_def nth_append list_update_append list_update_swap)
  have ap: "tree_ok (w @ [?e])" by (rule tree_ok_append[OF assms(2)]) (use e assms(3,4) in simp_all)
  have set_hosts: "set (map snd hosts) = insert (length w) (set (children_of (w ! s)))" and dist: "distinct (map snd hosts)"
    using e(3) assms(2,3) children_bound[OF assms(2,3)] 
    by (metis set_mset_add_mset_insert set_mset_mset)
       (metis e(3) assms(2,3) children_bound children_ok_def distinct.simps(2) mset.simps(2) mset_eq_imp_distinct_iff tree_ok_def)
  have "tree_ok ?w" unfolding w
  proof (rule tree_ok_set[OF ap])
    fix c
    assume "c \<in> set (children_of ?s)"
    then have "c = length w \<or> c \<in> set (children_of (w ! s))" using set_hosts by (auto simp: children_of_def)
    then show "c < length (w @ [?e]) \<and> en_parent ((w @ [?e]) ! c) = Some s"
      using childrenD(1,2)[OF assms(2,3)] e(4) by (auto simp: nth_append)
  qed (use assms(3,4) dist in \<open>simp_all add: nth_append children_of_def en_type_def\<close>)
  moreover have "core (?w ! a) = core (w ! a)" if "a < length w" for a
    using that assms(3,4) unfolding w
    by (cases "a = s") (simp_all add: nth_append core_def en_type_def host_of_def split: entity_data.splits)
  moreover have "entity_fine (se_session_manager env) (?w ! length w)"
    using assms(3) e(4,5,7) create_permissions_ok[OF perms] auth_manager_new_ok[OF am] unfolding w
    by (auto simp: entity_fine_def have_parent_def nth_append)
  ultimately have g: "grows (se_session_manager env) w ?w"
    unfolding grows_def w by (auto simp: less_Suc_eq_le dest: le_antisym)
  have "h < length ?w" "en_type (?w ! h) = HOST" unfolding w using e(1,5) assms(3) by (simp_all add: nth_append)
  then show ?thesis by (rule grows_trans[OF g prepare_protocols_grows[OF rest grows_ok[OF g]]])
qed

lemma prepare_hosts_grows:
  assumes "prepare_hosts env fs garbage factories conf s hosts_path hostsdefs w = Inr w'"
    and "map_add_unique (se_map_add env)" and "tree_ok w" and "s < length w" and "en_type (w ! s) = SERVER"
  shows "grows (se_session_manager env) w w'"
  using assms
proof (induction hostsdefs arbitrary: w)
  case Nil
  then show ?case by (simp add: grows_refl)
next
  case (Cons hostdef hostsdefs)
  obtain w1 where 1: "prepare_host env fs garbage factories conf s (hosts_path @ ''/'' @ hostdef) w = Inr w1"
    and rest: "prepare_hosts env fs garbage factories conf s hosts_path hostsdefs w1 = Inr w'"
    using Cons.prems(1) by (auto simp: bindE_Inr)
  note g = prepare_host_grows[OF Cons.prems(2-5) 1]
  then have "s < length w1" "en_type (w1 ! s) = SERVER"
    using Cons.prems(4,5) core_fields[of "w1 ! s" "w ! s"] by (simp_all add: grows_def)
  then show ?case by (rule grows_trans[OF g Cons.IH[OF rest Cons.prems(2) grows_ok[OF g]]])
qed

lemma prepare_servers_grows:
  assumes "prepare_servers_loop env fs garbage factories conf svrdefs (servers, w) = Inr (servers', w')"
    and "map_add_unique (se_map_add env)" and "tree_ok w" and "\<forall>s \<in> set servers. s < length w \<and> en_type (w ! s) = SERVER"
  shows "grows (se_session_manager env) w w' \<and> (\<forall>s \<in> set servers'. s < length w' \<and> en_type (w' ! s) = SERVER)"
  using assms
proof (induction svrdefs arbitrary: servers w)
  case Nil
  then show ?case by (simp add: grows_refl)
next
  case (Cons svrdef svrdefs)
  obtain s w1 w2 where 1: "create_server env (get_config_for_path conf (''/'' @ svrdef)) w = Inr (s, w1)"
    and 2: "prepare_hosts env fs garbage factories conf s ((''/'' @ svrdef) @ ''/Hosts'')
      (cf_enum_nodes (se_conf env) conf ((''/'' @ svrdef) @ ''/Hosts'')) w1 = Inr w2"
    and rest: "prepare_servers_loop env fs garbage factories conf svrdefs (servers @ [s], w2) = Inr (servers', w')"
    using Cons.prems(1) by (auto simp: bindE_Inr Let_def)
  obtain e where e: "s = length w" "w1 = w @ [e]" "en_parent e = None" "en_permissions e = None" "en_data e = Server_data []"
    using 1 by (auto simp: create_server_def dest!: entity_new_Inr)
  have t: "en_type e = SERVER" "children_of e = []" using e(5) by (simp_all add: en_type_def children_of_def)
  have "tree_ok w1" unfolding e(2) by (rule tree_ok_append[OF Cons.prems(3) t(2)]) (use e t in simp_all)
  then have g1: "grows (se_session_manager env) w w1"
    using e t by (auto simp: grows_def nth_append entity_fine_def less_Suc_eq)
  have g2: "grows (se_session_manager env) w1 w2"
    by (rule prepare_hosts_grows[OF 2 Cons.prems(2) grows_ok[OF g1]]) (use e t in simp_all)
  note g = grows_trans[OF g1 g2]
  have "\<forall>x \<in> set (servers @ [s]). x < length w2 \<and> en_type (w2 ! x) = SERVER"
    using grows_type[OF g] grows_type[OF g2, of "length w"] e(1,2) t(1) Cons.prems(4) by auto
  from Cons.IH[OF rest Cons.prems(2) grows_ok[OF g] this] grows_trans[OF g] show ?case by blast
qed
section \<open>The daemon as it is built\<close>

text \<open>C23: what \<open>PrepareServers\<close> builds. Whenever it returns, the entities form a well-formed tree (every
  child knows its parent, which is of the right type and lists it once); every host belongs to a
  server, has mounts without duplicates, a well-formed cache of users and a fresh session manager; no
  other entity has permissions of its own; and the result lists servers.\<close>
theorem prepare_servers_ok:
  assumes "map_add_unique (se_map_add env)" and "prepare_servers env fs garbage factories conf = Inr (servers, w)"
  shows "tree_ok w \<and> list_all (entity_fine (se_session_manager env)) w \<and> list_all (\<lambda>s. s < length w \<and> en_type (w ! s) = SERVER) servers"
proof -
  have "tree_ok (take 0 w)" by (simp add: tree_ok_def parents_ok_def children_ok_def)
  from prepare_servers_grows[OF assms(2)[unfolded prepare_servers_def] assms(1) this[unfolded take_0]]
  show ?thesis by (auto simp: grows_def list_all_length list_all_iff)
qed

lemma fine_same_tree:
  assumes "same_tree w w'" and "list_all (entity_fine sm) w"
  shows "list_all (entity_fine sm) w'"
  unfolding list_all_length
proof (intro allI impI)
  fix a
  assume "a < length w'"
  then have a: "a < length w" using same_tree_length[OF assms(1)] by simp
  have "core (w' ! a) = core (w ! a)" using shape_fields(2-5)[OF same_tree_nth[OF assms(1) a]] by (simp add: core_def)
  then show "entity_fine sm (w' ! a)" using entity_fine_core[of "w' ! a" "w ! a" sm] assms(2) a by (simp add: list_all_length)
qed

lemma daemon_startE:
  assumes "daemon_start env fs garbage conf = Inr (servers, w)"
  obtains factories w0 where "prepare_servers env fs garbage factories conf = Inr (servers, w0)"
    "for_each (server_start env) servers w0 = (Inr (), w)"
proof -
  obtain factories x where x: "prepare_servers env fs garbage factories conf = Inr x"
    "(case x of (servers, w) \<Rightarrow> case for_each (server_start env) servers w of (Inl e, w) \<Rightarrow> Inl e | (Inr u, w) \<Rightarrow> Inr (servers, w))
      = Inr (servers, w)"
    using assms unfolding daemon_start_def bindE_Inr by blast
  obtain servers0 w0 r w1 where y: "x = (servers0, w0)" "for_each (server_start env) servers0 w0 = (r, w1)" by fastforce
  then have "servers0 = servers" "w1 = w" "r = Inr ()" using x(2) by (simp_all split: sum.splits)
  then show ?thesis using that x(1) y by simp
qed

lemma daemon_start_up:
  assumes "map_add_unique (se_map_add env)" and "listen_opens env" and "daemon_start env fs garbage conf = Inr (servers, w)"
  shows "tree_ok w" and "list_all (entity_fine (se_session_manager env)) w" and "\<forall>s \<in> set servers. s < length w"
    and "\<forall>s \<in> set servers. \<forall>h \<in> set (get_hosts env w s). \<forall>p \<in> set (get_protocols env w h). protocol_served env w p w"
proof -
  obtain factories w0 where p: "prepare_servers env fs garbage factories conf = Inr (servers, w0)"
    and st: "for_each (server_start env) servers w0 = (Inr (), w)"
    by (rule daemon_startE[OF assms(3)])
  note ok = prepare_servers_ok[OF assms(1) p]
  then have t: "tree_ok w0" and s: "\<And>s. s \<in> set servers \<Longrightarrow> s < length w0" by (simp_all add: list_all_iff)
  have "rises w0 w \<and> (\<forall>s \<in> set servers. \<forall>h \<in> set (get_hosts env w0 s). \<forall>p \<in> set (get_protocols env w0 h). protocol_served env w0 p w)"
  proof (rule for_each_spec[OF st, where I = "same_tree w0"])
    fix a v v'
    assume a: "a \<in> set servers" and v: "same_tree w0 v" and sv: "server_start env a v = (Inr (), v')"
    have len: "a < length v" using s[OF a] same_tree_length[OF v] by simp
    note r = server_start_rises[OF same_tree_ok[OF v t] assms(2) len sv]
    have "protocol_served env v p v' = protocol_served env w0 p v'" if "p < length w0" for p
      using same_tree_children(3)[OF v t that] by (simp add: protocol_served_def)
    with r show "rises v v' \<and> (\<forall>h \<in> set (get_hosts env w0 a). \<forall>p \<in> set (get_protocols env w0 h). protocol_served env w0 p v')"
      using same_tree_children(1)[OF v t s[OF a]] same_tree_children(2)[OF v t] get_memberD(1)[OF t s[OF a]] get_memberD(2)[OF t]
      by metis
  next
    fix a v v'
    assume a: "a \<in> set servers" and v: "same_tree w0 v" "rises v v'"
      and q: "\<forall>h \<in> set (get_hosts env w0 a). \<forall>p \<in> set (get_protocols env w0 h). protocol_served env w0 p v"
    show "\<forall>h \<in> set (get_hosts env w0 a). \<forall>p \<in> set (get_protocols env w0 h). protocol_served env w0 p v'"
      using q served_stable[OF t v(1) _ v(2)] get_memberD(1)[OF t s[OF a]] get_memberD(2)[OF t] by metis
  qed (blast intro: tree_refl same_tree_trans rises_same_tree rises_trans)+
  then have sm: "same_tree w0 w" and served: "\<forall>s \<in> set servers. \<forall>h \<in> set (get_hosts env w0 s). \<forall>p \<in> set (get_protocols env w0 h). protocol_served env w0 p w"
    using rises_same_tree by blast+
  show "tree_ok w" by (rule same_tree_ok[OF sm t])
  show "list_all (entity_fine (se_session_manager env)) w" using fine_same_tree[OF sm] ok by blast
  show "\<forall>s \<in> set servers. s < length w" using s same_tree_length[OF sm] by simp
  show "\<forall>s \<in> set servers. \<forall>h \<in> set (get_hosts env w s). \<forall>p \<in> set (get_protocols env w h). protocol_served env w p w"
  proof (intro ballI)
    fix a h p
    assume a: "a \<in> set servers" and h: "h \<in> set (get_hosts env w a)" and p: "p \<in> set (get_protocols env w h)"
    have h0: "h \<in> set (get_hosts env w0 a)" using h same_tree_children(1)[OF sm t s[OF a]] by simp
    then have hl: "h < length w0" using get_memberD(1)[OF t s[OF a]] by blast
    have p0: "p \<in> set (get_protocols env w0 h)" using p same_tree_children(2)[OF sm t hl] by simp
    then have "p < length w0" using get_memberD(2)[OF t hl] by blast
    then show "protocol_served env w p w" using served a h0 p0 same_tree_children(3)[OF sm t] by (simp add: protocol_served_def)
  qed
qed

lemma daemon_stop_silent:
  assumes "tree_ok w" and "\<forall>s \<in> set servers. s < length w"
    and "\<forall>s \<in> set servers. \<forall>h \<in> set (get_hosts env w s). \<forall>p \<in> set (get_protocols env w h). all_bound env w p w"
  shows "\<exists>w'. daemon_stop env servers w = Some w'
    \<and> (\<forall>s \<in> set servers. \<forall>h \<in> set (get_hosts env w s). \<forall>p \<in> set (get_protocols env w h). protocol_silent env w p w')"
proof -
  note s = assms(2)[rule_format] and t = assms(1)
  let ?I = "\<lambda>v. same_tree w v \<and> (\<forall>s \<in> set servers. \<forall>h \<in> set (get_hosts env w s). \<forall>p \<in> set (get_protocols env w h). all_bound env w p v)"
  have "\<exists>w'. for_each_ptr (server_stop env) servers w = Some w' \<and> falls w w'
    \<and> (\<forall>s \<in> set servers. \<forall>h \<in> set (get_hosts env w s). \<forall>p \<in> set (get_protocols env w h). protocol_silent env w p w')"
  proof (rule for_each_ptr_spec[where I = ?I])
    show "?I w" using assms(3) tree_refl(1) by blast
  next
    fix v v'
    assume v: "?I v" "falls v v'"
    then show "?I v'"
      using bound_stable[OF t conjunct1[OF v(1)] _ v(2)] same_tree_trans[OF _ falls_same_tree[OF v(2)]]
        get_memberD(1)[OF t s] get_memberD(2)[OF t] by metis
  next
    fix a v
    assume a: "a \<in> set servers" and v: "?I v"
    show "\<exists>v'. server_stop env a v = Some v' \<and> falls v v'
      \<and> (\<forall>h \<in> set (get_hosts env w a). \<forall>p \<in> set (get_protocols env w h). protocol_silent env w p v')"
      by (rule server_stop_falls[OF t conjunct1[OF v] s[OF a]]) (use a v in blast)
  next
    fix a v v'
    assume a: "a \<in> set servers" and v: "?I v" "falls v v'"
      and q: "\<forall>h \<in> set (get_hosts env w a). \<forall>p \<in> set (get_protocols env w h). protocol_silent env w p v"
    show "\<forall>h \<in> set (get_hosts env w a). \<forall>p \<in> set (get_protocols env w h). protocol_silent env w p v'"
      using q silent_stable[OF t conjunct1[OF v(1)] _ v(2)] get_memberD(1)[OF t s[OF a]] get_memberD(2)[OF t] by metis
  qed (blast intro: tree_refl falls_trans)+
  then show ?thesis unfolding daemon_stop_def by blast
qed

lemma up_accepts: "entity_up (w ! i) \<Longrightarrow> en_parent (w ! i) = Some p \<Longrightarrow> \<exists>tls. interface_accept i w = Some (p, tls)"
  by (auto simp: entity_up_def interface_accept_def split: option.splits)

lemma silent_accept: "\<not> entity_listening (w ! i) \<Longrightarrow> interface_accept i w = None"
  by (auto simp: entity_listening_def interface_accept_def split: option.splits)

lemma not_running_dismisses: "\<not> entity_running (w ! p) \<Longrightarrow> protocol_on_connected handler p w = (None, w)"
  by (auto simp: entity_running_def protocol_on_connected_def split: option.splits)

lemma up_bound: "entity_up e \<Longrightarrow> entity_bound e"
  by (auto simp: entity_up_def entity_bound_def split: option.splits)

text \<open>C21: from the start of the daemon to its end. When \<open>main\<close> has started the servers, every protocol of
  every host runs and all its interfaces hand the connections they accept to it. Stopping then never
  follows the null pointer of an interface that was not started; afterwards no interface accepts, and
  a connection that was already on its way to the protocol is dismissed.\<close>
theorem daemon_lifecycle:
  assumes "map_add_unique (se_map_add env)" and "listen_opens env" and "daemon_start env fs garbage conf = Inr (servers, w)"
    and "s \<in> set servers" and "h \<in> set (get_hosts env w s)" and "p \<in> set (get_protocols env w h)"
  shows "entity_running (w ! p)
    \<and> list_all (\<lambda>i. \<exists>tls. interface_accept i w = Some (p, tls)) (get_interfaces env w p)
    \<and> (\<exists>w'. daemon_stop env servers w = Some w' \<and> list_all (\<lambda>i. interface_accept i w' = None) (get_interfaces env w p)
         \<and> protocol_on_connected handler p w' = (None, w'))"
proof (intro conjI)
  note up = daemon_start_up[OF assms(1-3)]
  have h: "h < length w" using get_memberD(1)[OF up(1) _ assms(5)] up(3) assms(4) by blast
  then have p: "p < length w" using get_memberD(2)[OF up(1) _ assms(6)] by blast
  have served: "protocol_served env w p w" using up(4) assms(4-6) by blast
  then show "entity_running (w ! p)" by (simp add: protocol_served_def)
  show "list_all (\<lambda>i. \<exists>tls. interface_accept i w = Some (p, tls)) (get_interfaces env w p)"
    unfolding list_all_iff
    by (intro ballI up_accepts) (use served get_memberD(3)[OF up(1) p] in \<open>simp_all add: protocol_served_def\<close>)
  have b: "\<forall>s \<in> set servers. \<forall>h \<in> set (get_hosts env w s). \<forall>p \<in> set (get_protocols env w h). all_bound env w p w"
    using up(4) up_bound unfolding protocol_served_def all_bound_def by blast
  from daemon_stop_silent[OF up(1,3) b] obtain w' where w': "daemon_stop env servers w = Some w'" "protocol_silent env w p w'"
    using assms(4-6) by blast
  show "\<exists>w'. daemon_stop env servers w = Some w' \<and> list_all (\<lambda>i. interface_accept i w' = None) (get_interfaces env w p)
      \<and> protocol_on_connected handler p w' = (None, w')"
  proof (intro exI conjI)
    show "list_all (\<lambda>i. interface_accept i w' = None) (get_interfaces env w p)"
      using w'(2) silent_accept by (auto simp: protocol_silent_def list_all_iff)
    show "protocol_on_connected handler p w' = (None, w')"
      by (rule not_running_dismisses) (use w'(2) in \<open>simp add: protocol_silent_def\<close>)
  qed (rule w'(1))
qed

text \<open>
  A daemon that serves: connections are taken by its FTP protocols one after the other, and in between
  the sessions of a host come and go and its user cache changes in any way. The tree stays as it was
  when the daemon started.
\<close>

definition with_host_state ::
    "'sm \<Rightarrow> 'am \<Rightarrow> ('sm, 'am) host_data \<Rightarrow> ('p, 'c, 'i, 'e, 'sm, 'am) entity \<Rightarrow> ('p, 'c, 'i, 'e, 'sm, 'am) entity" where
  "with_host_state sm am d e = e\<lparr>en_data := Host_data (d\<lparr>ho_session_manager := sm, ho_auth_manager := am\<rparr>)\<rparr>"

inductive serving ::
    "('p, 'w, 'p auth_manager, nat, 'os) ftp_env \<Rightarrow> ('p, 'c, 'i, 'e) daemon_world \<Rightarrow> ('p, 'c, 'i, 'e) daemon_world \<Rightarrow> bool"
  for fenv w0 where
  serving_start: "serving fenv w0 w0"
| serving_connection: "serving fenv w0 w \<Longrightarrow> p < length w \<Longrightarrow> en_type (w ! p) = PROTOCOL \<Longrightarrow>
    ftp_handle_connection fenv g u pipeline disk os p w = (r, w') \<Longrightarrow> serving fenv w0 w'"
| serving_host: "serving fenv w0 w \<Longrightarrow> h < length w \<Longrightarrow> host_of (w ! h) = Some d \<Longrightarrow>
    serving fenv w0 (w[h := with_host_state sm am d (w ! h)])"

text \<open>What stays of an entity: all of it, but of a host not the session manager and the user cache.\<close>

definition same_but_state ::
    "('p, 'c, 'i, 'e, 'sm, 'am) entity \<Rightarrow> ('p, 'c, 'i, 'e, 'sm, 'am) entity \<Rightarrow> bool" where
  "same_but_state e0 e \<longleftrightarrow> e = e0 \<or> (\<exists>d sm am. host_of e0 = Some d \<and> e = with_host_state sm am d e0)"

lemma same_but_state_fields:
  assumes "same_but_state e0 e"
  shows "en_parent e = en_parent e0" "en_permissions e = en_permissions e0" "en_type e = en_type e0"
    "host_of e = None \<longleftrightarrow> host_of e0 = None"
  using assms by (auto simp: same_but_state_def with_host_state_def host_of_def en_type_def split: entity_data.splits)

lemma same_but_state_step:
  "same_but_state e0 e \<Longrightarrow> host_of e = Some d \<Longrightarrow> same_but_state e0 (with_host_state sm am d e)"
proof -
  assume e: "same_but_state e0 e" and h: "host_of e = Some d"
  show "same_but_state e0 (with_host_state sm am d e)"
  proof (cases "e = e0")
    case True
    then show ?thesis using h unfolding same_but_state_def by blast
  next
    case False
    then obtain d0 sm0 am0 where d0: "host_of e0 = Some d0" "e = with_host_state sm0 am0 d0 e0"
      using e by (auto simp: same_but_state_def)
    then have "with_host_state sm am d e = with_host_state sm am d0 e0"
      using h by (auto simp: with_host_state_def host_of_def)
    with d0(1) show ?thesis unfolding same_but_state_def by blast
  qed
qed

definition runs_on ::
    "('p, 'c, 'i, 'e) daemon_world \<Rightarrow> ('p, 'c, 'i, 'e) daemon_world \<Rightarrow> bool" where
  "runs_on w0 w \<longleftrightarrow> length w = length w0 \<and> (\<forall>a < length w0. same_but_state (w0 ! a) (w ! a))"

lemma runs_on_step:
  assumes "runs_on w0 w" and "host_of (w ! h) = Some d"
  shows "runs_on w0 (w[h := with_host_state sm am d (w ! h)])"
  using assms same_but_state_step[OF _ assms(2)] by (cases "h < length w") (auto simp: runs_on_def nth_list_update)

lemma ftp_handle_connection_host:
  assumes "ftp_handle_connection fenv g u pipeline disk os p w = (r, w')"
  shows "w' = w \<or> (\<exists>h d sm. host_of (w ! h) = Some d \<and> w' = w[h := with_host_state sm (ho_auth_manager d) d (w ! h)])"
proof (cases "host_of (w ! the (en_parent (w ! p)))")
  case (Some d)
  then have "w' = w[the (en_parent (w ! p)) := with_host_state
      (snd (create_session g (e_clock fenv os) \<lparr>sp_pipeline = pipeline, sp_client = None, sp_time_out = 60\<rparr> u (ho_session_manager d)))
      (ho_auth_manager d) d (w ! the (en_parent (w ! p)))]"
    using assms
    by (cases "create_session g (e_clock fenv os) \<lparr>sp_pipeline = pipeline, sp_client = None, sp_time_out = 60\<rparr> u (ho_session_manager d)")
       (auto simp: ftp_handle_connection_def with_host_state_def Let_def)
  with Some show ?thesis by blast
qed (use assms in \<open>simp add: ftp_handle_connection_def\<close>)

lemma connection_keeps_users:
  assumes "ftp_handle_connection fenv g u pipeline disk os p w = (r, w')"
  shows "map_option ho_auth_manager (host_of (w' ! a)) = map_option ho_auth_manager (host_of (w ! a))"
proof -
  have "map_option ho_auth_manager (host_of (w[h := with_host_state sm (ho_auth_manager d) d (w ! h)] ! a))
      = map_option ho_auth_manager (host_of (w ! a))" if "host_of (w ! h) = Some d" for h d sm
    using that by (cases "h < length w"; cases "a = h")
      (simp_all add: with_host_state_def host_of_def list_update_beyond)
  with ftp_handle_connection_host[OF assms] show ?thesis by blast
qed

lemma serving_runs_on: "serving fenv w0 w \<Longrightarrow> runs_on w0 w"
proof (induction rule: serving.induct)
  case serving_start
  then show ?case by (simp add: runs_on_def same_but_state_def)
next
  case (serving_connection w p g u pipeline disk os r w')
  from ftp_handle_connection_host[OF serving_connection(4)] serving_connection(5) show ?case
    by (elim disjE exE conjE) (simp_all add: runs_on_step)
next
  case (serving_host w h d sm am)
  then show ?case by (intro runs_on_step)
qed

lemma runs_on_parents:
  assumes "runs_on w0 w" and "parents_ok w0"
  shows "parents_ok w"
proof -
  have len: "length w = length w0" and same: "\<And>a. a < length w0 \<Longrightarrow> same_but_state (w0 ! a) (w ! a)"
    using assms(1) by (simp_all add: runs_on_def)
  note f = same_but_state_fields(1,3)[OF same]
  show ?thesis unfolding parents_ok_def len
  proof (intro allI impI)
    fix a assume a: "a < length w0"
    have "case en_parent (w0 ! a) of None \<Rightarrow> en_type (w0 ! a) \<in> {SERVER, HOST}
        | Some p \<Rightarrow> p < length w0 \<and> parent_type (en_type (w0 ! a)) = Some (en_type (w0 ! p))"
      using assms(2) a by (simp add: parents_ok_def)
    then show "case en_parent (w ! a) of None \<Rightarrow> en_type (w ! a) \<in> {SERVER, HOST}
        | Some p \<Rightarrow> p < length w0 \<and> parent_type (en_type (w ! a)) = Some (en_type (w ! p))"
      unfolding f[OF a] by (auto simp: f split: option.splits)
  qed
qed

text \<open>C18: a connection gets the mounts of its host. Once the daemon has started, and whatever connections
  it has taken and whatever its sessions have done since, a connection that an FTP
  protocol handles is served without an exception and without the endless loop that
  \<open>GetEffectivePermissions\<close> has elsewhere: the new session is open in the session manager of the
  host besides those that were open before, and its permissions are the mounts the host was configured with. When the
  configuration gives absolute virtual paths, for the host and for the users in its cache, the
  connection starts in a state that the theorems on sessions are about.\<close>
theorem connection_gets_host_mounts:
  assumes "map_add_unique (se_map_add env)" and "listen_opens env" and "daemon_start env fs garbage conf = Inr (servers, w0)"
    and "serving fenv w0 w" and "p < length w" and "en_type (w ! p) = PROTOCOL"
  shows "\<exists>h d perms x w'. en_parent (w ! p) = Some h \<and> host_of (w ! h) = Some d \<and> en_permissions (w0 ! h) = Some perms
    \<and> ftp_handle_connection fenv g u pipeline disk os p w = (Some (Inr x), w')
    \<and> ses_permissions (fx_ses x) = perms
    \<and> open_ids (ho_session_manager (the (host_of (w' ! h)))) = insert u (open_ids (ho_session_manager d))
    \<and> (list_all mount_ok perms \<and> am_served (ho_auth_manager d) \<longrightarrow> ftp_reach fenv am_served x)"
proof -
  note up = daemon_start_up[OF assms(1-3)] and run = serving_runs_on[OF assms(4)]
  have par: "parents_ok w" using runs_on_parents[OF run] up(1) by (simp add: tree_ok_def)
  have len: "length w = length w0" and same: "\<And>a. a < length w0 \<Longrightarrow> same_but_state (w0 ! a) (w ! a)"
    using run by (simp_all add: runs_on_def)
  obtain h where h: "en_parent (w ! p) = Some h" "h < length w" "en_type (w ! h) = HOST"
    by (rule protocol_has_host[OF par assms(5,6)])
  note sh = same_but_state_fields[OF same[of h]] and sp = same_but_state_fields[OF same[of p]]
  have fine: "entity_fine (se_session_manager env) (w0 ! h)" "entity_fine (se_session_manager env) (w0 ! p)"
    using up(2) assms(5) h(2) len by (simp_all add: list_all_length)
  obtain d perms where d: "host_of (w ! h) = Some d" and perms0: "en_permissions (w0 ! h) = Some perms" "paths_ok perms"
    using fine(1) h(2,3) sh len by (cases "host_of (w ! h)") (auto simp: entity_fine_def)
  then have perms: "en_permissions (w ! h) = Some perms" using sh(2) h(2) len by simp
  have none: "en_permissions (w ! p) = None" using fine(2) assms(5,6) sp len by (simp add: entity_fine_def)
  obtain s where s: "en_parent (w ! h) = Some s"
    using fine(1) h(2,3) sh len by (auto simp: entity_fine_def have_parent_def)
  then have sv: "s < length w" "en_type (w ! s) = SERVER" using parent_types[OF par h(2)] h(3) by simp_all
  have neq: "p \<noteq> h" "s \<noteq> h" using assms(6) h(3) sv(2) by auto
  have top: "\<not> have_parent (w ! s)" using server_no_parent[OF par sv] by (simp add: have_parent_def)
  have eff: "effective_permissions (w[h := (w ! h)\<lparr>en_data := d'\<rparr>]) p = Some (Inr perms)" (is "effective_permissions ?v p = _") for d'
  proof -
    have "effective_permissions ?v p = effective_permissions ?v h"
      using effective_inherited[of ?v p] none h(1) neq(1) by simp
    also have "\<dots> = Some (Inr (permissions_copy perms))"
      using effective_own[of ?v h perms] perms s top neq(2) h(2) by simp
    finally show ?thesis using permissions_copy_id[OF perms0(2)] by simp
  qed
  obtain a sm where c: "create_session g (e_clock fenv os) \<lparr>sp_pipeline = pipeline, sp_client = None, sp_time_out = 60\<rparr> u
      (ho_session_manager d) = (a, sm)" by fastforce
  let ?w = "w[h := (w ! h)\<lparr>en_data := Host_data (d\<lparr>ho_session_manager := sm\<rparr>)\<rparr>]"
  let ?x = "handle_connection fenv g 60 perms (ho_auth_manager d) disk os"
  have "ftp_handle_connection fenv g u pipeline disk os p w = (Some (Inr ?x), ?w)"
    using h(1) d c eff by (simp add: ftp_handle_connection_def)
  moreover have "ses_permissions (fx_ses ?x) = perms"
    by (simp add: handle_connection_def ftp_new_def session_set_permissions_def)
  moreover have "open_ids (ho_session_manager (the (host_of (?w ! h)))) = insert u (open_ids (ho_session_manager d))"
    using h(2) create_session_ids[of g "e_clock fenv os" "\<lparr>sp_pipeline = pipeline, sp_client = None, sp_time_out = 60\<rparr>" u "ho_session_manager d"]
    by (simp add: host_of_def c)
  moreover have "list_all mount_ok perms \<and> am_served (ho_auth_manager d) \<longrightarrow> ftp_reach fenv am_served ?x"
    using perms0(2) by (auto simp: mounts_ok_def intro: reach_connected)
  ultimately show ?thesis using h(1) d perms0(1) by blast
qed

section \<open>A daemon for the witnesses\<close>

text \<open>
  A configuration like those of \<open>src/wfded/conf\<close>, as the list of its values: one server, one host with
  a mount and a user, FTP on one address. Nodes are found as the prefixes of the paths.
\<close>

definition ini_enum :: "(string \<times> string) list \<Rightarrow> string \<Rightarrow> string list" where
  "ini_enum c path =
     (let pre = (if last path = slash then path else path @ ''/'')
      in remdups (map (\<lambda>(k, v). takeWhile (\<lambda>x. x \<noteq> slash) (drop (length pre) k)) (filter (\<lambda>(k, v). prefix pre k) c)))"

definition ini_ops :: "(string \<times> string) list config_ops" where
  "ini_ops = demo_config\<lparr>cf_enum_nodes := ini_enum\<rparr>"

definition ini_data :: "(string \<times> string) list" where
  "ini_data =
     [(''/S/Name'', ''Server''), (''/S/Hosts/F/Protocols/FTP/Name'', ''FTP''),
      (''/S/Hosts/F/Protocols/FTP/Interfaces/any/Name'', ''tcp-any''),
      (''/S/Hosts/F/Protocols/FTP/Interfaces/any/Ip'', ''0.0.0.0''),
      (''/S/Hosts/F/Protocols/FTP/Interfaces/any/Port'', ''21000''),
      (''/S/Hosts/F/Paths/root/Name'', ''/''), (''/S/Hosts/F/Paths/root/Path'', ''/srv''),
      (''/S/Hosts/F/Paths/root/Perms'', ''IS_RECURSIVE,CAN_LIST,CAN_READ''),
      (''/S/Hosts/F/Users/scanner/Passwd'', ''secret'')]"

definition ini_env :: "(demo_path, (string \<times> string) list, nat, string) daemon_env" where
  "ini_env =
     \<lparr>se_conf = ini_ops, se_uuid = (\<lambda>s. Inr 0), se_random = (\<lambda>a. a), se_matches = (\<lambda>pat name. True),
      se_resolve = (\<lambda>ip port. Inr [(ip, ip @ '':'' @ port)]), se_listen = (\<lambda>ep. (None, True)),
      se_map_add = (\<lambda>m k v. if k \<in> fst ` set m then Inl ExceptionAlreadyExist else Inr (m @ [(k, v)])),
      se_session_manager = session_manager_new 2\<rparr>"

lemma ini_env_ok: "map_add_unique (se_map_add ini_env)" "listen_opens ini_env"
  by (simp_all add: map_add_unique_def listen_opens_def ini_env_def)

definition ini_started :: "exn + nat list \<times> (demo_path, (string \<times> string) list, nat, string) daemon_world" where
  "ini_started = daemon_start ini_env demo_fs 0 ini_data"

lemma ini_started_tree:
  "map_sum id (\<lambda>(servers, w). (servers, map en_type w, map en_parent w, map en_name w,
      map (\<lambda>e. map_option (list_all mount_ok) (en_permissions e)) w,
      map (\<lambda>e. map_option (\<lambda>d. list_all (\<lambda>c. mounts_ok (ci_permissions c)) (am_impls (ho_auth_manager d))) (host_of e)) w,
      get_hosts ini_env w 0, get_protocols ini_env w 1, get_interfaces ini_env w 2)) ini_started
   = Inr ([0], [SERVER, HOST, PROTOCOL, INTERFACE], [None, Some 0, Some 1, Some 2],
      [''Server'', ''Default'', ''FTP'', ''tcp-any''], [None, Some True, None, None], [None, Some True, None, None], [1], [2], [3])"
  by code_simp

lemma ini_startedE:
  obtains w where "daemon_start ini_env demo_fs 0 ini_data = Inr ([0], w)" "map en_type w = [SERVER, HOST, PROTOCOL, INTERFACE]"
    "map en_parent w = [None, Some 0, Some 1, Some 2]"
    "map (\<lambda>e. map_option (list_all mount_ok) (en_permissions e)) w = [None, Some True, None, None]"
    "map (\<lambda>e. map_option (\<lambda>d. list_all (\<lambda>c. mounts_ok (ci_permissions c)) (am_impls (ho_auth_manager d))) (host_of e)) w
      = [None, Some True, None, None]"
    "get_hosts ini_env w 0 = [1]" "get_protocols ini_env w 1 = [2]" "get_interfaces ini_env w 2 = [3]"
  using ini_started_tree unfolding ini_started_def
  by (cases "daemon_start ini_env demo_fs 0 ini_data") (auto split: prod.splits)

theorem prepare_servers_ok_witness:
  "\<exists>servers w. prepare_servers ini_env demo_fs 0 [(''FTP'', 0)] ini_data = Inr (servers, w) \<and> tree_ok w"
proof -
  have "\<not> isl (prepare_servers ini_env demo_fs 0 [(''FTP'', 0)] ini_data)" by code_simp
  then obtain servers w where "prepare_servers ini_env demo_fs 0 [(''FTP'', 0)] ini_data = Inr (servers, w)"
    by (cases "prepare_servers ini_env demo_fs 0 [(''FTP'', 0)] ini_data") auto
  then show ?thesis using prepare_servers_ok[OF ini_env_ok(1)] by blast
qed

theorem daemon_lifecycle_witness:
  "\<exists>w tls w'. daemon_start ini_env demo_fs 0 ini_data = Inr ([0], w) \<and> interface_accept 3 w = Some (2, tls)
     \<and> daemon_stop ini_env [0] w = Some w' \<and> interface_accept 3 w' = None
     \<and> protocol_on_connected (\<lambda>w. ((), w)) 2 w' = (None, w')"
proof -
  obtain w where w: "daemon_start ini_env demo_fs 0 ini_data = Inr ([0], w)"
    "get_hosts ini_env w 0 = [1]" "get_protocols ini_env w 1 = [2]" "get_interfaces ini_env w 2 = [3]"
    by (rule ini_startedE)
  have "0 \<in> set [0]" "1 \<in> set (get_hosts ini_env w 0)" "2 \<in> set (get_protocols ini_env w 1)" using w by simp_all
  from daemon_lifecycle[OF ini_env_ok w(1) this, of "\<lambda>w. ((), w)"] show ?thesis unfolding w(4) using w(1) by auto
qed

theorem connection_gets_host_mounts_witness:
  "\<exists>w0 x x' w w'. daemon_start ini_env demo_fs 0 ini_data = Inr ([0], w0)
     \<and> ftp_handle_connection demo_env 0 9 1 bob_disk 0 2 w0 = (Some (Inr x'), w)
     \<and> ftp_handle_connection demo_env 0 8 1 bob_disk 0 2 w = (Some (Inr x), w') \<and> ftp_reach demo_env am_served x"
proof -
  obtain w where w: "daemon_start ini_env demo_fs 0 ini_data = Inr ([0], w)" "map en_type w = [SERVER, HOST, PROTOCOL, INTERFACE]"
    "map en_parent w = [None, Some 0, Some 1, Some 2]"
    "map (\<lambda>e. map_option (list_all mount_ok) (en_permissions e)) w = [None, Some True, None, None]"
    "map (\<lambda>e. map_option (\<lambda>d. list_all (\<lambda>c. mounts_ok (ci_permissions c)) (am_impls (ho_auth_manager d))) (host_of e)) w
      = [None, Some True, None, None]"
    by (rule ini_startedE)
  have len: "length w = 4" using arg_cong[OF w(2), of length] by simp
  have nth: "en_type (w ! 1) = HOST" "en_type (w ! 2) = PROTOCOL" "en_parent (w ! 2) = Some 1"
    "map_option (list_all mount_ok) (en_permissions (w ! 1)) = Some True"
    "map_option (\<lambda>d. list_all (\<lambda>c. mounts_ok (ci_permissions c)) (am_impls (ho_auth_manager d))) (host_of (w ! 1)) = Some True"
    using arg_cong[OF w(2), of "\<lambda>l. l ! 1"] arg_cong[OF w(2), of "\<lambda>l. l ! 2"] arg_cong[OF w(3), of "\<lambda>l. l ! 2"]
      arg_cong[OF w(4), of "\<lambda>l. l ! 1"] arg_cong[OF w(5), of "\<lambda>l. l ! 1"] by (simp_all add: len)
  have "entity_fine (se_session_manager ini_env) (w ! 1)"
    using daemon_start_up(2)[OF ini_env_ok w(1)] len by (simp add: list_all_length)
  then have am: "\<exists>d. host_of (w ! 1) = Some d \<and> am_ok (ho_auth_manager d)" using nth(1) by (auto simp: entity_fine_def)
  have p: "2 < length w" using len by simp
  have "\<exists>x w'. ftp_handle_connection demo_env 0 9 1 bob_disk 0 2 w = (Some (Inr x), w')"
    using connection_gets_host_mounts[OF ini_env_ok w(1) serving_start p nth(2), of demo_env 0 9 1 bob_disk 0] by blast
  then obtain x1 w1 where x1: "ftp_handle_connection demo_env 0 9 1 bob_disk 0 2 w = (Some (Inr x1), w1)" by (elim exE)
  have sv: "serving demo_env w w1" by (rule serving_connection[OF serving_start p nth(2) x1])
  then have run: "runs_on w w1" by (rule serving_runs_on)
  then have p1: "2 < length w1" using p by (simp add: runs_on_def)
  have "same_but_state (w ! 2) (w1 ! 2)" using run p by (simp add: runs_on_def)
  note f = same_but_state_fields[OF this]
  have t1: "en_type (w1 ! 2) = PROTOCOL" using f(3) nth(2) by simp
  obtain h d perms x w' where c: "en_parent (w1 ! 2) = Some h" "host_of (w1 ! h) = Some d" "en_permissions (w ! h) = Some perms"
    "ftp_handle_connection demo_env 0 8 1 bob_disk 0 2 w1 = (Some (Inr x), w')"
    "list_all mount_ok perms \<and> am_served (ho_auth_manager d) \<longrightarrow> ftp_reach demo_env am_served x"
    using connection_gets_host_mounts[OF ini_env_ok w(1) sv p1 t1, of 0 8 1 bob_disk 0] by (elim exE conjE)
  have h: "h = 1" using c(1) f(1) nth(3) by simp
  obtain d0 where d0: "host_of (w ! 1) = Some d0" "am_ok (ho_auth_manager d0)" using am by blast
  have "ho_auth_manager d = ho_auth_manager d0" using connection_keeps_users[OF x1, of 1] c(2) d0(1) h by simp
  then have "list_all mount_ok perms \<and> am_served (ho_auth_manager d)" using c(3) nth(4,5) d0 h by (simp add: am_served_def)
  with c(5) have "ftp_reach demo_env am_served x" by (rule mp)
  with w(1) x1 c(4) show ?thesis by (intro exI conjI)
qed

end
