(* ===== verification/Spec2Isabelle.thy ===== *)
theory Spec2Isabelle
  imports WfdeAsciiFile FtpInput FtpListFacts FtpListWin FtpReplyText FtpCases FtpPrivate FtpHost Wfded
begin

text \<open>
  A verification library for wfde, an FTP server library in C++, and for the authentication manager of
  its daemon wfded.

  The program. A server has hosts, a host has protocols, a protocol accepts connections on its
  interfaces; each connection gets a session of the session manager and, for FTP, a control coroutine
  that fetches requests, dispatches them to command objects and sends their replies. A command
  that moves data starts a second coroutine for the transfer. All access to the disk goes through
  the session, which resolves virtual paths to physical ones by the mounts of the server and of the
  user who is logged on.

  The theories, in the order they build on each other:

  \<^item> \<open>Prelude\<close>: exceptions as values of a sum type, the sequencing of fallible calls (\<open>bindE\<close>, and \<open>bindS\<close>
    with a state), characters, numerals, buffers. \<open>Filesystem\<close>: the calls of the file system as a record of
    parameters (\<open>boost::filesystem\<close>, memory mapping), with a small in-memory disk for the witnesses.
  \<^item> \<open>WfdePath\<close>, \<open>WfdePathFacts\<close> (\<open>src/wfde/WfdePath.cpp\<close>): normalisation of virtual paths, permission words. The
    results of \<open>Normalize\<close> are safe and agree with a reference resolution of the segments.
  \<^item> \<open>Configuration\<close> (\<open>src/wfde/WfdeConfigurationPropertyTree.{h,cpp}\<close>), \<open>WfdePermissions\<close> (mounts, with the
    locale \<open>permission_provider\<close> of what a session relies on), \<open>AuthManager\<close> (\<open>src/wfded/AuthManager.h\<close>, with the locales
    \<open>authenticator\<close> and \<open>mount_provider\<close>, interpreted on the daemon).
  \<^item> \<open>FileInterface\<close>, \<open>WfdeFile\<close>, \<open>WfdeAsciiFile\<close>: the interface \<open>File\<close>, memory-mapped files and the wrapper that
    converts line ends. The locale \<open>file_source\<close> is the contract of a file that is read to its end; it is
    interpreted on mapped files, on text files and on directory listings, with the chunk sizes each can be read with.
  \<^item> \<open>WfdeSession\<close> (\<open>src/wfde/WfdeSession.cpp\<close>): logging on, the current directory, and the requests that may
    change the disk: none of them does so without the right it needs (\<open>request_granted\<close>), nor in another way than the one it
    stands for (\<open>request_effect\<close>).
  \<^item> \<open>WfdeSessionManager\<close> (\<open>src/wfde/WfdeSessionManager.cpp\<close>): the map of sessions, housekeeping with its timer,
    and its invariant for every interleaving of its calls. The locale \<open>session_registry\<close> is what a protocol
    relies on; its interpretation \<open>registry\<close> is the manager's list refined by a set of session ids.
  \<^item> \<open>WfdeEntities\<close> (\<open>src/wfde/WfdeEntity.cpp\<close>, \<open>WfdeServer.cpp\<close>, \<open>WfdeHost.cpp\<close>, \<open>WfdeProtocol.cpp\<close>,
    \<open>WfdeInterface.cpp\<close>): the tree of servers, hosts, protocols and interfaces, how permissions are inherited
    along it, how it is started and stopped.
  \<^item> \<open>FtpProtocol\<close> (reply codes, facts, protocol state), \<open>FtpInput\<close> (\<open>FetchNextCommand\<close>), \<open>FtpList\<close> and \<open>FtpListFacts\<close>
    (listings in the three formats), \<open>FtpListWin\<close> (the directory iterator of the Windows build, which gives
    the directory only itself when \<open>FindFirstFile\<close> does what it is documented to do). Both iterators read the name
    of a mount point from a string that is gone; what they read is the parameter \<open>do_dangling\<close>.
  \<^item> \<open>WfdeSocket\<close> (\<open>src/wfde/WfdeSocket.h\<close>, \<open>WfdeTlsSocket.h\<close>): the interface \<open>Socket\<close> as a record of operations and
    its two implementations. The locale \<open>channel\<close> is what a protocol relies on when it writes; it is
    interpreted on both.
  \<^item> \<open>FtpCommands\<close>, \<open>FtpHandlers\<close> (\<open>src/wfde/ftp/wfde_ftp_commands.cpp\<close>): the 36 commands as a datatype, what the
    classes override as functions on it, the handlers as functions on the record \<open>ftp\<close>, which holds the data
    members of \<open>WfdeFtpSession\<close> with the session, the disk and the authentication manager.
  \<^item> \<open>FtpDispatch\<close>, \<open>FtpTransfer\<close> (\<open>src/wfde/ftp/WfdeFtpSession.cpp\<close>): the gates, one request, replies, closing; the
    transfer coroutine, cut into steps where it yields.
  \<^item> \<open>FtpFacts\<close> proves the invariant for the handlers, \<open>FtpSystem\<close> for the dispatcher and the transfer, and composes
    all into the step relation \<open>ftp_step\<close> with reachability. \<open>FtpTheorems\<close>, \<open>FtpReplies\<close>, \<open>FtpDownload\<close>,
    \<open>FtpUpload\<close> and \<open>FtpCases\<close> hold the properties of a whole session: who changes the disk, one reply for a
    request, harmless refusals, a download and an upload from the request to the last reply, and
    corner cases. \<open>FtpSecure\<close> puts a session on its socket (\<open>wired_step\<close>): the flag of the session and that of
    the socket agree, and no reply is written in clear once the handshake is done. \<open>FtpPrivate\<close> puts a transfer on
    its data socket: what a download writes there is the file, and with PROT P none of it in clear.
  \<^item> \<open>FtpControl\<close> (\<open>ProcessCommands\<close>): the coroutine of the control connection, as a function of the bytes of the
    client, which is a fold over request lines, and as a relation \<open>control_step\<close> that refines \<open>ftp_step\<close>.
    \<open>FtpFraming\<close> is a client that reads replies, and \<open>FtpReplyText\<close> what the handlers and transfers put into
    them: all that a connection sends can be read back. \<open>FtpHost\<close> composes all connections of a host with its session manager and the disk and users they share.
  \<^item> \<open>Wfded\<close> (\<open>src/wfded/wfded.cpp\<close>): the daemon reads its command line, builds the tree from its configuration, starts and stops it,
    and a connection that a protocol of the tree accepts gets a session of the manager with the mounts of
    its host.

  Conventions. A C++ exception is \<open>Inl\<close> of the sum type \<open>exn + 'a\<close>; \<open>ExceptionLibrary\<close> stands for those of boost
  and the standard library. Sizes and offsets of the file code are natural numbers with the wrap-around
  of sums and differences at 64 bits written out (\<open>u64\<close>, \<open>u64_sub\<close>); flags, ports and clocks of fixed width are words. What is not
  under \<open>src\<close> (boost::filesystem, asio, regex, property_tree, lexical_cast, the system calls) is a field of
  \<open>fs_ops\<close>, \<open>dir_ops\<close>, \<open>win_ops\<close>, \<open>asio_ops\<close> or \<open>ftp_env\<close>, that is, a parameter; documented behaviour a property needs is a named
  hypothesis: \<open>fs_lawful\<close> says what the calls of the file system have done when they succeed, \<open>fs_maps\<close> and
  \<open>fs_resizes\<close> that those on one file do succeed; \<open>dir_printable\<close>, \<open>asio_lawful\<close> and \<open>mount_provider\<close> are the others. Some loops have fuel: \<open>drain\<close>, whose bound is the measure of the
  locale \<open>file_source\<close>, \<open>list_loop\<close>, for which one more than the entries that are left is enough, and \<open>send_loop\<close> and
  \<open>data_loop\<close>, for which the size of the file and two are enough (\<open>retr_on_the_wire\<close>); \<open>fx_hung\<close> stands for a loop without end and for a null pointer that is followed.
  \<open>effective_permissions\<close> is a partial function of options: \<open>None\<close> is a walk to the root that does not return,
  which a well-formed tree excludes (\<open>effective_permissions_returns\<close>).

  Interleaving. A step runs until the coroutine waits for the network; a reply is written in one such
  step. Three relations build on each other: \<open>ftp_step\<close> for a session, whose control input is arbitrary;
  \<open>control_step\<close> for a session with its line reader; \<open>host_step\<close> for any number of connections with their
  session manager. What is proved of a session holds for each connection of a host (\<open>host_composes\<close>).

  Not modelled: asio, OpenSSL, the parser of the command line and the system calls themselves (parameters),
  log output, threads, the signals of the daemon, the base class of clients (only stored strings), and the
  libraries in \<open>warlib\<close>.
\<close>

end
